(* ===== verification/Prelude.thy ===== *)
theory Prelude
  imports Main "HOL-Library.Word"
begin

text \<open>
  What every theory of the development shares: the names of Go's machine types, the instants of its
  clock, and the generic facts on words that the component proofs rely on, collected so that \<^theory_text>\<open>simp add:\<close> and \<^theory_text>\<open>auto simp:\<close> carry them.

  Conventions.  A Go \<^verbatim>\<open>int64\<close> (and \<^verbatim>\<open>int\<close> on the 64-bit targets the
  project builds for) is a \<open>64 word\<close> read with \<open>sint\<close>.  A Go \<^verbatim>\<open>string\<close> or
  \<^verbatim>\<open>[]byte\<close> is a \<open>string\<close>, a list of 8-bit \<open>char\<close>s, so \<open>length\<close>
  counts bytes exactly as Go's \<^verbatim>\<open>len\<close> does.  An instant (\<^verbatim>\<open>time.Time\<close>)
  and a \<^verbatim>\<open>time.Duration\<close> are \<open>int\<close>s counting nanoseconds.  A function that
  returns \<^verbatim>\<open>(T, error)\<close> returns a sum, \<open>Inl\<close> the error.  An operation on
  some store takes the store last and returns the new store paired with its result.
\<close>

section \<open>Machine types\<close>

type_synonym int64 = "64 word"
type_synonym gotime = int
type_synonym duration = int

definition nanos_per_second :: int where
  "nanos_per_second = 1000000000"

text \<open>\<^verbatim>\<open>Time.Unix()\<close>: whole seconds since the epoch, rounded towards the past.\<close>

definition unix :: "gotime \<Rightarrow> int" where
  "unix t = t div nanos_per_second"

text \<open>\<^verbatim>\<open>time.Unix(sec, 0)\<close>.\<close>

definition of_unix :: "int \<Rightarrow> gotime" where
  "of_unix s = s * nanos_per_second"

lemma nanos_per_second_pos [simp]: "0 < nanos_per_second"
  by (simp add: nanos_per_second_def)

lemma unix_of_unix [simp]: "unix (of_unix s) = s"
  by (simp add: unix_def of_unix_def nanos_per_second_def)

lemma of_unix_mono: "s \<le> t \<Longrightarrow> of_unix s \<le> of_unix t"
  by (simp add: of_unix_def nanos_per_second_def)

lemma unix_mono: "s \<le> t \<Longrightarrow> unix s \<le> unix t"
  by (simp add: unix_def nanos_per_second_def zdiv_mono1)

lemma of_unix_unix_le: "of_unix (unix t) \<le> t"
  by (simp add: unix_def of_unix_def nanos_per_second_def)

lemma less_of_unix_Suc: "t < of_unix (unix t + 1)"
  by (simp add: unix_def of_unix_def nanos_per_second_def)

text \<open>An instant given in whole seconds is compared with a clock reading on the second.\<close>

lemma of_unix_le_iff: "of_unix s \<le> t \<longleftrightarrow> s \<le> unix t"
proof
  assume "of_unix s \<le> t"
  then show "s \<le> unix t" using unix_mono by fastforce
next
  assume "s \<le> unix t"
  then have "of_unix s \<le> of_unix (unix t)" by (rule of_unix_mono)
  then show "of_unix s \<le> t" using of_unix_unix_le order_trans by blast
qed

section \<open>A lemma collection\<close>

named_theorems frame_rules \<open>which operation leaves which part of the state unchanged\<close>

section \<open>Words\<close>

lemma sint_int64_bounds: "- (2 ^ 63) \<le> sint (w :: int64)" "sint (w :: int64) < 2 ^ 63"
  using sint_ge [of w] sint_lt [of w] by simp_all

lemma sint_of_int_int64:
  assumes "- (2 ^ 63) \<le> i" "i < 2 ^ 63"
  shows "sint (word_of_int i :: int64) = i"
  using assms by (simp add: sint_sbintrunc' signed_take_bit_int_eq_self)

lemma sint_of_nat_int64: "m < 2 ^ 63 \<Longrightarrow> sint (of_nat m :: int64) = int m"
  using sint_of_int_int64 [of "int m"] by simp

lemma of_nat_int64_inj: "m < 2 ^ 63 \<Longrightarrow> j < 2 ^ 63 \<Longrightarrow> (of_nat m :: int64) = of_nat j \<Longrightarrow> m = j"
  using sint_of_nat_int64 by (metis of_nat_eq_iff)

lemma int64_eq_iff_sint: "(a :: int64) = b \<longleftrightarrow> sint a = sint b"
proof
  assume "sint a = sint b"
  then have "word_of_int (sint a) = (word_of_int (sint b) :: int64)" by (rule arg_cong)
  then show "a = b" by simp
qed simp

lemma sint_add_no_overflow:
  assumes "- (2 ^ 63) \<le> sint (a :: int64) + sint b" "sint a + sint b < 2 ^ 63"
  shows "sint (a + b) = sint a + sint b"
proof -
  have "a + b = word_of_int (sint a + sint b)" by simp
  then show ?thesis using sint_of_int_int64 [OF assms] by simp
qed

lemma sint_uminus_no_overflow:
  assumes "sint (a :: int64) \<noteq> - (2 ^ 63)"
  shows "sint (- a) = - sint a"
proof -
  have "- a = word_of_int (- sint a)" by simp
  moreover have "- (2 ^ 63) \<le> - sint a" "- sint a < 2 ^ 63"
    using assms sint_int64_bounds [of a] by auto
  ultimately show ?thesis using sint_of_int_int64 by metis
qed

lemma sint_nonneg_unat:
  assumes "0 \<le> sint (a :: int64)"
  shows "sint a = int (unat a)"
proof -
  have "uint a = take_bit 64 (sint a)" using uint_sint [of a] by simp
  also have "\<dots> = sint a"
    using assms sint_int64_bounds [of a] by (simp add: take_bit_int_eq_self)
  finally show ?thesis by simp
qed

end
