(* ===== verification/Go_Strconv.thy ===== *)
theory Go_Strconv
  imports Prelude
begin

text \<open>
  Decimal conversion as the program uses it: \<^verbatim>\<open>strconv.FormatInt(v, 10)\<close>,
  \<^verbatim>\<open>strconv.ParseInt(s, 10, 64)\<close>, \<^verbatim>\<open>strconv.Atoi\<close> and
  \<^verbatim>\<open>strconv.ParseBool\<close>.  The digit loop stops at the first bad byte or at the
  first overflow, and on overflow the parser returns the clamped value together with the error,
  which matters where the source ignores the error.  The main fact is the round trip.
\<close>

section \<open>Digits\<close>

datatype num_error = ErrSyntax | ErrRange

definition digit_char :: "nat \<Rightarrow> char" where
  "digit_char d = char_of (48 + d)"

definition digit_val :: "char \<Rightarrow> nat option" where
  "digit_val c = (let n = of_char c :: nat in if 48 \<le> n \<and> n \<le> 57 then Some (n - 48) else None)"

lemma of_char_digit_char: "d < 10 \<Longrightarrow> (of_char (digit_char d) :: nat) = 48 + d"
  by (simp add: digit_char_def)

lemma digit_val_digit_char [simp]: "d < 10 \<Longrightarrow> digit_val (digit_char d) = Some d"
  by (simp add: digit_val_def of_char_digit_char)

lemma digit_val_None [simp]:
  "digit_val CHR ''-'' = None" "digit_val CHR ''+'' = None" "digit_val CHR '':'' = None"
  "digit_val CHR ''.'' = None"
  by (simp_all add: digit_val_def)

section \<open>Formatting\<close>

fun format_uint :: "nat \<Rightarrow> string" where
  "format_uint n =
     (if n < 10 then [digit_char n] else format_uint (n div 10) @ [digit_char (n mod 10)])"

declare format_uint.simps [simp del]

definition FormatInt :: "int64 \<Rightarrow> string" where
  "FormatInt v =
     (if sint v < 0 then CHR ''-'' # format_uint (nat (- sint v)) else format_uint (nat (sint v)))"

lemma format_uint_nonempty [simp]: "format_uint n \<noteq> []"
  by (subst format_uint.simps) simp

lemma format_uint_digits: "c \<in> set (format_uint n) \<Longrightarrow> digit_val c \<noteq> None"
proof (induction n rule: format_uint.induct)
  case (1 n)
  then show ?case
    by (auto simp: format_uint.simps [of n] split: if_splits)
qed

lemma FormatInt_nonempty [simp]: "FormatInt v \<noteq> []"
  by (simp add: FormatInt_def)

text \<open>A formatted integer holds digits and at most a minus sign, so none of the separators.\<close>

lemma FormatInt_chars: "c \<in> set (FormatInt v) \<Longrightarrow> digit_val c \<noteq> None \<or> c = CHR ''-''"
  by (auto simp: FormatInt_def split: if_splits dest: format_uint_digits)

lemma FormatInt_no_colon: "CHR '':'' \<notin> set (FormatInt v)"
  using FormatInt_chars [of "CHR '':''" v] by auto

section \<open>Parsing\<close>

definition uint64_cutoff :: nat where
  "uint64_cutoff = 1844674407370955162"

text \<open>The loop of \<^verbatim>\<open>ParseUint\<close> over the remaining bytes, with the value so far.\<close>

fun parse_uint_loop :: "nat \<Rightarrow> string \<Rightarrow> num_error + nat" where
  "parse_uint_loop n [] = Inr n"
| "parse_uint_loop n (c # cs) =
     (case digit_val c of
        None \<Rightarrow> Inl ErrSyntax
      | Some d \<Rightarrow>
          if n \<ge> uint64_cutoff \<or> 10 * n + d \<ge> 2 ^ 64 then Inl ErrRange
          else parse_uint_loop (10 * n + d) cs)"

definition parse_uint :: "string \<Rightarrow> num_error + nat" where
  "parse_uint s = (if s = [] then Inl ErrSyntax else parse_uint_loop 0 s)"

definition strip_sign :: "string \<Rightarrow> bool \<times> string" where
  "strip_sign s =
     (case s of
        [] \<Rightarrow> (False, [])
      | c # cs \<Rightarrow> if c = CHR ''+'' then (False, cs) else if c = CHR ''-'' then (True, cs) else (False, s))"

text \<open>\<^verbatim>\<open>ParseInt(s, 10, 64)\<close>: the value and the error, both returned.\<close>

definition ParseInt :: "string \<Rightarrow> int64 \<times> num_error option" where
  "ParseInt s =
     (if s = [] then (0, Some ErrSyntax)
      else case strip_sign s of (neg, ds) \<Rightarrow>
        (case parse_uint ds of
           Inl ErrSyntax \<Rightarrow> (0, Some ErrSyntax)
         | Inl ErrRange \<Rightarrow>
             (if neg then (- (2 ^ 63), Some ErrRange) else (2 ^ 63 - 1, Some ErrRange))
         | Inr un \<Rightarrow>
             if \<not> neg \<and> un \<ge> 2 ^ 63 then (2 ^ 63 - 1, Some ErrRange)
             else if neg \<and> un > 2 ^ 63 then (- (2 ^ 63), Some ErrRange)
             else (if neg then - word_of_int (int un) else word_of_int (int un), None)))"

section \<open>Round trip\<close>

lemma parse_uint_loop_app:
  "parse_uint_loop n (xs @ ys) =
     (case parse_uint_loop n xs of Inl e \<Rightarrow> Inl e | Inr m \<Rightarrow> parse_uint_loop m ys)"
  by (induction n xs rule: parse_uint_loop.induct) (auto split: option.splits)

lemma parse_uint_loop_format:
  "n < 2 ^ 64 \<Longrightarrow> parse_uint_loop 0 (format_uint n) = Inr n"
proof (induction n rule: format_uint.induct)
  case (1 n)
  show ?case
  proof (cases "n < 10")
    case True
    then show ?thesis by (simp add: format_uint.simps [of n] uint64_cutoff_def)
  next
    case False
    have "parse_uint_loop 0 (format_uint (n div 10)) = Inr (n div 10)"
      using "1.IH" False "1.prems" by simp
    moreover have "n div 10 < uint64_cutoff"
      using "1.prems" by (simp add: uint64_cutoff_def)
    ultimately show ?thesis
      using False "1.prems" by (simp add: format_uint.simps [of n] parse_uint_loop_app)
  qed
qed

lemma parse_uint_format: "n < 2 ^ 64 \<Longrightarrow> parse_uint (format_uint n) = Inr n"
  by (simp add: parse_uint_def parse_uint_loop_format)

lemma strip_sign_format_uint [simp]: "strip_sign (format_uint n) = (False, format_uint n)"
proof (cases "format_uint n")
  case Nil
  then show ?thesis by simp
next
  case (Cons c cs)
  have "digit_val c \<noteq> None"
    using format_uint_digits [of c n] Cons by simp
  then have "c \<noteq> CHR ''+''" "c \<noteq> CHR ''-''" by auto
  with Cons show ?thesis by (simp add: strip_sign_def)
qed

text \<open>Claim support: what \<^verbatim>\<open>FormatInt\<close> writes, \<^verbatim>\<open>ParseInt\<close> reads back.\<close>

lemma ParseInt_FormatInt [simp]: "ParseInt (FormatInt v) = (v, None)"
proof (cases "sint v < 0")
  case True
  let ?n = "nat (- sint v)"
  have le: "?n \<le> 2 ^ 63"
    using sint_int64_bounds [of v] by simp
  have "- (word_of_int (int ?n) :: int64) = v"
    using True by simp
  then show ?thesis
    using True le by (simp add: FormatInt_def ParseInt_def strip_sign_def parse_uint_format)
next
  case False
  let ?n = "nat (sint v)"
  have le: "?n < 2 ^ 63"
    using sint_int64_bounds [of v] by simp
  then have "?n < 2 ^ 64" by simp
  moreover have "(word_of_int (int ?n) :: int64) = v"
    using False by simp
  ultimately show ?thesis
    using False le by (simp add: FormatInt_def ParseInt_def parse_uint_format)
qed

lemma FormatInt_inj [simp]: "FormatInt a = FormatInt b \<longleftrightarrow> a = b"
  by (metis ParseInt_FormatInt prod.inject)

section \<open>Booleans\<close>

definition ParseBool :: "string \<Rightarrow> bool option" where
  "ParseBool s =
     (if s \<in> {''1'', ''t'', ''T'', ''TRUE'', ''true'', ''True''} then Some True
      else if s \<in> {''0'', ''f'', ''F'', ''FALSE'', ''false'', ''False''} then Some False
      else None)"

end
