(* ===== verification/Go_Encoding.thy ===== *)
theory Go_Encoding
  imports Prelude
begin

text \<open>
  The byte encodings the program relies on: \<^verbatim>\<open>base64.RawURLEncoding\<close> (session
  tokens), \<^verbatim>\<open>hex.EncodeToString\<close> (session ids) and the big-endian keys that
  \<^verbatim>\<open>itob\<close> in \<^verbatim>\<open>internal/database/boltdb.go\<close> builds for BoltDB.
  Decoding undoes encoding in each case, and the big-endian keys sort as the numbers do.
\<close>

section \<open>Base64, URL alphabet, no padding\<close>

definition b64_char :: "nat \<Rightarrow> char" where
  "b64_char n = char_of
     (if n < 26 then 65 + n else if n < 52 then 97 + (n - 26) else if n < 62 then 48 + (n - 52)
      else if n = 62 then 45 else (95 :: nat))"

definition b64_val :: "char \<Rightarrow> nat option" where
  "b64_val c = (let n = of_char c :: nat in
     if 65 \<le> n \<and> n \<le> 90 then Some (n - 65)
     else if 97 \<le> n \<and> n \<le> 122 then Some (n - 97 + 26)
     else if 48 \<le> n \<and> n \<le> 57 then Some (n - 48 + 52)
     else if n = 45 then Some 62
     else if n = 95 then Some 63
     else None)"

abbreviation byte_of :: "char \<Rightarrow> nat" where
  "byte_of c \<equiv> of_char c"

fun b64_encode :: "string \<Rightarrow> string" where
  "b64_encode [] = []"
| "b64_encode [a] = [b64_char (byte_of a div 4), b64_char (byte_of a mod 4 * 16)]"
| "b64_encode [a, b] =
     [b64_char (byte_of a div 4), b64_char (byte_of a mod 4 * 16 + byte_of b div 16),
      b64_char (byte_of b mod 16 * 4)]"
| "b64_encode (a # b # c # rest) =
     b64_char (byte_of a div 4) # b64_char (byte_of a mod 4 * 16 + byte_of b div 16)
     # b64_char (byte_of b mod 16 * 4 + byte_of c div 64) # b64_char (byte_of c mod 64)
     # b64_encode rest"

text \<open>
  Decoding skips carriage returns and line feeds, rejects any other byte outside the alphabet and
  a lone last digit, and, not being in strict mode, ignores the unused low bits of the last digit.
\<close>

fun b64_digits :: "nat list \<Rightarrow> string option" where
  "b64_digits [] = Some []"
| "b64_digits [x] = None"
| "b64_digits [x, y] = Some [char_of (x * 4 + y div 16)]"
| "b64_digits [x, y, z] = Some [char_of (x * 4 + y div 16), char_of (y mod 16 * 16 + z div 4)]"
| "b64_digits (x # y # z # w # rest) =
     map_option (\<lambda>bs. char_of (x * 4 + y div 16) # char_of (y mod 16 * 16 + z div 4)
                       # char_of (z mod 4 * 64 + w) # bs)
       (b64_digits rest)"

fun b64_values :: "string \<Rightarrow> nat list option" where
  "b64_values [] = Some []"
| "b64_values (c # cs) =
     (if c = CHR 0x0A \<or> c = CHR 0x0D then b64_values cs
      else case b64_val c of
             None \<Rightarrow> None
           | Some v \<Rightarrow> map_option (\<lambda>vs. v # vs) (b64_values cs))"

definition b64_decode :: "string \<Rightarrow> string option" where
  "b64_decode s = (case b64_values s of None \<Rightarrow> None | Some vs \<Rightarrow> b64_digits vs)"

lemma of_char_b64_char: "(of_char (b64_char n) :: nat) =
     (if n < 26 then 65 + n else if n < 52 then 97 + (n - 26) else if n < 62 then 48 + (n - 52)
      else if n = 62 then 45 else 95)"
  by (simp add: b64_char_def)

lemma b64_val_char [simp]: "n < 64 \<Longrightarrow> b64_val (b64_char n) = Some n"
  unfolding b64_val_def of_char_b64_char Let_def by auto

lemma b64_char_not_special [simp]:
  "b64_char n \<noteq> CHR 0x0A" "b64_char n \<noteq> CHR 0x0D" "b64_char n \<noteq> CHR ''.''"
  using of_char_b64_char [of n] by (auto split: if_splits)

lemma byte_bound: "byte_of c < 256"
  using of_char_mod_256 [of c] by (metis mod_less_divisor zero_less_numeral)

lemma byte_parts [simp]:
  "byte_of c div 4 < 64" "byte_of c mod 4 * 16 < 64" "byte_of c mod 16 * 4 < 64"
  "byte_of c div 16 < 16" "byte_of c div 64 < 4"
  "byte_of c div 16 div 16 = 0" "byte_of c div 64 div 4 = 0"
  "byte_of c div 16 mod 16 = byte_of c div 16" "byte_of c div 64 mod 4 = byte_of c div 64"
  using byte_bound [of c] by (simp_all add: less_mult_imp_div_less)

lemma byte_joins [simp]:
  "byte_of a mod 4 * 16 + byte_of b div 16 < 64" "byte_of a mod 16 * 4 + byte_of b div 64 < 64"
proof -
  have "byte_of a mod 4 < 4" "byte_of a mod 16 < 16" by simp_all
  then show "byte_of a mod 4 * 16 + byte_of b div 16 < 64"
    and "byte_of a mod 16 * 4 + byte_of b div 64 < 64"
    using byte_parts(4,5) [of b] by linarith+
qed

lemma b64_encode_no_dot: "CHR ''.'' \<notin> set (b64_encode bs)"
  by (induction bs rule: b64_encode.induct) (auto simp: eq_commute [of "CHR ''.''"])

text \<open>Decoding undoes encoding.\<close>

lemma b64_roundtrip [simp]: "b64_decode (b64_encode bs) = Some bs"
  by (induction bs rule: b64_encode.induct) (auto simp: b64_decode_def split: option.splits)

lemma b64_encode_inj [simp]: "b64_encode xs = b64_encode ys \<longleftrightarrow> xs = ys"
  by (metis b64_roundtrip option.inject)

section \<open>Hexadecimal\<close>

definition hex_digit :: "nat \<Rightarrow> char" where
  "hex_digit n = (let d = n mod 16 in char_of (if d < 10 then 48 + d else 87 + d))"

definition hex_encode :: "string \<Rightarrow> string" where
  "hex_encode bs = concat (map (\<lambda>b. [hex_digit (byte_of b div 16), hex_digit (byte_of b)]) bs)"

lemma length_hex_encode [simp]: "length (hex_encode bs) = 2 * length bs"
  by (induction bs) (simp_all add: hex_encode_def)

lemma hex_digit_eq: "hex_digit m = hex_digit n \<longleftrightarrow> m mod 16 = n mod 16"
proof
  have v: "(of_char (hex_digit k) :: nat) = (if k mod 16 < 10 then 48 + k mod 16 else 87 + k mod 16)"
    for k by (auto simp: hex_digit_def Let_def)
  assume "hex_digit m = hex_digit n"
  then show "m mod 16 = n mod 16" using v [of m] v [of n] by (auto split: if_splits)
qed (simp add: hex_digit_def)

lemma byte_eq_iff: "byte_of x div 16 = byte_of y div 16 \<and> byte_of x mod 16 = byte_of y mod 16 \<longleftrightarrow> x = y"
  by (metis div_mult_mod_eq of_char_eq_iff)

lemma hex_encode_inj: "hex_encode xs = hex_encode ys \<longleftrightarrow> xs = ys"
proof (induction xs arbitrary: ys)
  case Nil
  then show ?case by (cases ys) (simp_all add: hex_encode_def)
next
  case (Cons x xs)
  show ?case
  proof (cases ys)
    case Nil
    then show ?thesis by (simp add: hex_encode_def)
  next
    case (Cons y ys')
    then show ?thesis
      using Cons.IH [of ys'] byte_eq_iff [of x y] by (auto simp: hex_encode_def hex_digit_eq)
  qed
qed

section \<open>Big-endian keys\<close>

text \<open>The low \<open>k\<close> bytes of a number, most significant first.\<close>

fun be_bytes :: "nat \<Rightarrow> nat \<Rightarrow> string" where
  "be_bytes 0 n = []"
| "be_bytes (Suc k) n = be_bytes k (n div 256) @ [char_of (n mod 256)]"

text \<open>\<^verbatim>\<open>itob\<close>: eight bytes of \<^verbatim>\<open>uint64(v)\<close>.\<close>

definition itob :: "int64 \<Rightarrow> string" where
  "itob v = be_bytes 8 (unat v)"

definition be_value :: "string \<Rightarrow> nat" where
  "be_value bs = foldl (\<lambda>n b. n * 256 + byte_of b) 0 bs"

lemma length_be_bytes [simp]: "length (be_bytes k n) = k"
  by (induction k arbitrary: n) simp_all

lemma be_value_be_bytes: "n < 256 ^ k \<Longrightarrow> be_value (be_bytes k n) = n"
proof (induction k arbitrary: n)
  case (Suc k)
  from Suc.prems have "n div 256 < 256 ^ k" by (simp add: less_mult_imp_div_less mult.commute)
  then show ?case using Suc.IH by (simp add: be_value_def)
qed (simp add: be_value_def)

lemma be_value_itob [simp]: "be_value (itob v) = unat v"
  unfolding itob_def by (rule be_value_be_bytes) (use unsigned_less [of v] in simp)

lemma itob_inj [simp]: "itob a = itob b \<longleftrightarrow> a = b"
  by (metis be_value_itob word_unat_eq_iff)

text \<open>The byte order of BoltDB keys, \<^verbatim>\<open>bytes.Compare(a, b) < 0\<close>.\<close>

fun bytes_less :: "string \<Rightarrow> string \<Rightarrow> bool" where
  "bytes_less [] ys = (ys \<noteq> [])"
| "bytes_less (x # xs) [] = False"
| "bytes_less (x # xs) (y # ys) =
     (byte_of x < byte_of y \<or> (byte_of x = byte_of y \<and> bytes_less xs ys))"

lemma bytes_less_snoc:
  "length xs = length ys \<Longrightarrow>
   bytes_less (xs @ [x]) (ys @ [y]) \<longleftrightarrow> bytes_less xs ys \<or> (xs = ys \<and> byte_of x < byte_of y)"
  by (induction xs ys rule: list_induct2) auto

lemma be_bytes_eq_iff: "m < 256 ^ k \<Longrightarrow> n < 256 ^ k \<Longrightarrow> be_bytes k m = be_bytes k n \<longleftrightarrow> m = n"
  by (metis be_value_be_bytes)

lemma less_iff_div_mod:
  "(m :: nat) < n \<longleftrightarrow> m div k < n div k \<or> (m div k = n div k \<and> m mod k < n mod k)"
proof -
  have "m div k < n div k \<Longrightarrow> m < n" using div_le_mono not_le by blast
  moreover have "m < n \<Longrightarrow> m div k \<le> n div k" by (simp add: div_le_mono)
  moreover have "m div k = n div k \<Longrightarrow> m < n \<longleftrightarrow> m mod k < n mod k"
    by (metis add_less_cancel_left div_mult_mod_eq)
  ultimately show ?thesis by linarith
qed

lemma bytes_less_be_bytes:
  "m < 256 ^ k \<Longrightarrow> n < 256 ^ k \<Longrightarrow> bytes_less (be_bytes k m) (be_bytes k n) \<longleftrightarrow> m < n"
proof (induction k arbitrary: m n)
  case (Suc k)
  have m: "m div 256 < 256 ^ k" and n: "n div 256 < 256 ^ k"
    using Suc.prems by (simp_all add: less_mult_imp_div_less mult.commute)
  show ?case
    using Suc.IH [OF m n] be_bytes_eq_iff [OF m n] less_iff_div_mod [of m n 256]
    by (simp add: bytes_less_snoc)
qed simp

text \<open>Keys of non-negative ids sort as the ids do.\<close>

lemma bytes_less_itob:
  "0 \<le> sint a \<Longrightarrow> 0 \<le> sint b \<Longrightarrow> bytes_less (itob a) (itob b) \<longleftrightarrow> sint a < sint b"
proof -
  assume "0 \<le> sint a" "0 \<le> sint b"
  then have "sint a = int (unat a)" "sint b = int (unat b)"
    by (simp_all add: sint_nonneg_unat)
  moreover have "bytes_less (itob a) (itob b) \<longleftrightarrow> unat a < unat b"
    unfolding itob_def by (rule bytes_less_be_bytes) (use unsigned_less [of a] unsigned_less [of b] in simp_all)
  ultimately show ?thesis by linarith
qed

end
