(* ===== verification/Go_Strings.thy ===== *)
theory Go_Strings
  imports Go_Encoding "HOL-Library.Sublist"
begin

text \<open>
  The functions of Go's \<^verbatim>\<open>strings\<close> package that the program calls, on byte strings:
  \<^verbatim>\<open>TrimSpace\<close> (Unicode white space, given by its UTF-8 encodings),
  \<^verbatim>\<open>Split\<close> on a one-byte separator, \<^verbatim>\<open>Contains\<close>,
  \<^verbatim>\<open>HasPrefix\<close>, and the quoting verb \<^verbatim>\<open>%q\<close> of
  \<^verbatim>\<open>fmt\<close> that the error messages use.
\<close>

section \<open>TrimSpace\<close>

definition bytes :: "nat list \<Rightarrow> string" where
  "bytes ns = map char_of ns"

text \<open>The UTF-8 encodings of the code points for which \<^verbatim>\<open>unicode.IsSpace\<close> holds.\<close>

definition white_space :: "string list" where
  "white_space = map bytes
     [[9], [10], [11], [12], [13], [32],
      [0xC2, 0x85], [0xC2, 0xA0], [0xE1, 0x9A, 0x80],
      [0xE2, 0x80, 0x80], [0xE2, 0x80, 0x81], [0xE2, 0x80, 0x82], [0xE2, 0x80, 0x83],
      [0xE2, 0x80, 0x84], [0xE2, 0x80, 0x85], [0xE2, 0x80, 0x86], [0xE2, 0x80, 0x87],
      [0xE2, 0x80, 0x88], [0xE2, 0x80, 0x89], [0xE2, 0x80, 0x8A],
      [0xE2, 0x80, 0xA8], [0xE2, 0x80, 0xA9], [0xE2, 0x80, 0xAF], [0xE2, 0x81, 0x9F],
      [0xE3, 0x80, 0x80]]"

text \<open>Drop members of \<open>ws\<close> from the front for as long as there is one.\<close>

function strip_front :: "string list \<Rightarrow> string \<Rightarrow> string" where
  "strip_front ws s =
     (case find (\<lambda>e. e \<noteq> [] \<and> prefix e s) ws of
        None \<Rightarrow> s
      | Some e \<Rightarrow> strip_front ws (drop (length e) s))"
  by pat_completeness auto
termination
  by (relation "measure (\<lambda>(ws, s). length s)")
    (auto simp: find_Some_iff prefix_def)

declare strip_front.simps [simp del]

definition trim_left :: "string \<Rightarrow> string" where
  "trim_left s = strip_front white_space s"

definition trim_right :: "string \<Rightarrow> string" where
  "trim_right s = rev (strip_front (map rev white_space) (rev s))"

definition TrimSpace :: "string \<Rightarrow> string" where
  "TrimSpace s = trim_right (trim_left s)"

text \<open>For evaluation on literals.\<close>

lemma white_space_literal [code]: "white_space = 
     [[CHR 0x09], [CHR 0x0A], [CHR 0x0B], [CHR 0x0C], [CHR 0x0D], [CHR 0x20],
      [CHR 0xC2, CHR 0x85], [CHR 0xC2, CHR 0xA0], [CHR 0xE1, CHR 0x9A, CHR 0x80],
      [CHR 0xE2, CHR 0x80, CHR 0x80], [CHR 0xE2, CHR 0x80, CHR 0x81], [CHR 0xE2, CHR 0x80, CHR 0x82],
      [CHR 0xE2, CHR 0x80, CHR 0x83], [CHR 0xE2, CHR 0x80, CHR 0x84], [CHR 0xE2, CHR 0x80, CHR 0x85],
      [CHR 0xE2, CHR 0x80, CHR 0x86], [CHR 0xE2, CHR 0x80, CHR 0x87], [CHR 0xE2, CHR 0x80, CHR 0x88],
      [CHR 0xE2, CHR 0x80, CHR 0x89], [CHR 0xE2, CHR 0x80, CHR 0x8A], [CHR 0xE2, CHR 0x80, CHR 0xA8],
      [CHR 0xE2, CHR 0x80, CHR 0xA9], [CHR 0xE2, CHR 0x80, CHR 0xAF], [CHR 0xE2, CHR 0x81, CHR 0x9F],
      [CHR 0xE3, CHR 0x80, CHR 0x80]]"
  by (simp add: white_space_def bytes_def char_of_def bit_Suc_0_iff)
lemmas trim_eval = TrimSpace_def trim_left_def trim_right_def white_space_literal strip_front.simps
definition starts_with :: "string list \<Rightarrow> string \<Rightarrow> bool" where
  "starts_with ws s \<longleftrightarrow> (\<exists>e \<in> set ws. e \<noteq> [] \<and> prefix e s)"

lemma strip_front_id_iff: "\<not> starts_with ws s \<Longrightarrow> strip_front ws s = s"
  by (subst strip_front.simps)
    (auto simp: starts_with_def find_None_iff find_Some_iff split: option.splits)

lemma strip_front_result: "\<not> starts_with ws (strip_front ws s)"
proof (induction ws s rule: strip_front.induct)
  case (1 ws s)
  show ?case
  proof (cases "find (\<lambda>e. e \<noteq> [] \<and> prefix e s) ws")
    case None
    then have "\<not> starts_with ws s"
      by (auto simp: starts_with_def find_None_iff)
    then show ?thesis by (simp add: strip_front_id_iff)
  next
    case (Some e)
    then show ?thesis using "1.IH" by (subst strip_front.simps) simp
  qed
qed

lemma strip_front_suffix: "suffix (strip_front ws s) s"
proof (induction ws s rule: strip_front.induct)
  case (1 ws s)
  show ?case
  proof (cases "find (\<lambda>e. e \<noteq> [] \<and> prefix e s) ws")
    case None
    then show ?thesis by (subst strip_front.simps) simp
  next
    case (Some e)
    then have "suffix (strip_front ws (drop (length e) s)) s"
      using "1.IH" suffix_drop suffix_order.trans by blast
    then show ?thesis using Some by (subst strip_front.simps) simp
  qed
qed

lemma trim_right_prefix: "prefix (trim_right s) s"
  using strip_front_suffix [of "map rev white_space" "rev s"]
  by (simp add: trim_right_def suffix_to_prefix)

lemma starts_with_prefix_mono: "prefix t s \<Longrightarrow> starts_with ws t \<Longrightarrow> starts_with ws s"
  unfolding starts_with_def using prefix_order.trans by blast

text \<open>The result neither starts nor ends with white space, so trimming again changes nothing.\<close>

lemma TrimSpace_no_leading: "\<not> starts_with white_space (TrimSpace s)"
proof -
  have "\<not> starts_with white_space (trim_left s)"
    by (simp add: trim_left_def strip_front_result)
  then show ?thesis
    unfolding TrimSpace_def using starts_with_prefix_mono [OF trim_right_prefix] by blast
qed

lemma TrimSpace_no_trailing: "\<not> starts_with (map rev white_space) (rev (TrimSpace s))"
  by (simp add: TrimSpace_def trim_right_def strip_front_result)

lemma TrimSpace_id:
  "\<not> starts_with white_space s \<Longrightarrow> \<not> starts_with (map rev white_space) (rev s) \<Longrightarrow> TrimSpace s = s"
  by (simp add: TrimSpace_def trim_left_def trim_right_def strip_front_id_iff)

lemma TrimSpace_idem [simp]: "TrimSpace (TrimSpace s) = TrimSpace s"
  by (rule TrimSpace_id [OF TrimSpace_no_leading TrimSpace_no_trailing])

lemma TrimSpace_Nil [simp]: "TrimSpace [] = []"
  by (rule TrimSpace_id) (simp_all add: starts_with_def)

section \<open>Quoting (\<^verbatim>\<open>strconv.Quote\<close>, the verb \<^verbatim>\<open>%q\<close>)\<close>

definition is_cont :: "nat \<Rightarrow> bool" where
  "is_cont b \<longleftrightarrow> 0x80 \<le> b \<and> b \<le> 0xBF"

definition rune_error :: "nat \<times> nat" where
  "rune_error = (0xFFFD, 1)"

text \<open>The first code point of a byte sequence and its width; \<^verbatim>\<open>(RuneError, 1)\<close> where
  the bytes are not UTF-8.\<close>

fun decode_rune :: "nat list \<Rightarrow> nat \<times> nat" where
  "decode_rune [] = (0xFFFD, 0)"
| "decode_rune (b0 # rest) =
     (if b0 < 0x80 then (b0, 1)
      else if 0xC2 \<le> b0 \<and> b0 \<le> 0xDF then
        (case rest of
           b1 # _ \<Rightarrow> if is_cont b1 then (b0 mod 32 * 64 + b1 mod 64, 2) else rune_error
         | [] \<Rightarrow> rune_error)
      else if 0xE0 \<le> b0 \<and> b0 \<le> 0xEF then
        (case rest of
           b1 # b2 # _ \<Rightarrow>
             if (if b0 = 0xE0 then 0xA0 \<le> b1 \<and> b1 \<le> 0xBF
                 else if b0 = 0xED then 0x80 \<le> b1 \<and> b1 \<le> 0x9F else is_cont b1) \<and> is_cont b2
             then (b0 mod 16 * 4096 + b1 mod 64 * 64 + b2 mod 64, 3) else rune_error
         | _ \<Rightarrow> rune_error)
      else if 0xF0 \<le> b0 \<and> b0 \<le> 0xF4 then
        (case rest of
           b1 # b2 # b3 # _ \<Rightarrow>
             if (if b0 = 0xF0 then 0x90 \<le> b1 \<and> b1 \<le> 0xBF
                 else if b0 = 0xF4 then 0x80 \<le> b1 \<and> b1 \<le> 0x8F else is_cont b1)
                \<and> is_cont b2 \<and> is_cont b3
             then (b0 mod 8 * 262144 + b1 mod 64 * 4096 + b2 mod 64 * 64 + b3 mod 64, 4)
             else rune_error
         | _ \<Rightarrow> rune_error)
      else rune_error)"

lemma decode_rune_width: "bs \<noteq> [] \<Longrightarrow> 0 < snd (decode_rune bs)"
  by (cases bs) (auto simp: rune_error_def split: list.splits)

lemma decode_rune_drop:
  "s \<noteq> [] \<Longrightarrow> (r, w) = decode_rune (map of_char s) \<Longrightarrow> 0 < w"
  using decode_rune_width [of "map of_char s"] by (simp add: prod_eq_iff)

fun hex_fixed :: "nat \<Rightarrow> nat \<Rightarrow> string" where
  "hex_fixed 0 n = []"
| "hex_fixed (Suc k) n = hex_fixed k (n div 16) @ [hex_digit n]"

text \<open>
  How one code point is written.  \<open>is_print\<close> stands for the Unicode table of
  \<^verbatim>\<open>strconv.IsPrint\<close> above ASCII, \<open>raw\<close> is the point's own encoding.
\<close>

definition quote_rune :: "(nat \<Rightarrow> bool) \<Rightarrow> nat \<Rightarrow> string \<Rightarrow> string" where
  "quote_rune is_print r raw =
     (if r = 34 \<or> r = 92 then CHR 0x5C # raw
      else if (if r < 0x80 then 0x20 \<le> r \<and> r \<le> 0x7E else is_print r) then raw
      else if r = 7 then [CHR 0x5C, CHR ''a'']
      else if r = 8 then [CHR 0x5C, CHR ''b'']
      else if r = 12 then [CHR 0x5C, CHR ''f'']
      else if r = 10 then [CHR 0x5C, CHR ''n'']
      else if r = 13 then [CHR 0x5C, CHR ''r'']
      else if r = 9 then [CHR 0x5C, CHR ''t'']
      else if r = 11 then [CHR 0x5C, CHR ''v'']
      else if r < 0x20 \<or> r = 0x7F then [CHR 0x5C, CHR ''x''] @ hex_fixed 2 r
      else if r < 0x10000 then [CHR 0x5C, CHR ''u''] @ hex_fixed 4 r
      else [CHR 0x5C, CHR ''U''] @ hex_fixed 8 r)"

function quote_body :: "(nat \<Rightarrow> bool) \<Rightarrow> string \<Rightarrow> string" where
  "quote_body is_print s =
     (if s = [] then []
      else case decode_rune (map of_char s) of (r, width) \<Rightarrow>
        (if width = 1 \<and> r = 0xFFFD then [CHR 0x5C, CHR ''x''] @ hex_fixed 2 (of_char (hd s))
         else quote_rune is_print r (take width s))
        @ quote_body is_print (drop width s))"
  by pat_completeness auto
termination
  by (relation "measure (\<lambda>(p, s). length s)") (auto intro!: diff_less intro: decode_rune_drop)

declare quote_body.simps [simp del]

definition quote :: "(nat \<Rightarrow> bool) \<Rightarrow> string \<Rightarrow> string" where
  "quote is_print s = CHR 0x22 # quote_body is_print s @ [CHR 0x22]"

section \<open>Split, Contains, HasPrefix\<close>

fun Split :: "char \<Rightarrow> string \<Rightarrow> string list" where
  "Split c [] = [[]]"
| "Split c (x # xs) =
     (if x = c then [] # Split c xs
      else case Split c xs of [] \<Rightarrow> [[x]] | p # ps \<Rightarrow> (x # p) # ps)"

lemma Split_not_mem: "c \<notin> set s \<Longrightarrow> Split c s = [s]"
  by (induction s) auto

lemma Split_append: "c \<notin> set s \<Longrightarrow> Split c (s @ c # t) = s # Split c t"
  by (induction s) auto

lemma Split_two: "c \<notin> set s \<Longrightarrow> c \<notin> set t \<Longrightarrow> Split c (s @ c # t) = [s, t]"
  by (simp add: Split_append Split_not_mem)

lemma Split_nonempty [simp]: "Split c s \<noteq> []"
  by (induction s) (auto split: list.splits)

lemma Split_one: "Split c s = [a] \<Longrightarrow> s = a \<and> c \<notin> set a"
proof (induction s arbitrary: a)
  case (Cons x xs)
  then obtain p where "x \<noteq> c" "Split c xs = [p]" "a = x # p"
    by (cases "Split c xs") (auto split: if_splits)
  with Cons.IH show ?case by fastforce
qed simp

lemma Split_eq_two: "Split c s = [a, b] \<Longrightarrow> s = a @ c # b \<and> c \<notin> set a \<and> c \<notin> set b"
proof (induction s arbitrary: a)
  case (Cons x xs)
  show ?case
  proof (cases "x = c")
    case True
    with Cons.prems have "a = []" "Split c xs = [b]" by simp_all
    with Split_one True show ?thesis by fastforce
  next
    case False
    with Cons.prems obtain p where "Split c xs = [p, b]" "a = x # p"
      by (cases "Split c xs") auto
    with Cons.IH False show ?thesis by fastforce
  qed
qed simp

definition HasPrefix :: "string \<Rightarrow> string \<Rightarrow> bool" where
  "HasPrefix s p = prefix p s"

definition Contains_char :: "string \<Rightarrow> char \<Rightarrow> bool" where
  "Contains_char s c = (c \<in> set s)"

end
