(* ===== verification/Domain.thy ===== *)
theory Domain
  imports Go_Strconv Go_Strings Go_Encoding
begin

text \<open>
  \<^verbatim>\<open>internal/domain\<close>: the entities, the typed errors with their texts, and the
  four error types that callers look for in a chain of wrapped errors.  Errors are values of one
  datatype: the four typed errors of \<^verbatim>\<open>errors.go\<close>, \<^verbatim>\<open>errors.New\<close> and
  \<^verbatim>\<open>fmt.Errorf\<close> without and with \<^verbatim>\<open>%w\<close>, and the errors the
  libraries return.  A message that a \<^verbatim>\<open>%q\<close> verb formats keeps its argument until
  the text is rendered, because rendering needs the Unicode table of
  \<^verbatim>\<open>strconv.IsPrint\<close>.
\<close>

section \<open>Errors\<close>

datatype message =
    Text string
  | Quoted string string string \<comment> \<open>\<^verbatim>\<open>Sprintf(before + "%q" + after, arg)\<close>: before, arg, after\<close>

fun render :: "(nat \<Rightarrow> bool) \<Rightarrow> message \<Rightarrow> string" where
  "render is_print (Text s) = s"
| "render is_print (Quoted before arg after) = before @ quote is_print arg @ after"

datatype go_error =
    NotFoundError string string
  | ValidationError string message
  | ConflictError string message
  | UnauthorizedError string
  | ErrorString message \<comment> \<open>\<^verbatim>\<open>errors.New\<close>, \<^verbatim>\<open>fmt.Errorf\<close> without \<^verbatim>\<open>%w\<close>\<close>
  | WrapError string go_error \<comment> \<open>\<^verbatim>\<open>fmt.Errorf("<text>: %w", err)\<close>\<close>
  | ErrNoRows \<comment> \<open>\<^verbatim>\<open>sql.ErrNoRows\<close>\<close>
  | RedisNil \<comment> \<open>\<^verbatim>\<open>redis.Nil\<close>\<close>
  | NumError num_error string \<comment> \<open>\<^verbatim>\<open>*strconv.NumError\<close> and its input\<close>
  | LibError string \<comment> \<open>any other error a library returns, with its text\<close>

definition NewNotFoundError :: "string \<Rightarrow> string \<Rightarrow> go_error" where
  "NewNotFoundError entity key = NotFoundError entity key"

definition NewValidationError :: "string \<Rightarrow> message \<Rightarrow> go_error" where
  "NewValidationError field msg = ValidationError field msg"

definition NewConflictError :: "string \<Rightarrow> message \<Rightarrow> go_error" where
  "NewConflictError entity msg = ConflictError entity msg"

definition NewUnauthorizedError :: "string \<Rightarrow> go_error" where
  "NewUnauthorizedError msg = UnauthorizedError msg"

lemmas error_constructors [simp] =
  NewNotFoundError_def NewValidationError_def NewConflictError_def NewUnauthorizedError_def

text \<open>The dash of the messages, U+2014 between two spaces, in UTF-8.\<close>

definition dash :: string where
  "dash = bytes [0x20, 0xE2, 0x80, 0x94, 0x20]"

definition num_error_text :: "num_error \<Rightarrow> string" where
  "num_error_text e = (case e of ErrSyntax \<Rightarrow> ''invalid syntax'' | ErrRange \<Rightarrow> ''value out of range'')"

text \<open>The method \<^verbatim>\<open>Error()\<close> of each error type.\<close>

fun error_text :: "(nat \<Rightarrow> bool) \<Rightarrow> go_error \<Rightarrow> string" where
  "error_text is_print (NotFoundError entity key) = entity @ '' '' @ quote is_print key @ '' not found''"
| "error_text is_print (ValidationError field msg) = ''validation: '' @ field @ dash @ render is_print msg"
| "error_text is_print (ConflictError entity msg) = ''conflict: '' @ entity @ dash @ render is_print msg"
| "error_text is_print (UnauthorizedError msg) = msg"
| "error_text is_print (ErrorString msg) = render is_print msg"
| "error_text is_print (WrapError text err) = text @ '': '' @ error_text is_print err"
| "error_text is_print ErrNoRows = ''sql: no rows in result set''"
| "error_text is_print RedisNil = ''redis: nil''"
| "error_text is_print (NumError e input) =
     ''strconv.ParseInt: parsing '' @ quote is_print input @ '': '' @ num_error_text e"
| "error_text is_print (LibError text) = text"

text \<open>\<^verbatim>\<open>errors.AsType[T](err)\<close> for the four typed errors: the first error of that type in
  the chain of wrapped errors.\<close>

fun as_NotFound :: "go_error \<Rightarrow> go_error option" where
  "as_NotFound (NotFoundError e k) = Some (NotFoundError e k)"
| "as_NotFound (WrapError t err) = as_NotFound err"
| "as_NotFound _ = None"

fun as_Validation :: "go_error \<Rightarrow> go_error option" where
  "as_Validation (ValidationError f m) = Some (ValidationError f m)"
| "as_Validation (WrapError t err) = as_Validation err"
| "as_Validation _ = None"

fun as_Conflict :: "go_error \<Rightarrow> go_error option" where
  "as_Conflict (ConflictError e m) = Some (ConflictError e m)"
| "as_Conflict (WrapError t err) = as_Conflict err"
| "as_Conflict _ = None"

fun as_Unauthorized :: "go_error \<Rightarrow> go_error option" where
  "as_Unauthorized (UnauthorizedError m) = Some (UnauthorizedError m)"
| "as_Unauthorized (WrapError t err) = as_Unauthorized err"
| "as_Unauthorized _ = None"

text \<open>An error chain ends in one error, which has at most one of the four types.\<close>

fun root_cause :: "go_error \<Rightarrow> go_error" where
  "root_cause (WrapError t err) = root_cause err"
| "root_cause err = err"

section \<open>Entities\<close>

text \<open>\<^verbatim>\<open>time.Time{}\<close>, the first of January of year 1, in nanoseconds since the epoch.\<close>

definition zero_time :: gotime where
  "zero_time = - 62135596800 * nanos_per_second"

record user =
  uID :: int64
  uEmail :: string
  uName :: string
  uPassword :: string
  uCreatedAt :: gotime
  uUpdatedAt :: gotime

type_synonym task_status = string

definition TaskStatusTodo :: task_status where
  "TaskStatusTodo = ''todo''"

definition TaskStatusInProgress :: task_status where
  "TaskStatusInProgress = ''in_progress''"

definition TaskStatusDone :: task_status where
  "TaskStatusDone = ''done''"

lemmas task_status_defs = TaskStatusTodo_def TaskStatusInProgress_def TaskStatusDone_def

lemma task_status_distinct [simp]:
  "TaskStatusTodo \<noteq> TaskStatusInProgress" "TaskStatusInProgress \<noteq> TaskStatusTodo"
  "TaskStatusTodo \<noteq> TaskStatusDone" "TaskStatusDone \<noteq> TaskStatusTodo"
  "TaskStatusInProgress \<noteq> TaskStatusDone" "TaskStatusDone \<noteq> TaskStatusInProgress"
  "TaskStatusTodo \<noteq> []" "TaskStatusInProgress \<noteq> []" "TaskStatusDone \<noteq> []"
  by (simp_all add: task_status_defs)

record task =
  tID :: int64
  tUserID :: int64
  tTitle :: string
  tDescription :: string
  tStatus :: task_status
  tCreatedAt :: gotime
  tUpdatedAt :: gotime

record account =
  aID :: int64
  aUserID :: int64
  aCurrency :: string
  aBalance :: int64
  aCreatedAt :: gotime
  aUpdatedAt :: gotime

record transfer =
  trID :: int64
  trSenderAccountID :: int64
  trReceiverAccountID :: int64
  trAmount :: int64
  trCurrency :: string
  trDescription :: string
  trCreatedAt :: gotime

record create_transfer_request =
  rqReceiverAccountID :: int64
  rqAmount :: int64
  rqCurrency :: string
  rqDescription :: string

record audit_record =
  arTimestamp :: gotime
  arMethod :: string
  arPath :: string
  arRemote :: string
  arStatus :: int64

section \<open>Repository interfaces\<close>

text \<open>
  The Go interfaces as records of operations on a store of type \<open>'s\<close>.  \<open>'c\<close> is the
  request context the operation is given (it may carry a transaction).  An operation that fills in
  fields of the entity it is passed by pointer returns the filled entity.
\<close>

record ('c, 's) user_repository =
  userCreate :: "'c \<Rightarrow> user \<Rightarrow> 's \<Rightarrow> 's \<times> (go_error + user)"
  userGetByID :: "'c \<Rightarrow> int64 \<Rightarrow> 's \<Rightarrow> 's \<times> (go_error + user)"
  userGetByEmail :: "'c \<Rightarrow> string \<Rightarrow> 's \<Rightarrow> 's \<times> (go_error + user)"
  userUpdate :: "'c \<Rightarrow> user \<Rightarrow> 's \<Rightarrow> 's \<times> (go_error + user)"
  userDelete :: "'c \<Rightarrow> int64 \<Rightarrow> 's \<Rightarrow> 's \<times> (go_error + unit)"

record ('c, 's) task_repository =
  taskCreate :: "'c \<Rightarrow> task \<Rightarrow> 's \<Rightarrow> 's \<times> (go_error + task)"
  taskGetByID :: "'c \<Rightarrow> int64 \<Rightarrow> 's \<Rightarrow> 's \<times> (go_error + task)"
  taskListByUser :: "'c \<Rightarrow> int64 \<Rightarrow> 's \<Rightarrow> 's \<times> (go_error + task list)"
  taskUpdate :: "'c \<Rightarrow> task \<Rightarrow> 's \<Rightarrow> 's \<times> (go_error + task)"
  taskDelete :: "'c \<Rightarrow> int64 \<Rightarrow> 's \<Rightarrow> 's \<times> (go_error + unit)"

record ('c, 's) account_repository =
  accountCreate :: "'c \<Rightarrow> account \<Rightarrow> 's \<Rightarrow> 's \<times> (go_error + account)"
  accountGetByID :: "'c \<Rightarrow> int64 \<Rightarrow> 's \<Rightarrow> 's \<times> (go_error + account)"
  accountGetByUserID :: "'c \<Rightarrow> int64 \<Rightarrow> 's \<Rightarrow> 's \<times> (go_error + account list)"
  accountUpdateBalance :: "'c \<Rightarrow> int64 \<Rightarrow> int64 \<Rightarrow> 's \<Rightarrow> 's \<times> (go_error + unit)"

record ('c, 's) transfer_repository =
  transferCreate :: "'c \<Rightarrow> transfer \<Rightarrow> 's \<Rightarrow> 's \<times> (go_error + transfer)"
  transferGetByAccountID :: "'c \<Rightarrow> int64 \<Rightarrow> 's \<Rightarrow> 's \<times> (go_error + transfer list)"

end
