(* ===== verification/Log_Fanout.thy ===== *)
theory Log_Fanout
  imports Domain
begin

text \<open>
  \<^verbatim>\<open>internal/logging/fanout.go\<close>.  A \<^verbatim>\<open>slog.Handler\<close> is a value of any
  type \<open>'h\<close> with the four operations of the interface; what a handler writes is a state \<open>'s\<close> that all of them
  share.  A \<^verbatim>\<open>FanoutHandler\<close> is the list of its handlers, and implements the interface again.
\<close>

record ('h, 'a, 'l, 'rec, 's) slog_handler =
  slEnabled :: "'h \<Rightarrow> 'l \<Rightarrow> bool"
  slHandle :: "'h \<Rightarrow> 'rec \<Rightarrow> 's \<Rightarrow> 's \<times> (go_error + unit)"
  slWithAttrs :: "'h \<Rightarrow> 'a list \<Rightarrow> 'h"
  slWithGroup :: "'h \<Rightarrow> string \<Rightarrow> 'h"

definition NewFanoutHandler :: "'h list \<Rightarrow> 'h list" where
  "NewFanoutHandler handlers = handlers"

fun fanout_Enabled :: "('h, 'a, 'l, 'rec, 's) slog_handler \<Rightarrow> 'h list \<Rightarrow> 'l \<Rightarrow> bool" where
  "fanout_Enabled H [] level = False"
| "fanout_Enabled H (h # hs) level = (if slEnabled H h level then True else fanout_Enabled H hs level)"

fun fanout_Handle :: "('rec \<Rightarrow> 'l) \<Rightarrow> ('h, 'a, 'l, 'rec, 's) slog_handler \<Rightarrow> 'h list \<Rightarrow> 'rec \<Rightarrow> 's
    \<Rightarrow> 's \<times> (go_error + unit)" where
  "fanout_Handle level_of H [] r s = (s, Inr ())"
| "fanout_Handle level_of H (h # hs) r s =
     (if slEnabled H h (level_of r)
      then case slHandle H h r s of
             (s, Inl err) \<Rightarrow> (s, Inl err)
           | (s, Inr _) \<Rightarrow> fanout_Handle level_of H hs r s
      else fanout_Handle level_of H hs r s)"

definition fanout_WithAttrs :: "('h, 'a, 'l, 'rec, 's) slog_handler \<Rightarrow> 'h list \<Rightarrow> 'a list \<Rightarrow> 'h list" where
  "fanout_WithAttrs H hs attrs = map (\<lambda>h. slWithAttrs H h attrs) hs"

definition fanout_WithGroup :: "('h, 'a, 'l, 'rec, 's) slog_handler \<Rightarrow> 'h list \<Rightarrow> string \<Rightarrow> 'h list" where
  "fanout_WithGroup H hs name = map (\<lambda>h. slWithGroup H h name) hs"

definition fanout :: "('rec \<Rightarrow> 'l) \<Rightarrow> ('h, 'a, 'l, 'rec, 's) slog_handler \<Rightarrow> ('h list, 'a, 'l, 'rec, 's) slog_handler" where
  "fanout level_of H =
     \<lparr>slEnabled = fanout_Enabled H, slHandle = fanout_Handle level_of H,
      slWithAttrs = fanout_WithAttrs H, slWithGroup = fanout_WithGroup H\<rparr>"

section \<open>Who gets a record\<close>

lemma fanout_Enabled_iff: "fanout_Enabled H hs l \<longleftrightarrow> (\<exists>h \<in> set hs. slEnabled H h l)"
  by (induction hs) auto

text \<open>The handlers that a record goes to, one after the other, when none of them fails.\<close>

definition deliver :: "('h, 'a, 'l, 'rec, 's) slog_handler \<Rightarrow> 'h list \<Rightarrow> 'rec \<Rightarrow> 's \<Rightarrow> 's" where
  "deliver H hs r s = fold (\<lambda>h s. fst (slHandle H h r s)) hs s"

lemma fanout_Handle_ok:
  "fanout_Handle lv H hs r s = (s', Inr u) \<Longrightarrow> s' = deliver H (filter (\<lambda>h. slEnabled H h (lv r)) hs) r s"
  by (induction lv H hs r s rule: fanout_Handle.induct)
    (auto simp: deliver_def split: if_splits prod.splits sum.splits)

lemma fanout_Handle_error:
  "fanout_Handle lv H hs r s = (s', Inl e) \<Longrightarrow>
     \<exists>pre h post t. hs = pre @ h # post \<and> slEnabled H h (lv r) \<and> fanout_Handle lv H pre r s = (t, Inr ())
       \<and> slHandle H h r t = (s', Inl e)"
proof (induction lv H hs r s rule: fanout_Handle.induct)
  case (1 lv H r s)
  then show ?case by simp
next
  case (2 lv H h hs r s)
  show ?case
  proof (cases "slEnabled H h (lv r)")
    case False
    then obtain pre g post t where "hs = pre @ g # post" "slEnabled H g (lv r)"
        "fanout_Handle lv H pre r s = (t, Inr ())" "slHandle H g r t = (s', Inl e)"
      using "2.IH"(2) "2.prems" by auto
    with False show ?thesis by (intro exI [of _ "h # pre"]) auto
  next
    case True
    obtain t q where h: "slHandle H h r s = (t, q)" by fastforce
    show ?thesis
    proof (cases q)
      case (Inl e')
      then show ?thesis using h True "2.prems" by (intro exI [of _ "[]"]) auto
    next
      case (Inr v)
      then obtain pre g post t' where "hs = pre @ g # post" "slEnabled H g (lv r)"
          "fanout_Handle lv H pre r t = (t', Inr ())" "slHandle H g r t' = (s', Inl e)"
        using "2.IH"(1) [OF True h [symmetric] Inr] "2.prems" True h by auto
      with h Inr True show ?thesis by (intro exI [of _ "h # pre"]) auto
    qed
  qed
qed

text \<open>A record that the fan-out handles without an error has gone to every enabled handler, in order.
  After an error it has gone to the enabled handlers up to the first one that failed, and to none behind it.\<close>

theorem fanout_stops_at_first_error:
  "case fanout_Handle level_of H (NewFanoutHandler hs) r s of
     (s', Inr _) \<Rightarrow> s' = deliver H (filter (\<lambda>h. slEnabled H h (level_of r)) hs) r s
   | (s', Inl e) \<Rightarrow>
       \<exists>pre h post. hs = pre @ h # post \<and> slEnabled H h (level_of r)
         \<and> slHandle H h r (deliver H (filter (\<lambda>h. slEnabled H h (level_of r)) pre) r s) = (s', Inl e)"
proof -
  obtain s' q where f: "fanout_Handle level_of H hs r s = (s', q)" by fastforce
  show ?thesis
  proof (cases q)
    case (Inl e)
    with f show ?thesis
      using fanout_Handle_error [of level_of H hs r s s' e] fanout_Handle_ok [of level_of H _ r s]
      by (simp add: NewFanoutHandler_def) metis
  next
    case (Inr u)
    with f fanout_Handle_ok [of level_of H hs r s s' u] show ?thesis by (simp add: NewFanoutHandler_def)
  qed
qed

text \<open>Attributes reach every handler, also through a fan-out of fan-outs.\<close>

lemma fanout_WithAttrs_Enabled:
  assumes "\<And>h. slEnabled H (slWithAttrs H h as) l = slEnabled H h l"
  shows "slEnabled (fanout lv H) (slWithAttrs (fanout lv H) hs as) l = slEnabled (fanout lv H) hs l"
  by (auto simp: fanout_def fanout_WithAttrs_def fanout_Enabled_iff assms)

lemma fanout_WithAttrs_Handle:
  assumes "\<And>h. slEnabled H (slWithAttrs H h as) l = slEnabled H h l"
    and "\<And>h s. slHandle H (slWithAttrs H h as) r s = slHandle H h (add_attrs as r) s"
    and "lv (add_attrs as r) = l" "lv r = l"
  shows "slHandle (fanout lv H) (slWithAttrs (fanout lv H) hs as) r s = slHandle (fanout lv H) hs (add_attrs as r) s"
  by (induction hs arbitrary: s)
    (auto simp: fanout_def fanout_WithAttrs_def assms split: prod.splits sum.splits)

end
