(* ===== verification/Go_Crypto.thy ===== *)
theory Go_Crypto
  imports Prelude
begin

text \<open>
  \<^verbatim>\<open>crypto/sha256\<close> and \<^verbatim>\<open>crypto/hmac\<close> as far as the session tokens
  use them: the digest of a byte string (FIPS 180-4) and its keyed form (FIPS 198-1), both as
  executable functions on words of 32 bits.
\<close>

unbundle bit_operations_syntax

type_synonym word32 = "32 word"

section \<open>SHA-256\<close>

text \<open>The largest number of so many bits whose cube is not above \<open>n\<close>, bit by bit.\<close>

fun cube_root_bits :: "nat \<Rightarrow> int \<Rightarrow> int \<Rightarrow> int" where
  "cube_root_bits 0 n r = r"
| "cube_root_bits (Suc i) n r = cube_root_bits i n (if (r + 2 ^ i) ^ 3 \<le> n then r + 2 ^ i else r)"

definition first_primes :: "int list" where
  "first_primes = filter (\<lambda>p. \<forall>d \<in> set [2..p - 1]. p mod d \<noteq> 0) [2..311]"

text \<open>The round constants: the first 32 fractional bits of the cube roots of the first 64 primes.\<close>

definition sha256_k :: "word32 list" where
  "sha256_k = map (\<lambda>p. of_int (cube_root_bits 35 (p * 2 ^ 96) 0)) first_primes"

datatype sha_state = Sha word32 word32 word32 word32 word32 word32 word32 word32

definition sha256_init :: sha_state where
  "sha256_init = Sha 0x6a09e667 0xbb67ae85 0x3c6ef372 0xa54ff53a 0x510e527f 0x9b05688c 0x1f83d9ab 0x5be0cd19"

text \<open>The message schedule: sixteen words of the block, then forty-eight that follow from them.\<close>

definition next_w :: "word32 list \<Rightarrow> word32" where
  "next_w ws =
     (let a = ws ! (length ws - 15); b = ws ! (length ws - 2);
          s0 = word_rotr 7 a XOR word_rotr 18 a XOR drop_bit 3 a;
          s1 = word_rotr 17 b XOR word_rotr 19 b XOR drop_bit 10 b
      in ws ! (length ws - 16) + s0 + ws ! (length ws - 7) + s1)"

definition schedule :: "word32 list \<Rightarrow> word32 list" where
  "schedule ws = ((\<lambda>ws. ws @ [next_w ws]) ^^ 48) ws"

fun sha_round :: "word32 \<times> word32 \<Rightarrow> sha_state \<Rightarrow> sha_state" where
  "sha_round (k, w) (Sha a b c d e f g h) =
     (let s1 = word_rotr 6 e XOR word_rotr 11 e XOR word_rotr 25 e;
          ch = (e AND f) XOR (NOT e AND g);
          t1 = h + s1 + ch + k + w;
          s0 = word_rotr 2 a XOR word_rotr 13 a XOR word_rotr 22 a;
          maj = (a AND b) XOR (a AND c) XOR (b AND c);
          t2 = s0 + maj
      in Sha (t1 + t2) a b c (d + t1) e f g)"

fun sha_add :: "sha_state \<Rightarrow> sha_state \<Rightarrow> sha_state" where
  "sha_add (Sha a b c d e f g h) (Sha a' b' c' d' e' f' g' h') =
     Sha (a + a') (b + b') (c + c') (d + d') (e + e') (f + f') (g + g') (h + h')"

definition sha_block :: "word32 list \<Rightarrow> sha_state \<Rightarrow> sha_state" where
  "sha_block ws s = sha_add s (fold sha_round (zip sha256_k (schedule ws)) s)"

text \<open>Bytes to big-endian words and back.\<close>

definition byte_word :: "char \<Rightarrow> word32" where
  "byte_word c = of_int (of_char c)"

fun be_words :: "string \<Rightarrow> word32 list" where
  "be_words (a # b # c # d # s) =
     (push_bit 24 (byte_word a) OR push_bit 16 (byte_word b) OR push_bit 8 (byte_word c) OR byte_word d)
     # be_words s"
| "be_words _ = []"

definition word_bytes :: "word32 \<Rightarrow> string" where
  "word_bytes w = map (\<lambda>k. char_of (uint (drop_bit k w))) [24, 16, 8, 0]"

text \<open>A one bit, zeros, and the length in bits, up to a multiple of 64 bytes.\<close>

definition sha_pad :: "string \<Rightarrow> string" where
  "sha_pad m =
     m @ [char_of (0x80 :: int)]
       @ replicate ((119 - length m mod 64) mod 64) (char_of (0 :: int))
       @ map (\<lambda>k. char_of (uint (drop_bit k (of_nat (8 * length m) :: 64 word)))) [56, 48, 40, 32, 24, 16, 8, 0]"

function sha_blocks :: "word32 list \<Rightarrow> sha_state \<Rightarrow> sha_state" where
  "sha_blocks ws s = (if length ws < 16 then s else sha_blocks (drop 16 ws) (sha_block (take 16 ws) s))"
  by pat_completeness auto
termination by (relation "measure (\<lambda>(ws, s). length ws)") auto

declare sha_blocks.simps [simp del]

fun sha_output :: "sha_state \<Rightarrow> string" where
  "sha_output (Sha a b c d e f g h) = concat (map word_bytes [a, b, c, d, e, f, g, h])"

definition sha256 :: "string \<Rightarrow> string" where
  "sha256 m = sha_output (sha_blocks (be_words (sha_pad m)) sha256_init)"

lemma length_sha_pad: "64 dvd length (sha_pad m)"
proof -
  define r where "r = length m mod 64"
  have r: "r < 64" by (simp add: r_def)
  have "(119 - r) mod 64 = (if r < 56 then 55 - r else 119 - r)"
    using r by (auto simp: mod_if)
  then have "64 dvd r + 9 + (119 - r) mod 64" using r by (auto split: if_splits)
  moreover have "length (sha_pad m) = length m div 64 * 64 + (r + 9 + (119 - r) mod 64)"
    unfolding r_def sha_pad_def by simp
  ultimately show ?thesis by (metis dvd_add dvd_triv_right)
qed

lemma length_sha256 [simp]: "length (sha256 m) = 32"
  by (cases "sha_blocks (be_words (sha_pad m)) sha256_init") (simp add: sha256_def word_bytes_def)

section \<open>HMAC\<close>

definition xor_bytes :: "int \<Rightarrow> string \<Rightarrow> string" where
  "xor_bytes n s = map (\<lambda>c. char_of (of_char c XOR n)) s"

definition hmac_key :: "string \<Rightarrow> string" where
  "hmac_key key = (let k = if 64 < length key then sha256 key else key in
     k @ replicate (64 - length k) (char_of (0 :: int)))"

definition hmac_sha256 :: "string \<Rightarrow> string \<Rightarrow> string" where
  "hmac_sha256 key m =
     sha256 (xor_bytes 0x5c (hmac_key key) @ sha256 (xor_bytes 0x36 (hmac_key key) @ m))"

lemma length_hmac [simp]: "length (hmac_sha256 key m) = 32"
  by (simp add: hmac_sha256_def)

lemma length_hmac_key [simp]: "length (hmac_key key) = 64"
  by (simp add: hmac_key_def Let_def)

end
