(* ===== verification/Redis.thy ===== *)
theory Redis
  imports Domain
begin

text \<open>
  The Redis commands that the program sends: \<^verbatim>\<open>GET\<close>, \<^verbatim>\<open>SET\<close> with a
  lifetime, \<^verbatim>\<open>DEL\<close>, \<^verbatim>\<open>INCR\<close> and \<^verbatim>\<open>EXPIRE\<close>.  The server and its
  client library are not part of the repository: they are a record of operations, each with the
  instant at which the server runs it, and \<open>redis_store\<close> states the documented behaviour the
  program relies on, in terms of the keys that are live at an instant.  Every command can fail (a
  timeout, a lost connection); a command that fails may or may not have run.  \<open>rd_client\<close> is an
  implementation with every pattern of faults, on which the contract holds and the witnesses run.
\<close>

record 'r redis_client =
  redisGet :: "string \<Rightarrow> gotime \<Rightarrow> 'r \<Rightarrow> 'r \<times> (go_error + string)"
  redisSet :: "string \<Rightarrow> string \<Rightarrow> duration \<Rightarrow> gotime \<Rightarrow> 'r \<Rightarrow> 'r \<times> (go_error + unit)"
  redisDel :: "string \<Rightarrow> gotime \<Rightarrow> 'r \<Rightarrow> 'r \<times> (go_error + unit)"
  redisIncr :: "string \<Rightarrow> gotime \<Rightarrow> 'r \<Rightarrow> 'r \<times> (go_error + int64)"
  redisExpire :: "string \<Rightarrow> duration \<Rightarrow> gotime \<Rightarrow> 'r \<Rightarrow> 'r \<times> (go_error + unit)"

section \<open>What a command does\<close>

text \<open>What is live from now on, as a function of the instant.\<close>

type_synonym timeline = "gotime \<Rightarrow> string \<rightharpoonup> string"

definition millisecond :: duration where
  "millisecond = 1000000"

text \<open>The client sends lifetimes in whole milliseconds, one at least.\<close>

definition lifetime :: "duration \<Rightarrow> duration" where
  "lifetime ttl = (if ttl < millisecond then millisecond else ttl div millisecond * millisecond)"

definition set_key :: "string \<Rightarrow> string \<Rightarrow> gotime \<Rightarrow> timeline \<Rightarrow> timeline" where
  "set_key k v expiry L t = (L t)(k := if t < expiry then Some v else None)"

definition del_key :: "string \<Rightarrow> timeline \<Rightarrow> timeline" where
  "del_key k L t = (L t)(k := None)"

definition incr_key :: "string \<Rightarrow> gotime \<Rightarrow> timeline \<Rightarrow> timeline" where
  "incr_key k now L t =
     (case L now k of
        None \<Rightarrow> (L t)(k \<mapsto> FormatInt 1)
      | Some v \<Rightarrow> (L t)(k := map_option (\<lambda>_. FormatInt (fst (ParseInt v) + 1)) (L t k)))"

definition expire_key :: "string \<Rightarrow> gotime \<Rightarrow> gotime \<Rightarrow> timeline \<Rightarrow> timeline" where
  "expire_key k now expiry L t = (L t)(k := if t < expiry then L now k else None)"

text \<open>The number a counter holds, \<open>0\<close> when there is no such key.\<close>

definition counter :: "string option \<Rightarrow> int64" where
  "counter v = (case v of None \<Rightarrow> 0 | Some s \<Rightarrow> fst (ParseInt s))"

text \<open>Two timelines that agree from an instant on.\<close>

definition from_on :: "gotime \<Rightarrow> timeline \<Rightarrow> timeline \<Rightarrow> bool" where
  "from_on now L M \<longleftrightarrow> (\<forall>t \<ge> now. L t = M t)"

lemma from_on_at: "from_on now L M \<Longrightarrow> now \<le> t \<Longrightarrow> L t = M t"
  by (simp add: from_on_def)

lemma from_on_refl [simp]: "from_on now L L"
  by (simp add: from_on_def)

lemma lifetime_pos [simp]: "0 < lifetime ttl"
  by (auto simp: lifetime_def millisecond_def not_less pos_imp_zdiv_pos_iff)

lemma lifetime_bounds:
  assumes "millisecond \<le> ttl"
  shows "ttl - millisecond < lifetime ttl \<and> lifetime ttl \<le> ttl"
proof -
  have "lifetime ttl = ttl - ttl mod millisecond" using assms by (simp add: lifetime_def minus_mod_eq_div_mult)
  then show ?thesis by (simp add: millisecond_def)
qed

text \<open>Commands on one key leave the others alone.\<close>

lemma key_frame [simp]:
  "k' \<noteq> k \<Longrightarrow> set_key k v e L t k' = L t k'"
  "k' \<noteq> k \<Longrightarrow> del_key k L t k' = L t k'"
  "k' \<noteq> k \<Longrightarrow> incr_key k now L t k' = L t k'"
  "k' \<noteq> k \<Longrightarrow> expire_key k now e L t k' = L t k'"
  by (simp_all add: set_key_def del_key_def incr_key_def expire_key_def split: option.splits)

section \<open>The contract\<close>

locale redis_store =
  fixes R :: "'r redis_client"
    and inv :: "'r \<Rightarrow> bool"
    and live :: "'r \<Rightarrow> timeline"
  assumes get_frame: "inv s \<Longrightarrow> redisGet R k now s = (s', rg) \<Longrightarrow> inv s' \<and> from_on now (live s') (live s)"
    and get_ok: "inv s \<Longrightarrow> redisGet R k now s = (s', Inr v) \<Longrightarrow> live s now k = Some v"
    and get_error: "inv s \<Longrightarrow> redisGet R k now s = (s', Inl e) \<Longrightarrow>
          (e = RedisNil \<and> live s now k = None) \<or> (\<exists>m. e = LibError m)"
    and set_ok: "inv s \<Longrightarrow> 0 < ttl \<Longrightarrow> redisSet R k v ttl now s = (s', Inr u) \<Longrightarrow>
          inv s' \<and> from_on now (live s') (set_key k v (now + lifetime ttl) (live s))"
    and set_error: "inv s \<Longrightarrow> 0 < ttl \<Longrightarrow> redisSet R k v ttl now s = (s', Inl e) \<Longrightarrow>
          inv s' \<and> (\<exists>m. e = LibError m)
          \<and> (from_on now (live s') (live s) \<or> from_on now (live s') (set_key k v (now + lifetime ttl) (live s)))"
    and del_ok: "inv s \<Longrightarrow> redisDel R k now s = (s', Inr u) \<Longrightarrow>
          inv s' \<and> from_on now (live s') (del_key k (live s))"
    and del_error: "inv s \<Longrightarrow> redisDel R k now s = (s', Inl e) \<Longrightarrow>
          inv s' \<and> (\<exists>m. e = LibError m)
          \<and> (from_on now (live s') (live s) \<or> from_on now (live s') (del_key k (live s)))"
    and incr_ok: "inv s \<Longrightarrow> redisIncr R k now s = (s', Inr n) \<Longrightarrow>
          inv s' \<and> n = counter (live s now k) + 1 \<and> from_on now (live s') (incr_key k now (live s))"
    and incr_error: "inv s \<Longrightarrow> redisIncr R k now s = (s', Inl e) \<Longrightarrow>
          inv s' \<and> (\<exists>m. e = LibError m)
          \<and> (from_on now (live s') (live s) \<or> from_on now (live s') (incr_key k now (live s)))"
    and expire_ok: "inv s \<Longrightarrow> 0 < ttl \<Longrightarrow> redisExpire R k ttl now s = (s', Inr u) \<Longrightarrow>
          inv s' \<and> from_on now (live s') (expire_key k now (now + lifetime ttl) (live s))"
    and expire_error: "inv s \<Longrightarrow> 0 < ttl \<Longrightarrow> redisExpire R k ttl now s = (s', Inl e) \<Longrightarrow>
          inv s' \<and> (\<exists>m. e = LibError m)
          \<and> (from_on now (live s') (live s)
             \<or> from_on now (live s') (expire_key k now (now + lifetime ttl) (live s)))"
begin

lemma get_cases:
  assumes "inv s" "redisGet R k now s = (s', r)"
  shows "inv s' \<and> from_on now (live s') (live s)
    \<and> (case r of Inr v \<Rightarrow> live s now k = Some v
       | Inl e \<Rightarrow> (e = RedisNil \<and> live s now k = None) \<or> (\<exists>m. e = LibError m))"
  using get_frame [OF assms] get_ok [OF assms(1)] get_error [OF assms(1)] assms(2) by (cases r) fastforce+

text \<open>What a command leaves alone: the keys it does not name.\<close>

lemma set_others:
  assumes "inv s" "0 < ttl" "redisSet R k v ttl now s = (s', r)" "k' \<noteq> k" "now \<le> t"
  shows "live s' t k' = live s t k'"
  using set_ok [OF assms(1,2)] set_error [OF assms(1,2)] assms(3-5)
  by (cases r) (fastforce dest: from_on_at)+

lemma del_others:
  assumes "inv s" "redisDel R k now s = (s', r)" "k' \<noteq> k" "now \<le> t"
  shows "live s' t k' = live s t k'"
  using del_ok [OF assms(1)] del_error [OF assms(1)] assms(2-4)
  by (cases r) (fastforce dest: from_on_at)+

lemma incr_others:
  assumes "inv s" "redisIncr R k now s = (s', r)" "k' \<noteq> k" "now \<le> t"
  shows "live s' t k' = live s t k'"
  using incr_ok [OF assms(1)] incr_error [OF assms(1)] assms(2-4)
  by (cases r) (fastforce dest: from_on_at)+

lemma expire_others:
  assumes "inv s" "0 < ttl" "redisExpire R k ttl now s = (s', r)" "k' \<noteq> k" "now \<le> t"
  shows "live s' t k' = live s t k'"
  using expire_ok [OF assms(1,2)] expire_error [OF assms(1,2)] assms(3-5)
  by (cases r) (fastforce dest: from_on_at)+

end

section \<open>An implementation\<close>

record rd =
  rdKeys :: "string \<rightharpoonup> string \<times> gotime option" \<comment> \<open>value, expiry\<close>
  rdCalls :: nat

definition rd_empty :: rd where
  "rd_empty = \<lparr>rdKeys = Map.empty, rdCalls = 0\<rparr>"

definition rd_live :: "rd \<Rightarrow> timeline" where
  "rd_live s t k =
     (case rdKeys s k of
        None \<Rightarrow> None
      | Some (v, None) \<Rightarrow> Some v
      | Some (v, Some e) \<Rightarrow> if t < e then Some v else None)"

text \<open>Every command counts, and fails when \<open>fault\<close> says so for its number.\<close>

definition rd_step :: "(nat \<Rightarrow> string option) \<Rightarrow> (rd \<Rightarrow> rd \<times> (go_error + 'a)) \<Rightarrow> rd \<Rightarrow> rd \<times> (go_error + 'a)" where
  "rd_step fault f s =
     (case fault (rdCalls s) of
        Some m \<Rightarrow> (s\<lparr>rdCalls := Suc (rdCalls s)\<rparr>, Inl (LibError m))
      | None \<Rightarrow> f (s\<lparr>rdCalls := Suc (rdCalls s)\<rparr>))"

definition rd_get :: "string \<Rightarrow> gotime \<Rightarrow> rd \<Rightarrow> rd \<times> (go_error + string)" where
  "rd_get k now s = (case rd_live s now k of None \<Rightarrow> (s, Inl RedisNil) | Some v \<Rightarrow> (s, Inr v))"

definition rd_put :: "string \<Rightarrow> (string \<times> gotime option) option \<Rightarrow> rd \<Rightarrow> rd" where
  "rd_put k e s = s\<lparr>rdKeys := (rdKeys s)(k := e)\<rparr>"

definition rd_incr :: "string \<Rightarrow> gotime \<Rightarrow> rd \<Rightarrow> rd \<times> (go_error + int64)" where
  "rd_incr k now s =
     (case rd_live s now k of
        None \<Rightarrow> (rd_put k (Some (FormatInt 1, None)) s, Inr 1)
      | Some v \<Rightarrow>
          let n = fst (ParseInt v) + 1 in
          if snd (ParseInt v) \<noteq> None \<or> sint n < sint (fst (ParseInt v))
          then (s, Inl (LibError ''ERR value is not an integer or out of range''))
          else (rd_put k (map_option (\<lambda>(_, e). (FormatInt n, e)) (rdKeys s k)) s, Inr n))"

definition rd_expire :: "string \<Rightarrow> duration \<Rightarrow> gotime \<Rightarrow> rd \<Rightarrow> rd" where
  "rd_expire k ttl now s =
     (case rd_live s now k of
        None \<Rightarrow> rd_put k None s
      | Some v \<Rightarrow> rd_put k (Some (v, Some (now + lifetime ttl))) s)"

definition rd_client :: "(nat \<Rightarrow> string option) \<Rightarrow> rd redis_client" where
  "rd_client fault = \<lparr>
     redisGet = (\<lambda>k now. rd_step fault (rd_get k now)),
     redisSet = (\<lambda>k v ttl now. rd_step fault (\<lambda>s. (rd_put k (Some (v, Some (now + lifetime ttl))) s, Inr ()))),
     redisDel = (\<lambda>k now. rd_step fault (\<lambda>s. (rd_put k None s, Inr ()))),
     redisIncr = (\<lambda>k now. rd_step fault (rd_incr k now)),
     redisExpire = (\<lambda>k ttl now. rd_step fault (\<lambda>s. (rd_expire k ttl now s, Inr ())))\<rparr>"

lemma rd_client_sel [simp]:
  "redisGet (rd_client fault) k now = rd_step fault (rd_get k now)"
  "redisSet (rd_client fault) k v ttl now
     = rd_step fault (\<lambda>s. (rd_put k (Some (v, Some (now + lifetime ttl))) s, Inr ()))"
  "redisDel (rd_client fault) k now = rd_step fault (\<lambda>s. (rd_put k None s, Inr ()))"
  "redisIncr (rd_client fault) k now = rd_step fault (rd_incr k now)"
  "redisExpire (rd_client fault) k ttl now = rd_step fault (\<lambda>s. (rd_expire k ttl now s, Inr ()))"
  by (simp_all add: rd_client_def)

lemma rd_live_calls [simp]: "rd_live (s\<lparr>rdCalls := n\<rparr>) = rd_live s"
  by (simp add: rd_live_def fun_eq_iff)

lemma rd_live_put:
  "rd_live (rd_put k e s) t = (rd_live s t)(k := (case e of None \<Rightarrow> None | Some (v, None) \<Rightarrow> Some v
      | Some (v, Some x) \<Rightarrow> if t < x then Some v else None))"
  by (rule ext) (simp add: rd_live_def rd_put_def split: option.splits)

lemma rd_step_cases:
  assumes "rd_step fault f s = (s', r)"
  obtains (fault) m where "s' = s\<lparr>rdCalls := Suc (rdCalls s)\<rparr>" "r = Inl (LibError m)"
  | (run) "f (s\<lparr>rdCalls := Suc (rdCalls s)\<rparr>) = (s', r)"
  using assms by (auto simp: rd_step_def split: option.splits)

lemma rd_incr_timeline:
  assumes "rd_incr k now s = (s', r)"
  shows "(r = Inr (counter (rd_live s now k) + 1) \<and> from_on now (rd_live s') (incr_key k now (rd_live s)))
    \<or> (s' = s \<and> (\<exists>m. r = Inl (LibError m)))"
proof (cases "rd_live s now k")
  case None
  then show ?thesis using assms by (auto simp: rd_incr_def counter_def from_on_def incr_key_def rd_live_put)
next
  case (Some v)
  then obtain e where e: "rdKeys s k = Some (v, e)" by (auto simp: rd_live_def split: option.splits if_splits)
  show ?thesis
  proof (cases "snd (ParseInt v) \<noteq> None \<or> sint (fst (ParseInt v) + 1) < sint (fst (ParseInt v))")
    case False
    then have "rd_live s' = incr_key k now (rd_live s)"
      using assms Some e by (auto simp: rd_incr_def Let_def incr_key_def rd_live_put fun_eq_iff)
        (auto simp: rd_live_def split: option.splits)
    then show ?thesis using assms Some False by (auto simp: rd_incr_def Let_def counter_def)
  qed (use assms Some in \<open>auto simp: rd_incr_def Let_def\<close>)
qed

lemma rd_expire_timeline:
  "from_on now (rd_live (rd_expire k ttl now s)) (expire_key k now (now + lifetime ttl) (rd_live s))"
  by (auto simp: from_on_def rd_expire_def expire_key_def rd_live_put split: option.splits)

lemma rd_put_timeline:
  "rd_live (rd_put k (Some (v, Some e)) s) = set_key k v e (rd_live s)"
  "rd_live (rd_put k None s) = del_key k (rd_live s)"
  by (auto simp: rd_live_put set_key_def del_key_def fun_eq_iff)

interpretation rd_store: redis_store "rd_client fault" "\<lambda>_. True" rd_live for fault
proof (unfold_locales, goal_cases)
  case (1 s k now s' r)
  then show ?case by (auto elim!: rd_step_cases simp: rd_get_def split: option.splits)
next
  case (2 s k now s' v)
  then show ?case by (auto elim!: rd_step_cases simp: rd_get_def split: option.splits)
next
  case (3 s k now s' e)
  then show ?case by (auto elim!: rd_step_cases simp: rd_get_def split: option.splits)
next
  case (4 s ttl k v now s' u)
  then show ?case by (auto elim!: rd_step_cases simp: rd_put_timeline)
next
  case (5 s ttl k v now s' e)
  then show ?case by (auto elim!: rd_step_cases)
next
  case (6 s k now s' u)
  then show ?case by (auto elim!: rd_step_cases simp: rd_put_timeline)
next
  case (7 s k now s' e)
  then show ?case by (auto elim!: rd_step_cases)
next
  case (8 s k now s' n)
  then show ?case by (auto elim!: rd_step_cases dest: rd_incr_timeline)
next
  case (9 s k now s' e)
  then show ?case by (auto elim!: rd_step_cases dest: rd_incr_timeline)
next
  case (10 s ttl k now s' u)
  then show ?case
    using rd_expire_timeline [where s = "s\<lparr>rdCalls := Suc (rdCalls s)\<rparr>"] by (auto elim!: rd_step_cases)
next
  case (11 s ttl k now s' e)
  then show ?case by (auto elim!: rd_step_cases)
qed

end
