(* ===== verification/Repositories.thy ===== *)
theory Repositories
  imports Domain
begin

text \<open>
  What the services rely on in a repository, as locales over the interface records of
  \<^verbatim>\<open>internal/domain/models.go\<close>.  \<open>inv\<close> is the store's own invariant,
  \<open>urows\<close> and \<open>trows\<close> the rows it holds, \<open>persisted\<close> what a row keeps of the user it
  was created from.  A fault of the library underneath (a lost connection, a codec failure) is a
  \<open>LibError\<close> and can happen at any operation; a failed write may or may not have happened.
\<close>

definition is_fault :: "go_error \<Rightarrow> bool" where
  "is_fault e \<longleftrightarrow> (\<exists>m. e = LibError m)"

text \<open>An error of none of the four types that the HTTP layer tells apart.\<close>

definition untyped :: "go_error \<Rightarrow> bool" where
  "untyped e \<longleftrightarrow> as_NotFound e = None \<and> as_Validation e = None \<and> as_Conflict e = None
     \<and> as_Unauthorized e = None"

lemma untyped_simps [simp]:
  "untyped (LibError m)" "untyped ErrNoRows" "untyped (ErrorString msg)" "untyped RedisNil"
  "untyped (NumError ne s)" "untyped (WrapError t e) \<longleftrightarrow> untyped e"
  "\<not> untyped (NotFoundError a b)" "\<not> untyped (ValidationError a b')" "\<not> untyped (ConflictError a c)"
  "\<not> untyped (UnauthorizedError a)"
  by (simp_all add: untyped_def)

lemma is_fault_simps [simp]:
  "is_fault (LibError m)" "\<not> is_fault ErrNoRows" "\<not> is_fault (ErrorString msg)"
  by (simp_all add: is_fault_def)

lemma is_fault_untyped: "is_fault e \<Longrightarrow> untyped e"
  by (auto simp: is_fault_def)

lemma untyped_as_None:
  "untyped e \<Longrightarrow> as_NotFound e = None" "untyped e \<Longrightarrow> as_Validation e = None"
  "untyped e \<Longrightarrow> as_Conflict e = None" "untyped e \<Longrightarrow> as_Unauthorized e = None"
  by (simp_all add: untyped_def)

definition same_user_input :: "user \<Rightarrow> user \<Rightarrow> bool" where
  "same_user_input u v \<longleftrightarrow> uEmail u = uEmail v \<and> uName u = uName v \<and> uPassword u = uPassword v"

definition same_task_input :: "task \<Rightarrow> task \<Rightarrow> bool" where
  "same_task_input t v \<longleftrightarrow> tUserID t = tUserID v \<and> tTitle t = tTitle v
     \<and> tDescription t = tDescription v \<and> tStatus t = tStatus v"

section \<open>Reading users\<close>

locale user_reads =
  fixes UR :: "('c, 's) user_repository"
    and ctx :: 'c
    and inv :: "'s \<Rightarrow> bool"
    and urows :: "'s \<Rightarrow> int64 \<rightharpoonup> user"
  assumes urows_key: "inv s \<Longrightarrow> urows s i = Some u \<Longrightarrow> uID u = i"
    and getByID_frame: "inv s \<Longrightarrow> userGetByID UR ctx i s = (s', r) \<Longrightarrow> inv s' \<and> urows s' = urows s"
    and getByID_ok: "inv s \<Longrightarrow> userGetByID UR ctx i s = (s', Inr u) \<Longrightarrow> urows s i = Some u"
    and getByID_error: "inv s \<Longrightarrow> userGetByID UR ctx i s = (s', Inl e) \<Longrightarrow>
          untyped e \<and> (is_fault e \<or> urows s i = None)"
begin

lemma getByID_cases:
  assumes "inv s" "userGetByID UR ctx i s = (s', r)"
  shows "inv s' \<and> urows s' = urows s
    \<and> (case r of Inl e \<Rightarrow> untyped e \<and> (is_fault e \<or> urows s i = None) | Inr u \<Rightarrow> urows s i = Some u \<and> uID u = i)"
  using getByID_frame [OF assms] getByID_ok [OF assms(1)] getByID_error [OF assms(1)]
    urows_key [OF assms(1)] assms(2)
  by (cases r) fastforce+

end

section \<open>The whole user repository\<close>

locale user_store = user_reads +
  fixes persisted :: "user \<Rightarrow> user"
  assumes getByEmail_frame: "inv s \<Longrightarrow> userGetByEmail UR ctx email s = (s', r) \<Longrightarrow>
          inv s' \<and> urows s' = urows s"
    and getByEmail_ok: "inv s \<Longrightarrow> userGetByEmail UR ctx email s = (s', Inr u) \<Longrightarrow>
          urows s (uID u) = Some u \<and> uEmail u = email"
    and getByEmail_error: "inv s \<Longrightarrow> userGetByEmail UR ctx email s = (s', Inl e) \<Longrightarrow>
          untyped e \<and> (is_fault e \<or> (\<forall>u \<in> ran (urows s). uEmail u \<noteq> email))"
    and create_inv: "inv s \<Longrightarrow> userCreate UR ctx u s = (s', r) \<Longrightarrow> inv s'"
    and create_ok: "inv s \<Longrightarrow> userCreate UR ctx u s = (s', Inr u') \<Longrightarrow>
          same_user_input u u' \<and> 0 < sint (uID u') \<and> urows s (uID u') = None
          \<and> urows s' = (urows s)(uID u' \<mapsto> persisted u')"
    and create_error: "inv s \<Longrightarrow> userCreate UR ctx u s = (s', Inl e) \<Longrightarrow>
          untyped e \<and> (urows s' = urows s
            \<or> (\<exists>u'. same_user_input u u' \<and> urows s (uID u') = None
                   \<and> urows s' = (urows s)(uID u' \<mapsto> persisted u')))"
    and update_inv: "inv s \<Longrightarrow> userUpdate UR ctx u s = (s', q) \<Longrightarrow> inv s'"
    and update_ok: "inv s \<Longrightarrow> userUpdate UR ctx u s = (s', Inr u') \<Longrightarrow>
          (case urows s (uID u) of
             None \<Rightarrow> urows s' = urows s
           | Some old \<Rightarrow> \<exists>new. urows s' = (urows s)(uID u \<mapsto> new) \<and> same_user_input (persisted u) new)"
    and update_error: "inv s \<Longrightarrow> userUpdate UR ctx u s = (s', Inl e) \<Longrightarrow>
          untyped e \<and> (urows s' = urows s
            \<or> (\<exists>new. urows s' = (urows s)(uID u \<mapsto> new) \<and> same_user_input (persisted u) new))"
    and delete_inv: "inv s \<Longrightarrow> userDelete UR ctx i s = (s', d) \<Longrightarrow> inv s'"
    and delete_ok: "inv s \<Longrightarrow> userDelete UR ctx i s = (s', Inr v) \<Longrightarrow> urows s' = (urows s)(i := None)"
    and delete_error: "inv s \<Longrightarrow> userDelete UR ctx i s = (s', Inl e) \<Longrightarrow>
          untyped e \<and> (urows s' = urows s \<or> urows s' = (urows s)(i := None))"
begin

lemma getByEmail_cases:
  assumes "inv s" "userGetByEmail UR ctx email s = (s', r)"
  shows "inv s' \<and> urows s' = urows s
    \<and> (case r of
         Inl e \<Rightarrow> untyped e \<and> (is_fault e \<or> (\<forall>u \<in> ran (urows s). uEmail u \<noteq> email))
       | Inr u \<Rightarrow> urows s (uID u) = Some u \<and> uEmail u = email)"
  using getByEmail_frame [OF assms] getByEmail_ok [OF assms(1)] getByEmail_error [OF assms(1)] assms(2)
  by (cases r) fastforce+

end

section \<open>Users and tasks in one store\<close>

locale task_store = user_reads +
  fixes TR :: "('c, 's) task_repository"
    and trows :: "'s \<Rightarrow> int64 \<rightharpoonup> task"
  assumes trows_key: "inv s \<Longrightarrow> trows s i = Some t \<Longrightarrow> tID t = i"
    and userGet_trows: "inv s \<Longrightarrow> userGetByID UR ctx i s = (s', ru) \<Longrightarrow> trows s' = trows s"
    and taskGet_frame: "inv s \<Longrightarrow> taskGetByID TR ctx i s = (s', rt) \<Longrightarrow>
          inv s' \<and> urows s' = urows s \<and> trows s' = trows s"
    and taskGet_ok: "inv s \<Longrightarrow> taskGetByID TR ctx i s = (s', Inr t) \<Longrightarrow> trows s i = Some t"
    and taskGet_error: "inv s \<Longrightarrow> taskGetByID TR ctx i s = (s', Inl e) \<Longrightarrow>
          untyped e \<and> (is_fault e \<or> trows s i = None)"
    and taskList_frame: "inv s \<Longrightarrow> taskListByUser TR ctx uid s = (s', rl) \<Longrightarrow>
          inv s' \<and> urows s' = urows s \<and> trows s' = trows s"
    and taskList_ok: "inv s \<Longrightarrow> taskListByUser TR ctx uid s = (s', Inr ts) \<Longrightarrow>
          distinct ts \<and> set ts = {t \<in> ran (trows s). tUserID t = uid}"
    and taskList_error: "inv s \<Longrightarrow> taskListByUser TR ctx uid s = (s', Inl e) \<Longrightarrow> untyped e"
    and taskCreate_frame: "inv s \<Longrightarrow> taskCreate TR ctx t s = (s', rt) \<Longrightarrow> inv s' \<and> urows s' = urows s"
    and taskCreate_ok: "inv s \<Longrightarrow> taskCreate TR ctx t s = (s', Inr t') \<Longrightarrow>
          same_task_input t t' \<and> 0 < sint (tID t') \<and> trows s (tID t') = None
          \<and> trows s' = (trows s)(tID t' \<mapsto> t')"
    and taskCreate_error: "inv s \<Longrightarrow> taskCreate TR ctx t s = (s', Inl e) \<Longrightarrow>
          untyped e \<and> (trows s' = trows s
            \<or> (\<exists>t'. same_task_input t t' \<and> trows s (tID t') = None \<and> trows s' = (trows s)(tID t' \<mapsto> t')))"
    and taskUpdate_frame: "inv s \<Longrightarrow> taskUpdate TR ctx t s = (s', rt) \<Longrightarrow> inv s' \<and> urows s' = urows s"
    and taskUpdate_ok: "inv s \<Longrightarrow> taskUpdate TR ctx t s = (s', Inr t') \<Longrightarrow>
          same_task_input t t' \<and> tID t' = tID t \<and>
          (case trows s (tID t) of
             None \<Rightarrow> trows s' = trows s
           | Some old \<Rightarrow> \<exists>new. trows s' = (trows s)(tID t \<mapsto> new)
               \<and> same_task_input (t\<lparr>tUserID := tUserID new\<rparr>) new \<and> tUserID new \<in> {tUserID old, tUserID t})"
    and taskUpdate_error: "inv s \<Longrightarrow> taskUpdate TR ctx t s = (s', Inl e) \<Longrightarrow>
          untyped e \<and> (trows s' = trows s
            \<or> (\<exists>old new. trows s (tID t) = Some old \<and> trows s' = (trows s)(tID t \<mapsto> new)
               \<and> same_task_input (t\<lparr>tUserID := tUserID new\<rparr>) new \<and> tUserID new \<in> {tUserID old, tUserID t}))"
    and taskDelete_frame: "inv s \<Longrightarrow> taskDelete TR ctx i s = (s', rd) \<Longrightarrow> inv s' \<and> urows s' = urows s"
    and taskDelete_ok: "inv s \<Longrightarrow> taskDelete TR ctx i s = (s', Inr v) \<Longrightarrow> trows s' = (trows s)(i := None)"
    and taskDelete_error: "inv s \<Longrightarrow> taskDelete TR ctx i s = (s', Inl e) \<Longrightarrow>
          untyped e \<and> (trows s' = trows s \<or> trows s' = (trows s)(i := None))"
begin

lemma userGet_cases:
  assumes "inv s" "userGetByID UR ctx i s = (s', r)"
  shows "inv s' \<and> urows s' = urows s \<and> trows s' = trows s
    \<and> (case r of Inl e \<Rightarrow> untyped e \<and> (is_fault e \<or> urows s i = None) | Inr u \<Rightarrow> urows s i = Some u \<and> uID u = i)"
  using getByID_cases [OF assms] userGet_trows [OF assms] by simp

lemma taskGet_cases:
  assumes "inv s" "taskGetByID TR ctx i s = (s', r)"
  shows "inv s' \<and> urows s' = urows s \<and> trows s' = trows s
    \<and> (case r of Inl e \<Rightarrow> untyped e \<and> (is_fault e \<or> trows s i = None) | Inr t \<Rightarrow> trows s i = Some t \<and> tID t = i)"
  using taskGet_frame [OF assms] taskGet_ok [OF assms(1)] taskGet_error [OF assms(1)]
    trows_key [OF assms(1)] assms(2)
  by (cases r) fastforce+

end

end
