(* ===== verification/Session.thy ===== *)
theory Session
  imports Go_Crypto Redis Repositories
begin

text \<open>
  The session manager of \<^verbatim>\<open>internal/web/auth.go\<close>.  Without Redis a session is a
  signed token in the cookie, checked on its own; with Redis it is a random id under which the user id
  is stored for a limited time.  Every call is given the instants of its \<^verbatim>\<open>time.Now\<close>
  and of the command it sends, and the bytes that \<^verbatim>\<open>crypto/rand\<close> delivers.
\<close>

record 'r session_manager =
  smSecret :: string
  smTTL :: duration
  smSecureCookies :: bool
  smRedis :: "'r redis_client option"

section \<open>Signed tokens\<close>

text \<open>\<^verbatim>\<open>time.Unix(sec, 0)\<close> counts its seconds from year 1 in 64 bits.\<close>

definition unix_to_internal :: int64 where
  "unix_to_internal = 62135596800"

definition time_Unix :: "int64 \<Rightarrow> gotime" where
  "time_Unix sec = of_unix (sint (sec + unix_to_internal) - sint unix_to_internal)"

lemma time_Unix_of_unix:
  assumes "sint sec + 62135596800 < 2 ^ 63"
  shows "time_Unix sec = of_unix (sint sec)"
proof -
  have c: "sint unix_to_internal = 62135596800" by (simp add: unix_to_internal_def)
  have "sint (sec + unix_to_internal) = sint sec + sint unix_to_internal"
    by (rule sint_add_no_overflow) (use assms c sint_int64_bounds [of sec] in linarith)+
  then show ?thesis by (simp add: time_Unix_def)
qed

definition signature :: "string \<Rightarrow> string \<Rightarrow> string" where
  "signature secret payload = hmac_sha256 secret payload"

definition sign :: "string \<Rightarrow> int64 \<Rightarrow> gotime \<Rightarrow> string" where
  "sign secret userID expiresAt =
     (let payload = FormatInt userID @ '':'' @ FormatInt (word_of_int (unix expiresAt));
          payloadEncoded = b64_encode payload;
          sigEncoded = b64_encode (signature secret payload)
      in payloadEncoded @ ''.'' @ sigEncoded)"

definition b64_error :: go_error where
  "b64_error = LibError ''illegal base64 data''"

definition verify :: "string \<Rightarrow> gotime \<Rightarrow> string \<Rightarrow> go_error + int64" where
  "verify secret now token =
     (case Split CHR ''.'' token of
        [p0, p1] \<Rightarrow>
          (case b64_decode p0 of
             None \<Rightarrow> Inl (WrapError ''decode payload'' b64_error)
           | Some payloadBytes \<Rightarrow>
               (case b64_decode p1 of
                  None \<Rightarrow> Inl (WrapError ''decode signature'' b64_error)
                | Some sigBytes \<Rightarrow>
                    if sigBytes \<noteq> signature secret payloadBytes
                    then Inl (ErrorString (Text ''invalid signature''))
                    else
                      (case Split CHR '':'' payloadBytes of
                         [u, e] \<Rightarrow>
                           (case ParseInt u of
                              (_, Some ne) \<Rightarrow> Inl (WrapError ''parse user id'' (NumError ne u))
                            | (userID, None) \<Rightarrow>
                                (case ParseInt e of
                                   (_, Some ne) \<Rightarrow> Inl (WrapError ''parse expiry'' (NumError ne e))
                                 | (expiresUnix, None) \<Rightarrow>
                                     if time_Unix expiresUnix < now
                                     then Inl (ErrorString (Text ''session expired''))
                                     else Inr userID))
                       | _ \<Rightarrow> Inl (ErrorString (Text ''invalid payload'')))))
      | _ \<Rightarrow> Inl (ErrorString (Text ''invalid token format'')))"

section \<open>Session ids in Redis\<close>

definition randomSessionID :: "go_error + string \<Rightarrow> go_error + string" where
  "randomSessionID rand_read = (case rand_read of Inl err \<Rightarrow> Inl err | Inr b \<Rightarrow> Inr (hex_encode b))"

definition sessionRedisKey :: "string \<Rightarrow> string" where
  "sessionRedisKey sessionID = ''session:'' @ sessionID"

definition buildCookieValue :: "'r session_manager \<Rightarrow> go_error + string \<Rightarrow> gotime \<Rightarrow> int64 \<Rightarrow> gotime \<Rightarrow> 'r
    \<Rightarrow> 'r \<times> (go_error + string)" where
  "buildCookieValue sm rand_read now userID expiresAt s =
     (case smRedis sm of
        None \<Rightarrow> (s, Inr (sign (smSecret sm) userID expiresAt))
      | Some R \<Rightarrow>
          (case randomSessionID rand_read of
             Inl err \<Rightarrow> (s, Inl (WrapError ''generate session id'' err))
           | Inr sid \<Rightarrow>
               (case redisSet R (sessionRedisKey sid) (FormatInt userID) (smTTL sm) now s of
                  (s, Inl err) \<Rightarrow> (s, Inl (WrapError ''store session in redis'' err))
                | (s, Inr _) \<Rightarrow> (s, Inr sid))))"

definition userIDFromCookieValue :: "'r session_manager \<Rightarrow> gotime \<Rightarrow> string \<Rightarrow> 'r \<Rightarrow> 'r \<times> (go_error + int64)" where
  "userIDFromCookieValue sm now cookieValue s =
     (case smRedis sm of
        None \<Rightarrow> (s, verify (smSecret sm) now cookieValue)
      | Some R \<Rightarrow>
          (case redisGet R (sessionRedisKey cookieValue) now s of
             (s, Inl err) \<Rightarrow>
               if err = RedisNil then (s, Inl (ErrorString (Text ''session expired'')))
               else (s, Inl (WrapError ''redis get session'' err))
           | (s, Inr raw) \<Rightarrow>
               (case ParseInt raw of
                  (_, Some ne) \<Rightarrow> (s, Inl (WrapError ''parse redis user id'' (NumError ne raw)))
                | (userID, None) \<Rightarrow> (s, Inr userID))))"

section \<open>Cookies\<close>

definition sessionCookieName :: string where
  "sessionCookieName = ''specto_session''"

datatype same_site = SameSiteLaxMode

record cookie =
  ckName :: string
  ckValue :: string
  ckPath :: string
  ckHttpOnly :: bool
  ckSameSite :: same_site
  ckSecure :: bool
  ckMaxAge :: int
  ckExpires :: gotime

text \<open>\<^verbatim>\<open>int(ttl.Seconds())\<close>, for lifetimes whose seconds a float64 holds exactly.\<close>

definition issue :: "'r session_manager \<Rightarrow> go_error + string \<Rightarrow> gotime \<Rightarrow> gotime \<Rightarrow> int64 \<Rightarrow> 'r
    \<Rightarrow> 'r \<times> (go_error + cookie)" where
  "issue sm rand_read now sent_at userID s =
     (let expiresAt = now + smTTL sm in
      case buildCookieValue sm rand_read sent_at userID expiresAt s of
        (s, Inl err) \<Rightarrow> (s, Inl (WrapError ''build session value'' err))
      | (s, Inr value) \<Rightarrow>
          (s, Inr \<lparr>ckName = sessionCookieName, ckValue = value, ckPath = ''/'', ckHttpOnly = True,
                   ckSameSite = SameSiteLaxMode, ckSecure = smSecureCookies sm,
                   ckMaxAge = smTTL sm div nanos_per_second, ckExpires = expiresAt\<rparr>))"

definition clear_cookie :: "'r session_manager \<Rightarrow> cookie" where
  "clear_cookie sm = \<lparr>ckName = sessionCookieName, ckValue = [], ckPath = ''/'', ckHttpOnly = True,
     ckSameSite = SameSiteLaxMode, ckSecure = smSecureCookies sm, ckMaxAge = - 1, ckExpires = time_Unix 0\<rparr>"

text \<open>\<open>cookie\<close> is the value of the session cookie that came with the request, if any.\<close>

definition revoke :: "'r session_manager \<Rightarrow> gotime \<Rightarrow> string option \<Rightarrow> 'r \<Rightarrow> 'r" where
  "revoke sm now cookie s =
     (case smRedis sm of
        None \<Rightarrow> s
      | Some R \<Rightarrow>
          (case cookie of
             None \<Rightarrow> s
           | Some v \<Rightarrow> if v = [] then s else fst (redisDel R (sessionRedisKey v) now s)))"

section \<open>Tokens\<close>

lemma sint_word_of_unix:
  "- (2 ^ 62) \<le> unix t \<Longrightarrow> unix t < 2 ^ 62 \<Longrightarrow> sint (word_of_int (unix t) :: int64) = unix t"
  by (rule sint_of_int_int64) simp_all

lemma verify_sign:
  assumes "- (2 ^ 62) \<le> unix expiresAt" "unix expiresAt < 2 ^ 62"
  shows "verify secret now (sign secret userID expiresAt)
    = (if of_unix (unix expiresAt) < now then Inl (ErrorString (Text ''session expired'')) else Inr userID)"
proof -
  have "time_Unix (word_of_int (unix expiresAt)) = of_unix (unix expiresAt)"
    using time_Unix_of_unix [of "word_of_int (unix expiresAt)"] sint_word_of_unix [OF assms] assms by simp
  then show ?thesis
    by (simp add: sign_def verify_def Let_def Split_two b64_encode_no_dot FormatInt_no_colon)
qed

lemma verify_sound:
  assumes "verify secret now token = Inr userID"
  obtains p0 p1 u e expiry where "token = p0 @ ''.'' @ p1"
    "b64_decode p0 = Some (u @ '':'' @ e)" "b64_decode p1 = Some (signature secret (u @ '':'' @ e))"
    "ParseInt u = (userID, None)" "ParseInt e = (expiry, None)" "now \<le> time_Unix expiry"
proof -
  obtain p0 p1 where tok: "Split CHR ''.'' token = [p0, p1]"
    using assms by (auto simp: verify_def split: list.splits)
  obtain payload where p0: "b64_decode p0 = Some payload"
    using assms tok by (auto simp: verify_def split: option.splits)
  have p1: "b64_decode p1 = Some (signature secret payload)"
    using assms tok p0 by (auto simp: verify_def split: option.splits if_splits)
  obtain u e where pl: "Split CHR '':'' payload = [u, e]"
    using assms tok p0 p1 by (auto simp: verify_def split: list.splits)
  have "ParseInt u = (userID, None)" "snd (ParseInt e) = None" "now \<le> time_Unix (fst (ParseInt e))"
    using assms tok p0 p1 pl
    by (auto simp: verify_def not_less split: prod.splits option.splits if_splits)
  then show ?thesis
    using that Split_eq_two [OF tok] Split_eq_two [OF pl] p0 p1 by (metis append_Cons append_Nil prod.collapse)
qed

lemma verify_untyped: "verify secret now token = Inl e \<Longrightarrow> untyped e"
  by (auto simp: verify_def b64_error_def split: list.splits option.splits prod.splits if_splits)

section \<open>What a session is\<close>

text \<open>The user that a cookie value stands for at an instant, in both modes.\<close>

definition session_of :: "'r session_manager \<Rightarrow> timeline \<Rightarrow> gotime \<Rightarrow> string \<Rightarrow> int64 option" where
  "session_of sm L t v =
     (case smRedis sm of
        None \<Rightarrow> (case verify (smSecret sm) t v of Inr u \<Rightarrow> Some u | Inl _ \<Rightarrow> None)
      | Some R \<Rightarrow>
          (case L t (sessionRedisKey v) of
             None \<Rightarrow> None
           | Some raw \<Rightarrow> (case ParseInt raw of (u, None) \<Rightarrow> Some u | (_, Some _) \<Rightarrow> None)))"

lemma sessionRedisKey_inj [simp]: "sessionRedisKey a = sessionRedisKey b \<longleftrightarrow> a = b"
  by (simp add: sessionRedisKey_def)

lemma session_of_from_on: "from_on now L M \<Longrightarrow> now \<le> t \<Longrightarrow> session_of sm L t v = session_of sm M t v"
  using from_on_at [of now L M t] by (cases "smRedis sm") (simp_all add: session_of_def)

text \<open>A manager whose Redis, if it has one, behaves.\<close>

locale session_store =
  fixes sm :: "'r session_manager"
    and inv :: "'r \<Rightarrow> bool"
    and live :: "'r \<Rightarrow> timeline"
  assumes redis: "smRedis sm = Some R \<Longrightarrow> redis_store R inv live"
    and ttl: "0 < smTTL sm"
begin

lemma lookup_cases:
  assumes "inv s" "userIDFromCookieValue sm now v s = (s', r)"
  shows "inv s' \<and> from_on now (live s') (live s)
    \<and> (case r of Inr u \<Rightarrow> session_of sm (live s) now v = Some u
       | Inl e \<Rightarrow> untyped e \<and> (session_of sm (live s) now v = None
           \<or> (\<exists>m. e = WrapError ''redis get session'' (LibError m))))"
proof (cases "smRedis sm")
  case None
  then show ?thesis using assms
    by (auto simp: userIDFromCookieValue_def session_of_def split: sum.splits dest: verify_untyped)
next
  case (Some R)
  obtain s1 q where q: "redisGet R (sessionRedisKey v) now s = (s1, q)" by fastforce
  note got = redis_store.get_cases [OF redis [OF Some] assms(1) q]
  show ?thesis
  proof (cases q)
    case (Inl e)
    then show ?thesis using got assms(2) q Some
      by (auto simp: userIDFromCookieValue_def session_of_def)
  next
    case (Inr raw)
    then show ?thesis using got assms(2) q Some
      by (cases "ParseInt raw") (auto simp: userIDFromCookieValue_def session_of_def split: option.splits)
  qed
qed

text \<open>A session holds from the moment it is issued to the end of its lifetime, give or take the
  rounding of instants to seconds in a token and to milliseconds in Redis.\<close>

lemma signed_lifetime:
  fixes uid :: int64
  assumes "smRedis sm = None" "now \<le> sent_at" "- (2 ^ 62) \<le> unix (now + smTTL sm)" "unix (now + smTTL sm) < 2 ^ 62"
  defines "v \<equiv> sign (smSecret sm) uid (now + smTTL sm)"
  shows "t \<le> now + smTTL sm - nanos_per_second \<Longrightarrow> session_of sm L t v = Some uid"
    and "sent_at + max millisecond (smTTL sm) < t \<Longrightarrow> session_of sm L t v = None"
proof -
  let ?exp = "now + smTTL sm"
  have "?exp - nanos_per_second < of_unix (unix ?exp)"
    using less_of_unix_Suc [of ?exp] by (simp add: of_unix_def algebra_simps)
  moreover have "of_unix (unix ?exp) \<le> ?exp" by (rule of_unix_unix_le)
  ultimately have "t \<le> ?exp - nanos_per_second \<Longrightarrow> \<not> of_unix (unix ?exp) < t"
    and "sent_at + max millisecond (smTTL sm) < t \<Longrightarrow> of_unix (unix ?exp) < t" using assms(2) by linarith+
  then show "t \<le> ?exp - nanos_per_second \<Longrightarrow> session_of sm L t v = Some uid"
    and "sent_at + max millisecond (smTTL sm) < t \<Longrightarrow> session_of sm L t v = None"
    using verify_sign [OF assms(3,4)] assms(1) by (simp_all add: session_of_def v_def)
qed

lemma stored_lifetime:
  fixes uid :: int64 and sid :: string and L :: timeline
  assumes "smRedis sm = Some R" "now \<le> sent_at"
  defines "L' \<equiv> set_key (sessionRedisKey sid) (FormatInt uid) (sent_at + lifetime (smTTL sm)) L"
  shows "sent_at \<le> t \<Longrightarrow> t \<le> now + smTTL sm - nanos_per_second \<Longrightarrow> session_of sm L' t sid = Some uid"
    and "sent_at + max millisecond (smTTL sm) < t \<Longrightarrow> session_of sm L' t sid = None"
    and "v' \<noteq> sid \<Longrightarrow> session_of sm L' t v' = session_of sm L t v'"
proof -
  have "lifetime (smTTL sm) \<le> max millisecond (smTTL sm)" "smTTL sm - nanos_per_second < lifetime (smTTL sm)"
    using lifetime_bounds [of "smTTL sm"] ttl
    by (auto simp: lifetime_def max_def millisecond_def nanos_per_second_def split: if_splits)
  then have "t \<le> now + smTTL sm - nanos_per_second \<Longrightarrow> t < sent_at + lifetime (smTTL sm)"
    and "sent_at + max millisecond (smTTL sm) < t \<Longrightarrow> \<not> t < sent_at + lifetime (smTTL sm)" using assms(2) by linarith+
  then show "sent_at \<le> t \<Longrightarrow> t \<le> now + smTTL sm - nanos_per_second \<Longrightarrow> session_of sm L' t sid = Some uid"
    and "sent_at + max millisecond (smTTL sm) < t \<Longrightarrow> session_of sm L' t sid = None"
    and "v' \<noteq> sid \<Longrightarrow> session_of sm L' t v' = session_of sm L t v'"
    using assms(1) by (simp_all add: session_of_def set_key_def L'_def)
qed

lemma build_cases:
  assumes "inv s" "buildCookieValue sm rnd sent_at uid (now + smTTL sm) s = (s', r)"
    and "now \<le> sent_at" "- (2 ^ 62) \<le> unix (now + smTTL sm)" "unix (now + smTTL sm) < 2 ^ 62"
  shows "inv s' \<and>
    (case r of
       Inl e \<Rightarrow> untyped e \<or> (\<exists>e'. rnd = Inl e')
     | Inr v \<Rightarrow>
         (\<forall>t. sent_at \<le> t \<and> t \<le> now + smTTL sm - nanos_per_second \<longrightarrow> session_of sm (live s') t v = Some uid)
         \<and> (\<forall>t. sent_at + max millisecond (smTTL sm) < t \<longrightarrow> session_of sm (live s') t v = None)
         \<and> (\<forall>t v'. sent_at \<le> t \<and> v' \<noteq> v \<longrightarrow> session_of sm (live s') t v' = session_of sm (live s) t v'))"
proof (cases "smRedis sm")
  case None
  then have run: "s' = s" "r = Inr (sign (smSecret sm) uid (now + smTTL sm))"
    using assms(2) by (simp_all add: buildCookieValue_def)
  note life = signed_lifetime [OF None assms(3-5)]
  show ?thesis using run assms(1) life None by (simp add: session_of_def)
next
  case (Some R)
  note store = redis [OF Some]
  show ?thesis
  proof (cases rnd)
    case (Inl e)
    then show ?thesis using assms(1,2) Some by (auto simp: buildCookieValue_def randomSessionID_def)
  next
    case (Inr b)
    let ?sid = "hex_encode b" and ?key = "sessionRedisKey (hex_encode b)"
    obtain s1 q where q: "redisSet R ?key (FormatInt uid) (smTTL sm) sent_at s = (s1, q)" by fastforce
    have run: "s' = s1 \<and> r = (case q of Inl e \<Rightarrow> Inl (WrapError ''store session in redis'' e) | Inr _ \<Rightarrow> Inr ?sid)"
      using assms(2) Some Inr q by (cases q) (auto simp: buildCookieValue_def randomSessionID_def)
    show ?thesis
    proof (cases q)
      case (Inl e)
      then show ?thesis using run redis_store.set_error [OF store assms(1) ttl] q by fastforce
    next
      case stored: (Inr u)
      note set = redis_store.set_ok [OF store assms(1) ttl q [unfolded stored]]
      let ?L = "set_key ?key (FormatInt uid) (sent_at + lifetime (smTTL sm)) (live s)"
      have "session_of sm (live s') t v = session_of sm ?L t v" if "sent_at \<le> t" for t v
        using session_of_from_on [of sent_at "live s1" ?L t sm v] set that run by simp
      moreover have "sent_at \<le> t" if "sent_at + max millisecond (smTTL sm) < t" for t
        using that ttl by (simp add: max_def split: if_splits)
      ultimately show ?thesis using run stored set stored_lifetime [OF Some assms(3)] by simp
    qed
  qed
qed

text \<open>Revoking a session in Redis ends it and no other; a signed token cannot be revoked.\<close>

lemma revoke_cases:
  assumes "inv s" "s' = revoke sm now c s"
  shows "inv s' \<and> (\<forall>t v'. now \<le> t \<and> c \<noteq> Some v' \<longrightarrow> session_of sm (live s') t v' = session_of sm (live s) t v')
    \<and> (\<forall>t v'. now \<le> t \<longrightarrow> session_of sm (live s') t v' \<in> {None, session_of sm (live s) t v'})"
proof (cases "\<exists>R v. smRedis sm = Some R \<and> c = Some v \<and> v \<noteq> []")
  case False
  then have "s' = s" using assms(2) by (auto simp: revoke_def split: option.splits)
  then show ?thesis using assms(1) by simp
next
  case True
  then obtain R v where v: "smRedis sm = Some R" "c = Some v" "v \<noteq> []" by blast
  obtain s1 q where q: "redisDel R (sessionRedisKey v) now s = (s1, q)" by fastforce
  have s': "s' = s1" using assms(2) v q by (simp add: revoke_def)
  have cases: "inv s1 \<and> (from_on now (live s1) (live s) \<or> from_on now (live s1) (del_key (sessionRedisKey v) (live s)))"
    using redis_store.del_ok [OF redis [OF v(1)] assms(1)] redis_store.del_error [OF redis [OF v(1)] assms(1)] q
    by (cases q) fastforce+
  then show ?thesis
  proof (elim conjE disjE)
    assume "inv s1" "from_on now (live s1) (live s)"
    then show ?thesis using s' by (simp add: session_of_from_on [of now "live s1" "live s"])
  next
    assume on: "inv s1" "from_on now (live s1) (del_key (sessionRedisKey v) (live s))"
    have "session_of sm (live s1) t v'
        = (if v' = v then None else session_of sm (live s) t v')" if "now \<le> t" for t v'
      using session_of_from_on [OF on(2) that, of sm v'] v(1)
      by (simp add: session_of_def del_key_def)
    then show ?thesis using s' on(1) v(2) by simp
  qed
qed

lemma revoke_ok:
  assumes "inv s" "smRedis sm = Some R" "v \<noteq> []" "redisDel R (sessionRedisKey v) now s = (s1, Inr u)" "now \<le> t"
  shows "session_of sm (live (revoke sm now (Some v) s)) t v = None"
proof -
  have "from_on now (live s1) (del_key (sessionRedisKey v) (live s))"
    using redis_store.del_ok [OF redis [OF assms(2)] assms(1,4)] by simp
  then have "session_of sm (live s1) t v = session_of sm (del_key (sessionRedisKey v) (live s)) t v"
    using assms(5) by (rule session_of_from_on)
  then show ?thesis using assms by (simp add: revoke_def session_of_def del_key_def)
qed

end

section \<open>Both kinds of session\<close>

definition redis_manager :: "string \<Rightarrow> duration \<Rightarrow> (nat \<Rightarrow> string option) \<Rightarrow> rd session_manager" where
  "redis_manager secret ttl fault =
     \<lparr>smSecret = secret, smTTL = max 1 ttl, smSecureCookies = True, smRedis = Some (rd_client fault)\<rparr>"

definition signed_manager :: "string \<Rightarrow> duration \<Rightarrow> rd session_manager" where
  "signed_manager secret ttl =
     \<lparr>smSecret = secret, smTTL = max 1 ttl, smSecureCookies = False, smRedis = None\<rparr>"

interpretation redis_sessions: session_store "redis_manager secret ttl fault" "\<lambda>_. True" rd_live
  for secret ttl fault
  by (rule session_store.intro) (auto simp: redis_manager_def rd_store.redis_store_axioms)

interpretation signed_sessions: session_store "signed_manager secret ttl" "\<lambda>_. True" rd_live
  for secret ttl
  by (rule session_store.intro) (auto simp: signed_manager_def)

text \<open>C9: A session that was issued stands for its user from then on until its lifetime ends, one
  second less at most, and for nobody after it ends; the sessions of others are not touched.  This
  holds for signed tokens and for sessions in Redis alike.\<close>

theorem session_lifetime:
  assumes "session_store sm rinv live" "rinv s"
    and "issue sm rnd now sent_at uid s = (s', Inr ck)" "now \<le> sent_at"
    and "- (2 ^ 62) \<le> unix (now + smTTL sm)" "unix (now + smTTL sm) < 2 ^ 62"
  shows "(sent_at \<le> t \<and> t \<le> now + smTTL sm - nanos_per_second
            \<longrightarrow> session_of sm (live s') t (ckValue ck) = Some uid)
    \<and> (sent_at + max millisecond (smTTL sm) < t \<longrightarrow> session_of sm (live s') t (ckValue ck) = None)
    \<and> (sent_at \<le> t \<and> v \<noteq> ckValue ck \<longrightarrow> session_of sm (live s') t v = session_of sm (live s) t v)"
proof -
  have "buildCookieValue sm rnd sent_at uid (now + smTTL sm) s = (s', Inr (ckValue ck))"
    using assms(3) by (auto simp: issue_def Let_def split: prod.splits sum.splits)
  from session_store.build_cases [OF assms(1,2) this assms(4-6)] show ?thesis by simp
qed

definition demo_bytes :: "go_error + string" where
  "demo_bytes = Inr (replicate 24 CHR ''r'')"

lemma session_lifetime_witness:
  "\<exists>ck. snd (issue (redis_manager ''k'' (60 * nanos_per_second) (\<lambda>_. None)) demo_bytes 0 5 7 rd_empty) = Inr ck
     \<and> session_of (redis_manager ''k'' (60 * nanos_per_second) (\<lambda>_. None))
         (rd_live (fst (issue (redis_manager ''k'' (60 * nanos_per_second) (\<lambda>_. None)) demo_bytes 0 5 7 rd_empty)))
         (30 * nanos_per_second) (ckValue ck) = Some 7"
proof -
  let ?sm = "redis_manager ''k'' (60 * nanos_per_second) (\<lambda>_. None)"
  let ?run = "issue ?sm demo_bytes 0 5 7 rd_empty"
  have "\<exists>ck. snd ?run = Inr ck"
    by (simp add: issue_def buildCookieValue_def randomSessionID_def redis_manager_def demo_bytes_def rd_step_def rd_empty_def)
  then obtain ck where ck: "snd ?run = Inr ck" by blast
  then have run: "?run = (fst ?run, Inr ck)" by (metis prod.collapse)
  have ttl: "smTTL ?sm = 60 * nanos_per_second" by (simp add: redis_manager_def nanos_per_second_def)
  have "session_of ?sm (rd_live (fst ?run)) (30 * nanos_per_second) (ckValue ck) = Some 7"
    using session_lifetime [OF redis_sessions.session_store_axioms TrueI run,
        where t = "30 * nanos_per_second" and v = "[]", unfolded ttl]
    by (simp add: nanos_per_second_def unix_def)
  with ck show ?thesis by blast
qed

text \<open>Looking a cookie up changes no session and returns exactly the user the session stands for;
  it is refused when the cookie stands for nobody or Redis fails, never accepted.\<close>

theorem session_lookup_exact:
  assumes "session_store sm rinv live" "rinv s"
    and "userIDFromCookieValue sm now v s = (s', r)"
  shows "(now \<le> t \<longrightarrow> session_of sm (live s') t v' = session_of sm (live s) t v')
    \<and> (case r of Inr u \<Rightarrow> session_of sm (live s) now v = Some u
       | Inl e \<Rightarrow> session_of sm (live s) now v = None \<or> (\<exists>m. e = WrapError ''redis get session'' (LibError m)))"
  using session_store.lookup_cases [OF assms] session_of_from_on [of now "live s'" "live s" t sm v']
  by (cases r) auto

lemma session_lookup_exact_witness:
  "case snd (userIDFromCookieValue (redis_manager ''k'' 60 (\<lambda>_. None)) 0 ''forged'' rd_empty) of
     Inr u \<Rightarrow> session_of (redis_manager ''k'' 60 (\<lambda>_. None)) (rd_live rd_empty) 0 ''forged'' = Some u
   | Inl e \<Rightarrow> session_of (redis_manager ''k'' 60 (\<lambda>_. None)) (rd_live rd_empty) 0 ''forged'' = None
       \<or> (\<exists>m. e = WrapError ''redis get session'' (LibError m))"
  using session_lookup_exact [OF redis_sessions.session_store_axioms TrueI surjective_pairing]
  by blast

text \<open>C14: A token is accepted only if it carries, in base64, a user id and an expiry that has not passed,
  and the MAC of exactly these bytes under the server's secret.\<close>

theorem accepted_token_is_signed:
  assumes "verify secret now token = Inr userID"
  shows "\<exists>p0 p1 u e expiry. token = p0 @ ''.'' @ p1 \<and> b64_decode p0 = Some (u @ '':'' @ e)
    \<and> b64_decode p1 = Some (hmac_sha256 secret (u @ '':'' @ e))
    \<and> ParseInt u = (userID, None) \<and> ParseInt e = (expiry, None) \<and> now \<le> time_Unix expiry"
  using verify_sound [OF assms] unfolding signature_def by metis

lemma accepted_token_is_signed_witness:
  "\<exists>p0 p1 u e expiry. sign ''k'' 7 (90 * nanos_per_second) = p0 @ ''.'' @ p1
    \<and> b64_decode p1 = Some (hmac_sha256 ''k'' (u @ '':'' @ e)) \<and> ParseInt u = (7, None)
    \<and> ParseInt e = (expiry, None)"
proof -
  have "verify ''k'' 0 (sign ''k'' 7 (90 * nanos_per_second)) = Inr 7"
    by (subst verify_sign) (simp_all add: unix_def nanos_per_second_def of_unix_def)
  from accepted_token_is_signed [OF this] show ?thesis by blast
qed

text \<open>Logging out of a Redis session ends it at once, for every instant after the command ran.\<close>

theorem logout_ends_session:
  assumes "session_store sm rinv live" "rinv s" "smRedis sm = Some R" "v \<noteq> []"
    and "snd (redisDel R (sessionRedisKey v) now s) = Inr u" "now \<le> t"
  shows "session_of sm (live (revoke sm now (Some v) s)) t v = None
    \<and> (v' \<noteq> v \<longrightarrow> session_of sm (live (revoke sm now (Some v) s)) t v' = session_of sm (live s) t v')"
proof -
  have "redisDel R (sessionRedisKey v) now s = (fst (redisDel R (sessionRedisKey v) now s), Inr u)"
    using assms(5) by (metis prod.collapse)
  then have "session_of sm (live (revoke sm now (Some v) s)) t v = None"
    using session_store.revoke_ok [OF assms(1-4) _ assms(6)] by blast
  then show ?thesis using session_store.revoke_cases [OF assms(1,2) refl, of now "Some v"] assms(6) by simp
qed

lemma logout_ends_session_witness:
  "session_of (redis_manager ''k'' 60 (\<lambda>_. None))
     (rd_live (revoke (redis_manager ''k'' 60 (\<lambda>_. None)) 3 (Some ''abc'')
        (rd_put (sessionRedisKey ''abc'') (Some (FormatInt 7, None)) rd_empty))) 4 ''abc'' = None"
proof -
  have "smRedis (redis_manager ''k'' 60 (\<lambda>_. None)) = Some (rd_client (\<lambda>_. None))" by (simp add: redis_manager_def)
  from logout_ends_session [OF redis_sessions.session_store_axioms TrueI this, of "''abc''" 3 _ "()" 4]
  show ?thesis by (simp add: rd_step_def rd_put_def rd_empty_def)
qed

end
