(* ===== verification/Stats.thy ===== *)
theory Stats
  imports Domain
begin

unbundle bit_operations_syntax

text \<open>
  Task statistics: \<^verbatim>\<open>internal/service/stats.go\<close>, the portable counting loop of
  \<^verbatim>\<open>count_generic.go\<close>, and the SSE2 + POPCNT routine of
  \<^verbatim>\<open>count_amd64.s\<close> that \<^verbatim>\<open>count_amd64.go\<close> declares.  The assembly
  is modelled instruction by instruction on 16-byte registers; the theorems show that it computes
  what the portable loop computes, and that the three counts partition the tasks.
\<close>

section \<open>The portable loop\<close>

type_synonym counts = "int64 \<times> int64 \<times> int64"

definition count_one :: "8 word \<Rightarrow> counts \<Rightarrow> counts" where
  "count_one s c =
     (case c of (todo, inProgress, done_) \<Rightarrow>
        if s = 0 then (todo + 1, inProgress, done_)
        else if s = 1 then (todo, inProgress + 1, done_)
        else if s = 2 then (todo, inProgress, done_ + 1)
        else c)"

fun count_loop :: "8 word list \<Rightarrow> counts \<Rightarrow> counts" where
  "count_loop [] c = c"
| "count_loop (s # ss) c = count_loop ss (count_one s c)"

definition countStatuses_generic :: "8 word list \<Rightarrow> counts" where
  "countStatuses_generic statuses = count_loop statuses (0, 0, 0)"

section \<open>The SSE2 routine\<close>

text \<open>An XMM register is the list of its sixteen bytes, lowest address first.\<close>

type_synonym xmm = "8 word list"

definition PXOR :: "xmm \<Rightarrow> xmm \<Rightarrow> xmm" where
  "PXOR x y = map2 (XOR) x y"

definition PCMPEQB :: "xmm \<Rightarrow> xmm \<Rightarrow> xmm" where
  "PCMPEQB x y = map2 (\<lambda>a b. if a = b then 0xFF else 0) x y"

definition PSUBB :: "xmm \<Rightarrow> xmm \<Rightarrow> xmm" where
  "PSUBB x y = map2 (\<lambda>s d. d - s) x y"

definition PADDB :: "xmm \<Rightarrow> xmm \<Rightarrow> xmm" where
  "PADDB x y = map2 (+) x y"

text \<open>The sign bits of the sixteen bytes, gathered into a 32-bit register.\<close>

definition PMOVMSKB :: "xmm \<Rightarrow> 32 word" where
  "PMOVMSKB x = horner_sum of_bool 2 (map (\<lambda>b. bit b 7) x)"

definition POPCNTL :: "32 word \<Rightarrow> 32 word" where
  "POPCNTL w = of_nat (length (filter (bit w) [0..<32]))"

text \<open>The comparison vectors as the prologue builds them, from whatever the registers held.\<close>

definition setup_vectors :: "xmm \<Rightarrow> xmm \<Rightarrow> xmm \<Rightarrow> xmm \<times> xmm \<times> xmm" where
  "setup_vectors X3 X4 X5 =
     (let X3 = PXOR X3 X3;
          X4 = PXOR X4 X4;
          X5 = PCMPEQB X5 X5;
          X4 = PSUBB X5 X4;
          X5 = X4;
          X5 = PADDB X4 X5
      in (X3, X4, X5))"

text \<open>
  One comparison of the loop body: copy the loaded bytes, compare, gather the mask, count, add to the
  64-bit accumulator (\<^verbatim>\<open>POPCNTL\<close> clears the upper half of \<^verbatim>\<open>AX\<close>).
\<close>

definition simd_count :: "xmm \<Rightarrow> xmm \<Rightarrow> int64 \<Rightarrow> int64" where
  "simd_count X0 X r = r + ucast (POPCNTL (PMOVMSKB (PCMPEQB X X0)))"

function simd_loop :: "xmm \<times> xmm \<times> xmm \<Rightarrow> 8 word list \<Rightarrow> counts \<Rightarrow> 8 word list \<times> counts" where
  "simd_loop (X3, X4, X5) si (R8, R9, R10) =
     (if length si < 16 then (si, (R8, R9, R10))
      else let X0 = take 16 si
           in simd_loop (X3, X4, X5) (drop 16 si)
                (simd_count X0 X3 R8, simd_count X0 X4 R9, simd_count X0 X5 R10))"
  by pat_completeness auto
termination
  by (relation "measure (\<lambda>(x, si, r). length si)") auto

declare simd_loop.simps [simp del]

fun scalar_tail :: "8 word list \<Rightarrow> counts \<Rightarrow> counts" where
  "scalar_tail [] (R8, R9, R10) = (R8, R9, R10)"
| "scalar_tail (b # si) (R8, R9, R10) =
     (let DX = ucast b :: 64 word in
        if DX = 0 then scalar_tail si (R8 + 1, R9, R10)
        else if DX = 1 then scalar_tail si (R8, R9 + 1, R10)
        else if DX = 2 then scalar_tail si (R8, R9, R10 + 1)
        else scalar_tail si (R8, R9, R10))"

text \<open>The whole routine; \<open>regs\<close> are the vector registers' contents on entry.\<close>

definition countStatuses_amd64 :: "xmm \<times> xmm \<times> xmm \<Rightarrow> 8 word list \<Rightarrow> counts" where
  "countStatuses_amd64 regs statuses =
     (case regs of (x3, x4, x5) \<Rightarrow>
        case simd_loop (setup_vectors x3 x4 x5) statuses (0, 0, 0) of
          (tail, c) \<Rightarrow> scalar_tail tail c)"

section \<open>Counting by value\<close>

definition tally :: "8 word \<Rightarrow> 8 word list \<Rightarrow> int64" where
  "tally k ss = of_nat (length (filter (\<lambda>s. s = k) ss))"

lemma tally_simps [simp]:
  "tally k [] = 0" "tally k (s # ss) = (if s = k then 1 else 0) + tally k ss"
  "tally k (xs @ ys) = tally k xs + tally k ys"
  by (simp_all add: tally_def)

lemma count_loop_tally:
  "count_loop ss (a, b, c) = (a + tally 0 ss, b + tally 1 ss, c + tally 2 ss)"
  by (induction ss arbitrary: a b c) (auto simp: count_one_def)

lemma countStatuses_generic_tally:
  "countStatuses_generic ss = (tally 0 ss, tally 1 ss, tally 2 ss)"
  by (simp add: countStatuses_generic_def count_loop_tally)

lemma unat_ucast_byte: "unat (ucast (b :: 8 word) :: 64 word) = unat b"
  using unsigned_less [of b, where ?'a = nat] by (simp add: unsigned_ucast_eq take_bit_nat_eq_self)

lemma unat_ucast_32: "unat (ucast (b :: 32 word) :: 64 word) = unat b"
  using unsigned_less [of b, where ?'a = nat] by (simp add: unsigned_ucast_eq take_bit_nat_eq_self)

lemma ucast_byte_eq: "(ucast (b :: 8 word) :: 64 word) = ucast c \<longleftrightarrow> b = c"
  by (metis unat_ucast_byte word_unat_eq_iff)

lemma scalar_tail_tally:
  "scalar_tail ss (a, b, c) = (a + tally 0 ss, b + tally 1 ss, c + tally 2 ss)"
proof (induction ss arbitrary: a b c)
  case (Cons s ss)
  have "(ucast s :: 64 word) = 0 \<longleftrightarrow> s = 0" "(ucast s :: 64 word) = 1 \<longleftrightarrow> s = 1"
    "(ucast s :: 64 word) = 2 \<longleftrightarrow> s = 2"
    using ucast_byte_eq [of s 0] ucast_byte_eq [of s 1] ucast_byte_eq [of s 2] by simp_all
  then show ?case using Cons.IH by (auto simp: Let_def)
qed simp

section \<open>One SIMD comparison counts one value in sixteen bytes\<close>

lemma filter_bits_length:
  "length bs \<le> n \<Longrightarrow> length (filter (\<lambda>i. i < length bs \<and> bs ! i) [0..<n]) = length (filter id bs)"
proof -
  assume "length bs \<le> n"
  then have "{i. i < n \<and> i < length bs \<and> bs ! i} = {i. i < length bs \<and> bs ! i}" by auto
  then show ?thesis by (simp add: length_filter_conv_card cong: conj_cong)
qed

lemma bit_byte_mask: "bit (if P then 0xFF else 0 :: 8 word) 7 \<longleftrightarrow> P"
  by (cases P) simp_all

lemma mask_of_compare:
  assumes "length x = 16"
  shows "map (\<lambda>b. bit b 7) (PCMPEQB (replicate 16 k) x) = map (\<lambda>b. b = k) x"
  using assms by (auto simp: PCMPEQB_def bit_byte_mask intro!: nth_equalityI)

lemma popcnt_mask:
  assumes "length x = 16"
  shows "POPCNTL (PMOVMSKB (PCMPEQB (replicate 16 k) x)) = of_nat (length (filter (\<lambda>b. b = k) x))"
proof -
  let ?bs = "map (\<lambda>b. b = k) x"
  have "bit (PMOVMSKB (PCMPEQB (replicate 16 k) x)) = (\<lambda>i. i < length ?bs \<and> ?bs ! i)"
    using assms by (auto simp: PMOVMSKB_def mask_of_compare bit_horner_sum_bit_word_iff fun_eq_iff)
  then have "POPCNTL (PMOVMSKB (PCMPEQB (replicate 16 k) x)) = of_nat (length (filter id ?bs))"
    unfolding POPCNTL_def using filter_bits_length [of ?bs 32] assms by simp
  then show ?thesis by (simp add: filter_map comp_def)
qed

lemma simd_count_tally:
  assumes "length x = 16"
  shows "simd_count x (replicate 16 k) r = r + tally k x"
proof -
  let ?n = "length (filter (\<lambda>b. b = k) x)"
  have "?n \<le> 16" using length_filter_le [of "\<lambda>b. b = k" x] assms by simp
  then have "(ucast (of_nat ?n :: 32 word) :: 64 word) = of_nat ?n"
    by (simp add: word_unat_eq_iff unat_ucast_32 unsigned_of_nat take_bit_nat_eq_self)
  then show ?thesis using assms by (simp add: simd_count_def popcnt_mask tally_def)
qed

lemma setup_vectors_value:
  assumes "length x3 = 16" "length x4 = 16" "length x5 = 16"
  shows "setup_vectors x3 x4 x5 = (replicate 16 0, replicate 16 1, replicate 16 2)"
  using assms
  by (auto simp: setup_vectors_def Let_def PXOR_def PCMPEQB_def PSUBB_def PADDB_def
      intro!: nth_equalityI)

lemma simd_loop_tally:
  assumes "simd_loop (replicate 16 0, replicate 16 1, replicate 16 2) si (a, b, c) = (rest, a', b', c')"
  shows "a' + tally 0 rest = a + tally 0 si \<and> b' + tally 1 rest = b + tally 1 si
    \<and> c' + tally 2 rest = c + tally 2 si \<and> length rest < 16"
  using assms
proof (induction "length si" arbitrary: si a b c rule: less_induct)
  case less
  show ?case
  proof (cases "length si < 16")
    case True
    then show ?thesis using less.prems by (simp add: simd_loop.simps)
  next
    case False
    have len: "length (take 16 si) = 16" "length (drop 16 si) < length si" using False by auto
    have split: "tally k si = tally k (take 16 si) + tally k (drop 16 si)" for k
      by (metis append_take_drop_id tally_simps(3))
    have "simd_loop (replicate 16 0, replicate 16 1, replicate 16 2) (drop 16 si)
        (a + tally 0 (take 16 si), b + tally 1 (take 16 si), c + tally 2 (take 16 si))
        = (rest, a', b', c')"
      using less.prems False len by (simp add: simd_loop.simps [of _ _ _ si] Let_def simd_count_tally)
    from less.hyps [OF len(2) this] show ?thesis by (simp add: split add.assoc)
  qed
qed

text \<open>C12: The SSE2 + POPCNT routine returns the same three counts as the portable Go loop, for status
  vectors of every length and whatever the vector registers hold on entry.
\<close>

theorem countStatuses_amd64_eq_generic:
  assumes "length x3 = 16" "length x4 = 16" "length x5 = 16"
  shows "countStatuses_amd64 (x3, x4, x5) statuses = countStatuses_generic statuses"
proof -
  obtain rest a b c
    where loop: "simd_loop (replicate 16 0, replicate 16 1, replicate 16 2) statuses (0, 0, 0) = (rest, a, b, c)"
    by (metis prod_cases4)
  from simd_loop_tally [OF loop] show ?thesis
    by (simp add: countStatuses_amd64_def setup_vectors_value [OF assms] loop scalar_tail_tally
        countStatuses_generic_tally)
qed

theorem countStatuses_amd64_eq_generic_witness:
  "countStatuses_amd64 (replicate 16 7, replicate 16 0, replicate 16 255)
     (replicate 20 1 @ [0, 2, 3]) = countStatuses_generic (replicate 20 1 @ [0, 2, 3])"
  by (rule countStatuses_amd64_eq_generic) simp_all

section \<open>Statistics of a task list\<close>

text \<open>Bytes are zero when the switch names no case.\<close>

definition encodeStatus :: "task_status \<Rightarrow> 8 word" where
  "encodeStatus s =
     (if s = TaskStatusTodo then 0
      else if s = TaskStatusInProgress then 1
      else if s = TaskStatusDone then 2
      else 0)"

definition encodeStatuses :: "task list \<Rightarrow> 8 word list" where
  "encodeStatuses tasks = map (\<lambda>t. encodeStatus (tStatus t)) tasks"

text \<open>The float64 operations of the percentages, over any carrier \<open>'f\<close> of floating-point values.\<close>

record 'f float_ops =
  float64 :: "int64 \<Rightarrow> 'f"
  fdiv :: "'f \<Rightarrow> 'f \<Rightarrow> 'f"
  fmul :: "'f \<Rightarrow> 'f \<Rightarrow> 'f"

record 'f task_stats =
  Total :: int64
  TodoCount :: int64
  InProgCount :: int64
  DoneCount :: int64
  TodoPct :: 'f
  InProgPct :: 'f
  DonePct :: 'f

definition computeStats :: "'f float_ops \<Rightarrow> (8 word list \<Rightarrow> counts) \<Rightarrow> task list \<Rightarrow> 'f task_stats" where
  "computeStats F countStatuses tasks =
     (let statuses = encodeStatuses tasks in
      case countStatuses statuses of (todo, inProg, done_) \<Rightarrow>
        let total = of_nat (length tasks) :: int64;
            st = \<lparr>Total = total, TodoCount = todo, InProgCount = inProg, DoneCount = done_,
                  TodoPct = float64 F 0, InProgPct = float64 F 0, DonePct = float64 F 0\<rparr>
        in if 0 < sint total
           then let ft = float64 F total in
             st\<lparr>TodoPct := fmul F (fdiv F (float64 F todo) ft) (float64 F 100),
                InProgPct := fmul F (fdiv F (float64 F inProg) ft) (float64 F 100),
                DonePct := fmul F (fdiv F (float64 F done_) ft) (float64 F 100)\<rparr>
           else st)"

lemma encodeStatus_cases: "encodeStatus s \<in> {0, 1, 2}"
  by (simp add: encodeStatus_def)

lemma tally_encode_partition:
  "tally 0 (encodeStatuses ts) + tally 1 (encodeStatuses ts) + tally 2 (encodeStatuses ts)
   = of_nat (length ts)"
proof (induction ts)
  case (Cons t ts)
  then show ?case
    using encodeStatus_cases [of "tStatus t"] by (auto simp: encodeStatuses_def algebra_simps)
qed (simp add: encodeStatuses_def)

lemma computeStats_counts:
  "TodoCount (computeStats F countStatuses_generic ts) = tally 0 (encodeStatuses ts)"
  "InProgCount (computeStats F countStatuses_generic ts) = tally 1 (encodeStatuses ts)"
  "DoneCount (computeStats F countStatuses_generic ts) = tally 2 (encodeStatuses ts)"
  "Total (computeStats F countStatuses_generic ts) = of_nat (length ts)"
  by (simp_all add: computeStats_def countStatuses_generic_tally Let_def)

text \<open>The number of tasks of a list in a given state.\<close>

definition tasks_in :: "task_status \<Rightarrow> task list \<Rightarrow> nat" where
  "tasks_in s ts = length (filter (\<lambda>t. tStatus t = s) ts)"

lemma tally_encode_in_progress: "tally 1 (encodeStatuses ts) = of_nat (tasks_in TaskStatusInProgress ts)"
  by (induction ts) (auto simp: encodeStatuses_def encodeStatus_def tasks_in_def)

lemma tally_encode_done: "tally 2 (encodeStatuses ts) = of_nat (tasks_in TaskStatusDone ts)"
  by (induction ts) (auto simp: encodeStatuses_def encodeStatus_def tasks_in_def)

text \<open>The statistics of a task list, with the counting routine that the SSE2 one is proved equal to:
  in-progress and done are the numbers of tasks with those statuses, everything else counts as todo, and the three counts add up
  to the total.
\<close>

theorem computeStats_partition:
  fixes F :: "'f float_ops" and tasks :: "task list"
  defines "st \<equiv> computeStats F countStatuses_generic tasks"
  shows "InProgCount st = of_nat (tasks_in TaskStatusInProgress tasks)
    \<and> DoneCount st = of_nat (tasks_in TaskStatusDone tasks)
    \<and> TodoCount st + InProgCount st + DoneCount st = Total st
    \<and> Total st = of_nat (length tasks)"
  unfolding st_def computeStats_counts
  using tally_encode_partition tally_encode_in_progress tally_encode_done by auto

end
