(* ===== verification/User_Service.thy ===== *)
theory User_Service
  imports Repositories
begin

text \<open>
  \<^verbatim>\<open>internal/service/user_service.go\<close>.  The operations run on any
  \<open>user_repository\<close>.  A method that writes to the user it is passed by pointer returns the
  user as it leaves it; when a method fails its callers do not look at that user again, so the
  result is the error alone.  Log lines are left out.

  \<^verbatim>\<open>bcrypt\<close> is not part of the repository: it is a record of two functions, the
  salt it draws being an argument, and \<open>bcrypt_ok\<close> is the documented behaviour that the
  proofs rely on.
\<close>

section \<open>The password hash\<close>

record bcrypt =
  GenerateFromPassword :: "string \<Rightarrow> string \<Rightarrow> go_error + string" \<comment> \<open>salt, password\<close>
  CompareHashAndPassword :: "string \<Rightarrow> string \<Rightarrow> go_error option" \<comment> \<open>hash, password\<close>

definition bcrypt_ok :: "bcrypt \<Rightarrow> bool" where
  "bcrypt_ok B \<longleftrightarrow>
     (\<forall>salt pw hash. GenerateFromPassword B salt pw = Inr hash \<longrightarrow>
        hash \<noteq> [] \<and> CompareHashAndPassword B hash pw = None)
     \<and> (\<forall>salt pw e. GenerateFromPassword B salt pw = Inl e \<longrightarrow> (\<exists>m. e = LibError m))"

lemma bcrypt_ok_hash:
  "bcrypt_ok B \<Longrightarrow> GenerateFromPassword B salt pw = Inr hash \<Longrightarrow>
     hash \<noteq> [] \<and> CompareHashAndPassword B hash pw = None"
  by (simp add: bcrypt_ok_def)

lemma bcrypt_ok_error:
  "bcrypt_ok B \<Longrightarrow> GenerateFromPassword B salt pw = Inl e \<Longrightarrow> untyped e"
  unfolding bcrypt_ok_def using is_fault_def is_fault_untyped by blast

section \<open>Operations\<close>

definition emptyValueMessage :: string where
  "emptyValueMessage = ''must not be empty''"

definition invalidCredentialsMessage :: string where
  "invalidCredentialsMessage = ''invalid credentials''"

definition validateUser :: "user \<Rightarrow> user \<times> go_error option" where
  "validateUser u =
     (let u = u\<lparr>uEmail := TrimSpace (uEmail u), uName := TrimSpace (uName u)\<rparr> in
      if uEmail u = [] then (u, Some (NewValidationError ''email'' (Text emptyValueMessage)))
      else if \<not> Contains_char (uEmail u) CHR ''@''
      then (u, Some (NewValidationError ''email'' (Text ''invalid format'')))
      else if uName u = [] then (u, Some (NewValidationError ''name'' (Text emptyValueMessage)))
      else if uPassword u = [] then (u, Some (NewValidationError ''password'' (Text emptyValueMessage)))
      else (u, None))"

definition validateRegistration :: "user \<Rightarrow> user \<times> go_error option" where
  "validateRegistration u =
     (case validateUser u of
        (u, Some err) \<Rightarrow> (u, Some err)
      | (u, None) \<Rightarrow>
          if length (uPassword u) < 8
          then (u, Some (NewValidationError ''password'' (Text ''must be at least 8 characters'')))
          else (u, None))"

definition UserService_Create :: "('c, 's) user_repository \<Rightarrow> 'c \<Rightarrow> user \<Rightarrow> 's \<Rightarrow> 's \<times> (go_error + user)" where
  "UserService_Create UR ctx u s =
     (case validateUser u of
        (u, Some err) \<Rightarrow> (s, Inl err)
      | (u, None) \<Rightarrow>
          (case userGetByEmail UR ctx (uEmail u) s of
             (s, Inr existing) \<Rightarrow>
               (s, Inl (NewConflictError ''user'' (Quoted ''email '' (uEmail u) '' already exists'')))
           | (s, Inl _) \<Rightarrow>
               (case userCreate UR ctx u s of
                  (s, Inl err) \<Rightarrow> (s, Inl (WrapError ''create user'' err))
                | (s, Inr u) \<Rightarrow> (s, Inr u))))"

definition UserService_Register :: "bcrypt \<Rightarrow> ('c, 's) user_repository \<Rightarrow> string \<Rightarrow> 'c \<Rightarrow> user \<Rightarrow> 's
    \<Rightarrow> 's \<times> (go_error + user)" where
  "UserService_Register B UR salt ctx u s =
     (case validateRegistration u of
        (u, Some err) \<Rightarrow> (s, Inl err)
      | (u, None) \<Rightarrow>
          (case GenerateFromPassword B salt (uPassword u) of
             Inl err \<Rightarrow> (s, Inl (WrapError ''hash password'' err))
           | Inr hash \<Rightarrow> UserService_Create UR ctx (u\<lparr>uPassword := hash\<rparr>) s))"

definition UserService_Authenticate :: "bcrypt \<Rightarrow> ('c, 's) user_repository \<Rightarrow> 'c \<Rightarrow> string \<Rightarrow> string \<Rightarrow> 's
    \<Rightarrow> 's \<times> (go_error + user)" where
  "UserService_Authenticate B UR ctx email password s =
     (let email = TrimSpace email in
      if email = [] \<or> password = [] then (s, Inl (NewUnauthorizedError invalidCredentialsMessage))
      else case userGetByEmail UR ctx email s of
        (s, Inl err) \<Rightarrow> (s, Inl (NewUnauthorizedError invalidCredentialsMessage))
      | (s, Inr u) \<Rightarrow>
          (case CompareHashAndPassword B (uPassword u) password of
             Some err \<Rightarrow> (s, Inl (NewUnauthorizedError invalidCredentialsMessage))
           | None \<Rightarrow> (s, Inr u)))"

definition UserService_GetByID :: "('c, 's) user_repository \<Rightarrow> 'c \<Rightarrow> int64 \<Rightarrow> 's \<Rightarrow> 's \<times> (go_error + user)" where
  "UserService_GetByID UR ctx i s =
     (case userGetByID UR ctx i s of
        (s, Inl err) \<Rightarrow>
          (case as_NotFound err of
             Some _ \<Rightarrow> (s, Inl err)
           | None \<Rightarrow> (s, Inl (NewNotFoundError ''user'' (''id='' @ FormatInt i))))
      | (s, Inr u) \<Rightarrow> (s, Inr u))"

definition UserService_GetByEmail :: "('c, 's) user_repository \<Rightarrow> 'c \<Rightarrow> string \<Rightarrow> 's \<Rightarrow> 's \<times> (go_error + user)" where
  "UserService_GetByEmail UR ctx email s =
     (case userGetByEmail UR ctx email s of
        (s, Inl err) \<Rightarrow>
          (case as_NotFound err of
             Some _ \<Rightarrow> (s, Inl err)
           | None \<Rightarrow> (s, Inl (NewNotFoundError ''user'' email)))
      | (s, Inr u) \<Rightarrow> (s, Inr u))"

definition UserService_Update :: "('c, 's) user_repository \<Rightarrow> 'c \<Rightarrow> user \<Rightarrow> 's \<Rightarrow> 's \<times> (go_error + user)" where
  "UserService_Update UR ctx u s =
     (if uID u = 0 then (s, Inl (NewValidationError ''id'' (Text ''must be set'')))
      else case validateUser u of
        (u, Some err) \<Rightarrow> (s, Inl err)
      | (u, None) \<Rightarrow>
          (case UserService_GetByID UR ctx (uID u) s of
             (s, Inl err) \<Rightarrow> (s, Inl err)
           | (s, Inr _) \<Rightarrow>
               (case userUpdate UR ctx u s of
                  (s, Inl err) \<Rightarrow> (s, Inl (WrapError ''update user'' err))
                | (s, Inr u) \<Rightarrow> (s, Inr u))))"

definition UserService_Delete :: "('c, 's) user_repository \<Rightarrow> 'c \<Rightarrow> int64 \<Rightarrow> 's \<Rightarrow> 's \<times> (go_error + unit)" where
  "UserService_Delete UR ctx i s =
     (case UserService_GetByID UR ctx i s of
        (s, Inl err) \<Rightarrow> (s, Inl err)
      | (s, Inr _) \<Rightarrow>
          (case userDelete UR ctx i s of
             (s, Inl err) \<Rightarrow> (s, Inl (WrapError ''delete user'' err))
           | (s, Inr _) \<Rightarrow> (s, Inr ())))"

section \<open>What the operations promise\<close>

text \<open>A user as the validation leaves it, and the conditions it passes under.\<close>

definition clean_user :: "user \<Rightarrow> user" where
  "clean_user u = u\<lparr>uEmail := TrimSpace (uEmail u), uName := TrimSpace (uName u)\<rparr>"

definition valid_user :: "user \<Rightarrow> bool" where
  "valid_user u \<longleftrightarrow> Contains_char (uEmail u) CHR ''@'' \<and> uName u \<noteq> [] \<and> uPassword u \<noteq> []
     \<and> TrimSpace (uEmail u) = uEmail u \<and> TrimSpace (uName u) = uName u"

lemma clean_user_sel [simp]:
  "uID (clean_user u) = uID u" "uEmail (clean_user u) = TrimSpace (uEmail u)"
  "uName (clean_user u) = TrimSpace (uName u)" "uPassword (clean_user u) = uPassword u"
  by (simp_all add: clean_user_def)

lemma validateUser_result:
  "(\<exists>f m. validateUser u = (clean_user u, Some (ValidationError f m)) \<and> \<not> valid_user (clean_user u))
   \<or> (validateUser u = (clean_user u, None) \<and> valid_user (clean_user u))"
  by (auto simp: validateUser_def Let_def clean_user_def valid_user_def Contains_char_def)

lemma validateUser_cases:
  obtains (bad) f m where "validateUser u = (clean_user u, Some (ValidationError f m))" "\<not> valid_user (clean_user u)"
  | (good) "validateUser u = (clean_user u, None)" "valid_user (clean_user u)"
  using validateUser_result by blast

lemma validateRegistration_cases:
  obtains (bad) f m where "validateRegistration u = (clean_user u, Some (ValidationError f m))"
      "\<not> valid_user (clean_user u) \<or> length (uPassword u) < 8"
  | (good) "validateRegistration u = (clean_user u, None)" "valid_user (clean_user u)" "8 \<le> length (uPassword u)"
proof (cases u rule: validateUser_cases)
  case (bad f m)
  then show ?thesis using that(1) by (simp add: validateRegistration_def)
next
  case good
  then show ?thesis using that
    by (cases "length (uPassword u) < 8") (simp_all add: validateRegistration_def)
qed

lemma valid_user_cong:
  "valid_user (clean_user u) \<Longrightarrow> same_user_input (clean_user u) u' \<Longrightarrow> valid_user u'"
  unfolding valid_user_def same_user_input_def by force

lemma clean_user_idem [simp]: "clean_user (clean_user u) = clean_user u"
  by (simp add: clean_user_def)

lemma clean_user_password: "clean_user (u\<lparr>uPassword := p\<rparr>) = (clean_user u)\<lparr>uPassword := p\<rparr>"
  by (simp add: clean_user_def)

lemma valid_user_password: "valid_user u \<Longrightarrow> p \<noteq> [] \<Longrightarrow> valid_user (u\<lparr>uPassword := p\<rparr>)"
  by (simp add: valid_user_def)

context user_store
begin

lemma Create_cases:
  assumes "inv s" "UserService_Create UR ctx u s = (s', r)"
  shows "inv s' \<and>
    (case r of
       Inr u' \<Rightarrow> valid_user u' \<and> same_user_input (clean_user u) u' \<and> 0 < sint (uID u')
         \<and> urows s (uID u') = None \<and> urows s' = (urows s)(uID u' \<mapsto> persisted u')
     | Inl e \<Rightarrow>
         (as_Validation e \<noteq> None \<and> s' = s \<and> \<not> valid_user (clean_user u))
         \<or> (as_Conflict e \<noteq> None \<and> urows s' = urows s \<and> (\<exists>v \<in> ran (urows s). uEmail v = TrimSpace (uEmail u)))
         \<or> (untyped e \<and> valid_user (clean_user u) \<and> (urows s' = urows s \<or>
              (\<exists>u'. same_user_input (clean_user u) u' \<and> urows s (uID u') = None
                  \<and> urows s' = (urows s)(uID u' \<mapsto> persisted u')))))"
proof (cases u rule: validateUser_cases)
  case (bad f m)
  then show ?thesis using assms by (auto simp: UserService_Create_def)
next
  case good
  obtain s1 q where q: "userGetByEmail UR ctx (TrimSpace (uEmail u)) s = (s1, q)" by fastforce
  note look = getByEmail_cases [OF assms(1) q]
  show ?thesis
  proof (cases q)
    case (Inr v)
    then show ?thesis using look assms(2) good q
      by (auto simp: UserService_Create_def intro!: bexI [of _ v] ranI)
  next
    case (Inl e)
    obtain s2 p where p: "userCreate UR ctx (clean_user u) s1 = (s2, p)" by fastforce
    show ?thesis
      using look assms(2) good q Inl p create_inv [OF _ p] create_ok [of s1 "clean_user u" s2]
        create_error [of s1 "clean_user u" s2]
      by (cases p) (auto simp: UserService_Create_def valid_user_cong)
  qed
qed

lemma GetByID_cases:
  assumes "inv s" "UserService_GetByID UR ctx i s = (s', r)"
  shows "inv s' \<and> urows s' = urows s
    \<and> (case r of Inl e \<Rightarrow> e = NotFoundError ''user'' (''id='' @ FormatInt i) | Inr u \<Rightarrow> urows s i = Some u)"
proof -
  obtain s1 q where q: "userGetByID UR ctx i s = (s1, q)" by fastforce
  show ?thesis using getByID_cases [OF assms(1) q] q assms(2)
    by (auto simp: UserService_GetByID_def untyped_as_None split: sum.splits)
qed

lemma GetByEmail_cases:
  assumes "inv s" "UserService_GetByEmail UR ctx email s = (s', r)"
  shows "inv s' \<and> urows s' = urows s
    \<and> (case r of Inl e \<Rightarrow> e = NotFoundError ''user'' email
       | Inr u \<Rightarrow> urows s (uID u) = Some u \<and> uEmail u = email)"
proof -
  obtain s1 q where q: "userGetByEmail UR ctx email s = (s1, q)" by fastforce
  show ?thesis using getByEmail_cases [OF assms(1) q] q assms(2)
    by (auto simp: UserService_GetByEmail_def untyped_as_None split: sum.splits)
qed

lemma Register_cases:
  assumes "bcrypt_ok B" "inv s" "UserService_Register B UR salt ctx u s = (s', r)"
  shows "inv s' \<and>
    (case r of
       Inr u' \<Rightarrow> valid_user u' \<and> 8 \<le> length (uPassword u)
         \<and> uEmail u' = TrimSpace (uEmail u) \<and> uName u' = TrimSpace (uName u)
         \<and> CompareHashAndPassword B (uPassword u') (uPassword u) = None
         \<and> 0 < sint (uID u') \<and> urows s (uID u') = None \<and> urows s' = (urows s)(uID u' \<mapsto> persisted u')
     | Inl e \<Rightarrow>
         (as_Validation e \<noteq> None \<and> s' = s \<and> (\<not> valid_user (clean_user u) \<or> length (uPassword u) < 8))
         \<or> (as_Conflict e \<noteq> None \<and> urows s' = urows s \<and> (\<exists>v \<in> ran (urows s). uEmail v = TrimSpace (uEmail u)))
         \<or> (untyped e \<and> (urows s' = urows s \<or>
              (\<exists>u'. urows s (uID u') = None \<and> urows s' = (urows s)(uID u' \<mapsto> persisted u')))))"
proof (cases u rule: validateRegistration_cases)
  case (bad f m)
  then show ?thesis using assms by (auto simp: UserService_Register_def)
next
  case good
  show ?thesis
  proof (cases "GenerateFromPassword B salt (uPassword u)")
    case (Inl e)
    then show ?thesis using good assms bcrypt_ok_error [OF assms(1) Inl]
      by (auto simp: UserService_Register_def)
  next
    case (Inr hash)
    let ?u = "(clean_user u)\<lparr>uPassword := hash\<rparr>"
    have run: "UserService_Create UR ctx ?u s = (s', r)"
      using good Inr assms(3) by (simp add: UserService_Register_def)
    have clean: "clean_user ?u = ?u" by (simp add: clean_user_password)
    have "valid_user ?u" using good bcrypt_ok_hash [OF assms(1) Inr] by (simp add: valid_user_password)
    then show ?thesis
      using Create_cases [OF assms(2) run] good bcrypt_ok_hash [OF assms(1) Inr] clean
      by (cases r) (auto simp: same_user_input_def)
  qed
qed

lemma Authenticate_cases:
  assumes "inv s" "UserService_Authenticate B UR ctx email pw s = (s', r)"
  shows "inv s' \<and> urows s' = urows s
    \<and> (case r of
         Inl e \<Rightarrow> e = UnauthorizedError invalidCredentialsMessage
       | Inr u \<Rightarrow> urows s (uID u) = Some u \<and> uEmail u = TrimSpace email
           \<and> CompareHashAndPassword B (uPassword u) pw = None \<and> pw \<noteq> [])"
proof -
  obtain s1 q where q: "userGetByEmail UR ctx (TrimSpace email) s = (s1, q)" by fastforce
  show ?thesis using getByEmail_cases [OF assms(1) q] q assms
    by (auto simp: UserService_Authenticate_def Let_def split: if_splits sum.splits option.splits)
qed

lemma Update_cases:
  assumes "inv s" "UserService_Update UR ctx u s = (s', r)"
  shows "inv s' \<and>
    (case r of
       Inr u' \<Rightarrow> (\<exists>new. urows s' = (urows s)(uID u \<mapsto> new)
            \<and> same_user_input (persisted (clean_user u)) new)
         \<and> urows s (uID u) \<noteq> None \<and> valid_user (clean_user u)
     | Inl e \<Rightarrow>
         (as_Validation e \<noteq> None \<and> s' = s \<and> (uID u = 0 \<or> \<not> valid_user (clean_user u)))
         \<or> (e = NotFoundError ''user'' (''id='' @ FormatInt (uID u)) \<and> urows s' = urows s)
         \<or> (untyped e \<and> (urows s' = urows s \<or> (\<exists>new. urows s' = (urows s)(uID u \<mapsto> new)
              \<and> same_user_input (persisted (clean_user u)) new))))"
proof (cases "uID u = 0")
  case True
  then show ?thesis using assms by (auto simp: UserService_Update_def)
next
  case False
  show ?thesis
  proof (cases u rule: validateUser_cases)
    case (bad f m)
    then show ?thesis using assms False by (auto simp: UserService_Update_def)
  next
    case good
    obtain s1 q where q: "UserService_GetByID UR ctx (uID u) s = (s1, q)" by fastforce
    note look = GetByID_cases [OF assms(1) q]
    show ?thesis
    proof (cases q)
      case (Inl e)
      then show ?thesis using look q good False assms(2) by (auto simp: UserService_Update_def)
    next
      case (Inr old)
      obtain s2 p where p: "userUpdate UR ctx (clean_user u) s1 = (s2, p)" by fastforce
      show ?thesis
        using look q good False Inr p assms(2) update_inv [OF _ p] update_ok [of s1 "clean_user u" s2]
          update_error [of s1 "clean_user u" s2]
        by (cases p) (auto simp: UserService_Update_def)
    qed
  qed
qed

lemma Delete_cases:
  assumes "inv s" "UserService_Delete UR ctx i s = (s', r)"
  shows "inv s' \<and>
    (case r of
       Inr _ \<Rightarrow> urows s i \<noteq> None \<and> urows s' = (urows s)(i := None)
     | Inl e \<Rightarrow> (e = NotFoundError ''user'' (''id='' @ FormatInt i) \<and> urows s' = urows s)
         \<or> (untyped e \<and> (urows s' = urows s \<or> urows s' = (urows s)(i := None))))"
proof -
  obtain s1 q where q: "UserService_GetByID UR ctx i s = (s1, q)" by fastforce
  note look = GetByID_cases [OF assms(1) q]
  show ?thesis
  proof (cases q)
    case (Inl e)
    then show ?thesis using look q assms(2) by (auto simp: UserService_Delete_def)
  next
    case (Inr old)
    obtain s2 p where p: "userDelete UR ctx i s1 = (s2, p)" by fastforce
    show ?thesis
      using look q Inr p assms(2) delete_inv [OF _ p] delete_ok [of s1 i s2] delete_error [of s1 i s2]
      by (cases p) (auto simp: UserService_Delete_def)
  qed
qed

end

end
