(* ===== verification/Task_Service.thy ===== *)
theory Task_Service
  imports Repositories Stats
begin

text \<open>
  \<^verbatim>\<open>internal/service/task_service.go\<close> and \<^verbatim>\<open>stats.go\<close>, on any \<open>task_repository\<close> and
  \<open>user_repository\<close> over one store.  A method that writes to the task it is passed by
  pointer returns the task as it leaves it.  Log lines are left out.
\<close>

section \<open>Operations\<close>

definition isValidStatus :: "task_status \<Rightarrow> bool" where
  "isValidStatus st \<longleftrightarrow> st = TaskStatusTodo \<or> st = TaskStatusInProgress \<or> st = TaskStatusDone"

definition validateTask :: "task \<Rightarrow> task \<times> go_error option" where
  "validateTask t =
     (let t = t\<lparr>tTitle := TrimSpace (tTitle t), tDescription := TrimSpace (tDescription t)\<rparr> in
      if tTitle t = [] then (t, Some (NewValidationError ''title'' (Text ''must not be empty'')))
      else if tUserID t = 0 then (t, Some (NewValidationError ''user_id'' (Text ''must be set'')))
      else
        let t = (if tStatus t = [] then t\<lparr>tStatus := TaskStatusTodo\<rparr> else t) in
        if \<not> isValidStatus (tStatus t)
        then (t, Some (NewValidationError ''status''
               (Quoted ''invalid value '' (tStatus t) ''; allowed: todo, in_progress, done'')))
        else (t, None))"

definition TaskService_Create :: "('c, 's) task_repository \<Rightarrow> ('c, 's) user_repository \<Rightarrow> 'c \<Rightarrow> task \<Rightarrow> 's
    \<Rightarrow> 's \<times> (go_error + task)" where
  "TaskService_Create TR UR ctx t s =
     (case validateTask t of
        (t, Some err) \<Rightarrow> (s, Inl err)
      | (t, None) \<Rightarrow>
          (case userGetByID UR ctx (tUserID t) s of
             (s, Inl _) \<Rightarrow> (s, Inl (NewNotFoundError ''user'' (''id='' @ FormatInt (tUserID t))))
           | (s, Inr _) \<Rightarrow>
               (case taskCreate TR ctx t s of
                  (s, Inl err) \<Rightarrow> (s, Inl (WrapError ''create task'' err))
                | (s, Inr t) \<Rightarrow> (s, Inr t))))"

definition TaskService_GetByID :: "('c, 's) task_repository \<Rightarrow> 'c \<Rightarrow> int64 \<Rightarrow> 's \<Rightarrow> 's \<times> (go_error + task)" where
  "TaskService_GetByID TR ctx i s =
     (case taskGetByID TR ctx i s of
        (s, Inl err) \<Rightarrow>
          (case as_NotFound err of
             Some _ \<Rightarrow> (s, Inl err)
           | None \<Rightarrow> (s, Inl (NewNotFoundError ''task'' (''id='' @ FormatInt i))))
      | (s, Inr t) \<Rightarrow> (s, Inr t))"

definition TaskService_ListByUser :: "('c, 's) task_repository \<Rightarrow> ('c, 's) user_repository \<Rightarrow> 'c \<Rightarrow> int64 \<Rightarrow> 's
    \<Rightarrow> 's \<times> (go_error + task list)" where
  "TaskService_ListByUser TR UR ctx uid s =
     (case userGetByID UR ctx uid s of
        (s, Inl _) \<Rightarrow> (s, Inl (NewNotFoundError ''user'' (''id='' @ FormatInt uid)))
      | (s, Inr _) \<Rightarrow>
          (case taskListByUser TR ctx uid s of
             (s, Inl err) \<Rightarrow> (s, Inl (WrapError ''list tasks'' err))
           | (s, Inr ts) \<Rightarrow> (s, Inr ts)))"

definition TaskService_Update :: "('c, 's) task_repository \<Rightarrow> 'c \<Rightarrow> task \<Rightarrow> 's \<Rightarrow> 's \<times> (go_error + task)" where
  "TaskService_Update TR ctx t s =
     (if tID t = 0 then (s, Inl (NewValidationError ''id'' (Text ''must be set'')))
      else case validateTask t of
        (t, Some err) \<Rightarrow> (s, Inl err)
      | (t, None) \<Rightarrow>
          (case TaskService_GetByID TR ctx (tID t) s of
             (s, Inl err) \<Rightarrow> (s, Inl err)
           | (s, Inr _) \<Rightarrow>
               (case taskUpdate TR ctx t s of
                  (s, Inl err) \<Rightarrow> (s, Inl (WrapError ''update task'' err))
                | (s, Inr t) \<Rightarrow> (s, Inr t))))"

definition TaskService_Delete :: "('c, 's) task_repository \<Rightarrow> 'c \<Rightarrow> int64 \<Rightarrow> 's \<Rightarrow> 's \<times> (go_error + unit)" where
  "TaskService_Delete TR ctx i s =
     (case TaskService_GetByID TR ctx i s of
        (s, Inl err) \<Rightarrow> (s, Inl err)
      | (s, Inr _) \<Rightarrow>
          (case taskDelete TR ctx i s of
             (s, Inl err) \<Rightarrow> (s, Inl (WrapError ''delete task'' err))
           | (s, Inr _) \<Rightarrow> (s, Inr ())))"

text \<open>\<^verbatim>\<open>StatsByUser\<close> of \<^verbatim>\<open>stats.go\<close>.\<close>

definition TaskService_StatsByUser :: "'f float_ops \<Rightarrow> (8 word list \<Rightarrow> counts) \<Rightarrow> ('c, 's) task_repository
    \<Rightarrow> ('c, 's) user_repository \<Rightarrow> 'c \<Rightarrow> int64 \<Rightarrow> 's \<Rightarrow> 's \<times> (go_error + 'f task_stats)" where
  "TaskService_StatsByUser F countStatuses TR UR ctx uid s =
     (case TaskService_ListByUser TR UR ctx uid s of
        (s, Inl err) \<Rightarrow> (s, Inl err)
      | (s, Inr tasks) \<Rightarrow> (s, Inr (computeStats F countStatuses tasks)))"

section \<open>What the operations promise\<close>

text \<open>A task as the validation leaves it, and the conditions it passes under.\<close>

definition clean_task :: "task \<Rightarrow> task" where
  "clean_task t = t\<lparr>tTitle := TrimSpace (tTitle t), tDescription := TrimSpace (tDescription t),
     tStatus := (if tStatus t = [] then TaskStatusTodo else tStatus t)\<rparr>"

definition valid_task :: "task \<Rightarrow> bool" where
  "valid_task t \<longleftrightarrow> tTitle t \<noteq> [] \<and> tUserID t \<noteq> 0 \<and> isValidStatus (tStatus t)
     \<and> TrimSpace (tTitle t) = tTitle t \<and> TrimSpace (tDescription t) = tDescription t"

lemma clean_task_sel [simp]:
  "tID (clean_task t) = tID t" "tUserID (clean_task t) = tUserID t"
  "tTitle (clean_task t) = TrimSpace (tTitle t)" "tDescription (clean_task t) = TrimSpace (tDescription t)"
  "tStatus (clean_task t) = (if tStatus t = [] then TaskStatusTodo else tStatus t)"
  by (simp_all add: clean_task_def)

lemma validateTask_result:
  "(\<exists>t' f m. validateTask t = (t', Some (ValidationError f m)) \<and> \<not> valid_task (clean_task t))
   \<or> (validateTask t = (clean_task t, None) \<and> valid_task (clean_task t))"
  by (cases t) (simp add: validateTask_def Let_def clean_task_def valid_task_def isValidStatus_def)

lemma validateTask_cases:
  obtains (bad) t' f m where "validateTask t = (t', Some (ValidationError f m))" "\<not> valid_task (clean_task t)"
  | (good) "validateTask t = (clean_task t, None)" "valid_task (clean_task t)"
  using validateTask_result by blast

lemma valid_task_same:
  assumes "valid_task t" "same_task_input t t'"
  shows "valid_task t'"
  using assms unfolding valid_task_def same_task_input_def by force

text \<open>An update that happened: the row keeps its key, is valid, and belongs to the old owner or
  to the one the caller named.\<close>

definition task_updated :: "task \<Rightarrow> (int64 \<rightharpoonup> task) \<Rightarrow> (int64 \<rightharpoonup> task) \<Rightarrow> bool" where
  "task_updated t R R' \<longleftrightarrow>
     (\<exists>old new. R (tID t) = Some old \<and> R' = R(tID t \<mapsto> new)
        \<and> same_task_input ((clean_task t)\<lparr>tUserID := tUserID new\<rparr>) new
        \<and> tUserID new \<in> {tUserID old, tUserID t})"

text \<open>A store whose tasks all have a title, an owner and a known status.\<close>

definition valid_rows :: "(int64 \<rightharpoonup> task) \<Rightarrow> bool" where
  "valid_rows R \<longleftrightarrow> (\<forall>i t. R i = Some t \<longrightarrow> valid_task t)"

lemma valid_rows_simps [simp]:
  "valid_rows Map.empty" "valid_rows R \<Longrightarrow> valid_task t \<Longrightarrow> valid_rows (R(i \<mapsto> t))"
  "valid_rows R \<Longrightarrow> valid_rows (R(i := None))"
  by (auto simp: valid_rows_def)

lemma task_updated_valid:
  assumes "task_updated t R R'" "valid_rows R" "valid_task (clean_task t)"
  shows "valid_rows R'"
proof -
  from assms(1) obtain old new where R: "R (tID t) = Some old" "R' = R(tID t \<mapsto> new)"
    and new: "same_task_input ((clean_task t)\<lparr>tUserID := tUserID new\<rparr>) new" "tUserID new \<in> {tUserID old, tUserID t}"
    unfolding task_updated_def by blast
  have "valid_task old" using R(1) assms(2) by (auto simp: valid_rows_def)
  then have "tUserID new \<noteq> 0" using new(2) assms(3) by (auto simp: valid_task_def)
  then have "valid_task ((clean_task t)\<lparr>tUserID := tUserID new\<rparr>)"
    using assms(3) by (simp add: valid_task_def)
  then have "valid_task new" using new(1) valid_task_same by blast
  then show ?thesis using R(2) assms(2) by simp
qed

section \<open>Sequences of calls\<close>

datatype task_call = CallCreate task | CallGet int64 | CallList int64 | CallUpdate task | CallDelete int64

fun task_call_run :: "('c, 's) task_repository \<Rightarrow> ('c, 's) user_repository \<Rightarrow> 'c \<Rightarrow> task_call \<Rightarrow> 's \<Rightarrow> 's" where
  "task_call_run TR UR ctx (CallCreate t) s = fst (TaskService_Create TR UR ctx t s)"
| "task_call_run TR UR ctx (CallGet i) s = fst (TaskService_GetByID TR ctx i s)"
| "task_call_run TR UR ctx (CallList uid) s = fst (TaskService_ListByUser TR UR ctx uid s)"
| "task_call_run TR UR ctx (CallUpdate t) s = fst (TaskService_Update TR ctx t s)"
| "task_call_run TR UR ctx (CallDelete i) s = fst (TaskService_Delete TR ctx i s)"

definition task_calls_run :: "('c, 's) task_repository \<Rightarrow> ('c, 's) user_repository \<Rightarrow> 'c \<Rightarrow> task_call list \<Rightarrow> 's \<Rightarrow> 's" where
  "task_calls_run TR UR ctx calls s = fold (task_call_run TR UR ctx) calls s"

context task_store
begin

lemma TaskCreate_cases:
  assumes "inv s" "TaskService_Create TR UR ctx t s = (s', r)"
  shows "inv s' \<and> urows s' = urows s \<and>
    (case r of
       Inr t' \<Rightarrow> valid_task t' \<and> same_task_input (clean_task t) t' \<and> urows s (tUserID t) \<noteq> None
         \<and> 0 < sint (tID t') \<and> trows s (tID t') = None \<and> trows s' = (trows s)(tID t' \<mapsto> t')
     | Inl e \<Rightarrow>
         (as_Validation e \<noteq> None \<and> s' = s \<and> \<not> valid_task (clean_task t))
         \<or> (e = NotFoundError ''user'' (''id='' @ FormatInt (tUserID t)) \<and> trows s' = trows s)
         \<or> (untyped e \<and> urows s (tUserID t) \<noteq> None \<and> (trows s' = trows s
             \<or> (\<exists>t'. valid_task t' \<and> same_task_input (clean_task t) t' \<and> trows s (tID t') = None
                  \<and> trows s' = (trows s)(tID t' \<mapsto> t')))))"
proof (cases t rule: validateTask_cases)
  case (bad t' f m)
  then show ?thesis using assms by (auto simp: TaskService_Create_def)
next
  case good
  obtain s1 q where q: "userGetByID UR ctx (tUserID t) s = (s1, q)" by fastforce
  note look = userGet_cases [OF assms(1) q]
  show ?thesis
  proof (cases q)
    case (Inl e)
    then show ?thesis using look q good assms(2) by (auto simp: TaskService_Create_def)
  next
    case (Inr u)
    obtain s2 p where p: "taskCreate TR ctx (clean_task t) s1 = (s2, p)" by fastforce
    show ?thesis
      using look q good Inr p assms(2) taskCreate_frame [OF _ p] taskCreate_ok [of s1 "clean_task t" s2]
        taskCreate_error [of s1 "clean_task t" s2] valid_task_same [OF good(2)]
      by (cases p) (fastforce simp: TaskService_Create_def)+
  qed
qed

lemma TaskGetByID_cases:
  assumes "inv s" "TaskService_GetByID TR ctx i s = (s', r)"
  shows "inv s' \<and> urows s' = urows s \<and> trows s' = trows s
    \<and> (case r of Inl e \<Rightarrow> e = NotFoundError ''task'' (''id='' @ FormatInt i)
       | Inr t \<Rightarrow> trows s i = Some t \<and> tID t = i)"
proof -
  obtain s1 q where q: "taskGetByID TR ctx i s = (s1, q)" by fastforce
  show ?thesis using taskGet_cases [OF assms(1) q] q assms(2)
    by (auto simp: TaskService_GetByID_def untyped_as_None split: sum.splits)
qed

lemma TaskList_cases:
  assumes "inv s" "TaskService_ListByUser TR UR ctx uid s = (s', r)"
  shows "inv s' \<and> urows s' = urows s \<and> trows s' = trows s
    \<and> (case r of
         Inl e \<Rightarrow> e = NotFoundError ''user'' (''id='' @ FormatInt uid) \<or> untyped e
       | Inr ts \<Rightarrow> urows s uid \<noteq> None \<and> distinct ts \<and> set ts = {t \<in> ran (trows s). tUserID t = uid})"
proof -
  obtain s1 q where q: "userGetByID UR ctx uid s = (s1, q)" by fastforce
  note look = userGet_cases [OF assms(1) q]
  obtain s2 p where p: "taskListByUser TR ctx uid s1 = (s2, p)" by fastforce
  show ?thesis
    using look q p assms(2) taskList_frame [OF _ p] taskList_ok [of s1 uid s2] taskList_error [of s1 uid s2]
    by (cases q; cases p) (auto simp: TaskService_ListByUser_def)
qed

lemma TaskUpdate_cases:
  assumes "inv s" "TaskService_Update TR ctx t s = (s', r)"
  shows "inv s' \<and> urows s' = urows s \<and>
    (case r of
       Inr t' \<Rightarrow> valid_task (clean_task t) \<and> same_task_input (clean_task t) t' \<and> tID t' = tID t \<and> task_updated t (trows s) (trows s')
     | Inl e \<Rightarrow>
         (as_Validation e \<noteq> None \<and> s' = s \<and> (tID t = 0 \<or> \<not> valid_task (clean_task t)))
         \<or> (e = NotFoundError ''task'' (''id='' @ FormatInt (tID t)) \<and> trows s' = trows s)
         \<or> (untyped e \<and> valid_task (clean_task t) \<and> (trows s' = trows s \<or> task_updated t (trows s) (trows s'))))"
proof (cases "tID t = 0")
  case True
  then show ?thesis using assms by (auto simp: TaskService_Update_def)
next
  case False
  show ?thesis
  proof (cases t rule: validateTask_cases)
    case (bad t' f m)
    then show ?thesis using assms False by (auto simp: TaskService_Update_def)
  next
    case good
    obtain s1 q where q: "TaskService_GetByID TR ctx (tID t) s = (s1, q)" by fastforce
    note look = TaskGetByID_cases [OF assms(1) q]
    show ?thesis
    proof (cases q)
      case (Inl e)
      then show ?thesis using look q good False assms(2) by (auto simp: TaskService_Update_def)
    next
      case (Inr old)
      obtain s2 p where p: "taskUpdate TR ctx (clean_task t) s1 = (s2, p)" by fastforce
      show ?thesis
      proof (cases p)
        case (Inl e)
        then have "untyped e \<and> (trows s2 = trows s1 \<or> task_updated t (trows s1) (trows s2))"
          using taskUpdate_error [of s1 "clean_task t" s2 e] p look unfolding task_updated_def by simp
        then show ?thesis
          using look q good False Inr p Inl assms(2) taskUpdate_frame [OF _ p]
          by (auto simp: TaskService_Update_def)
      next
        case Ok: (Inr t')
        then have "task_updated t (trows s1) (trows s2)" "same_task_input (clean_task t) t'" "tID t' = tID t"
          using taskUpdate_ok [of s1 "clean_task t" s2 t'] p look Inr by (auto simp: task_updated_def)
        then show ?thesis
          using look q good False Inr p Ok assms(2) taskUpdate_frame [OF _ p] valid_task_same [OF good(2)]
          by (auto simp: TaskService_Update_def)
      qed
    qed
  qed
qed

lemma TaskDelete_cases:
  assumes "inv s" "TaskService_Delete TR ctx i s = (s', r)"
  shows "inv s' \<and> urows s' = urows s \<and>
    (case r of
       Inr _ \<Rightarrow> trows s i \<noteq> None \<and> trows s' = (trows s)(i := None)
     | Inl e \<Rightarrow> (e = NotFoundError ''task'' (''id='' @ FormatInt i) \<and> trows s' = trows s)
         \<or> (untyped e \<and> (trows s' = trows s \<or> trows s' = (trows s)(i := None))))"
proof -
  obtain s1 q where q: "TaskService_GetByID TR ctx i s = (s1, q)" by fastforce
  note look = TaskGetByID_cases [OF assms(1) q]
  show ?thesis
  proof (cases q)
    case (Inl e)
    then show ?thesis using look q assms(2) by (auto simp: TaskService_Delete_def)
  next
    case (Inr old)
    obtain s2 p where p: "taskDelete TR ctx i s1 = (s2, p)" by fastforce
    show ?thesis
      using look q Inr p assms(2) taskDelete_frame [OF _ p] taskDelete_ok [of s1 i s2] taskDelete_error [of s1 i s2]
      by (cases p) (auto simp: TaskService_Delete_def)
  qed
qed

lemma task_call_valid:
  assumes "inv s" "valid_rows (trows s)" "s' = task_call_run TR UR ctx call s"
  shows "inv s' \<and> valid_rows (trows s')"
proof (cases call)
  case (CallCreate t)
  obtain q r where run: "TaskService_Create TR UR ctx t s = (q, r)" by fastforce
  have "inv q" and "trows q = trows s \<or> (\<exists>t'. valid_task t' \<and> trows q = (trows s)(tID t' \<mapsto> t'))"
    using TaskCreate_cases [OF assms(1) run] by (cases r; auto)+
  then show ?thesis using assms CallCreate run by auto
next
  case (CallGet i)
  obtain q r where "TaskService_GetByID TR ctx i s = (q, r)" by fastforce
  then show ?thesis using TaskGetByID_cases [OF assms(1)] assms CallGet by fastforce
next
  case (CallList uid)
  obtain q r where "TaskService_ListByUser TR UR ctx uid s = (q, r)" by fastforce
  then show ?thesis using TaskList_cases [OF assms(1)] assms CallList by fastforce
next
  case (CallUpdate t)
  obtain q r where run: "TaskService_Update TR ctx t s = (q, r)" by fastforce
  have "s' = s \<or> trows s' = trows s \<or> (task_updated t (trows s) (trows s') \<and> valid_task (clean_task t))"
    using TaskUpdate_cases [OF assms(1) run] assms(3) CallUpdate run
    by (cases r) auto
  then show ?thesis using TaskUpdate_cases [OF assms(1) run] assms CallUpdate run task_updated_valid by auto
next
  case (CallDelete i)
  obtain q r where run: "TaskService_Delete TR ctx i s = (q, r)" by fastforce
  have "inv q" and "trows q = trows s \<or> trows q = (trows s)(i := None)"
    using TaskDelete_cases [OF assms(1) run] by (cases r; auto)+
  then show ?thesis using assms CallDelete run by auto
qed

lemma task_calls_valid:
  "inv s \<Longrightarrow> valid_rows (trows s) \<Longrightarrow>
     inv (task_calls_run TR UR ctx calls s) \<and> valid_rows (trows (task_calls_run TR UR ctx calls s))"
  unfolding task_calls_run_def by (induction calls arbitrary: s) (simp_all add: task_call_valid [OF _ _ refl])

end

end
