(* ===== verification/Sql.thy ===== *)
theory Sql
  imports Domain
begin

text \<open>
  The relational store and the transaction helper of \<^verbatim>\<open>internal/database/tx.go\<close>.

  The SQL statements of \<^verbatim>\<open>postgres.go\<close> and \<^verbatim>\<open>banking_postgres.go\<close>
  are a datatype with one constructor per statement, and \<open>sql_effect\<close> is the meaning of each
  statement on the tables that \<^verbatim>\<open>migrations/*.up.sql\<close> declare, constraints included.
  It is a relation because SQL leaves open the ids a sequence hands out, the instant of
  \<^verbatim>\<open>NOW()\<close> and the order of rows with equal sort keys.

  The database server and its driver are not part of the repository: they are a record of operations
  \<open>sql_driver\<close>, a parameter of every definition that runs a statement.  The locale
  \<open>sql_engine\<close> states what the program relies on: a statement that succeeds has its effect, a
  statement that fails inside a transaction leaves the committed tables alone, a commit installs the
  transaction's tables, a rollback drops them.  A failed commit and a failed statement outside a
  transaction may or may not have taken effect, as when a connection is lost before the reply.
\<close>

section \<open>Tables and statements\<close>

record tables =
  tbUsers :: "int64 \<rightharpoonup> user"
  tbTasks :: "int64 \<rightharpoonup> task"
  tbAccounts :: "int64 \<rightharpoonup> account"
  tbTransfers :: "int64 \<rightharpoonup> transfer"

datatype sql_stmt =
    InsertUser string string string \<comment> \<open>email, name, password\<close>
  | SelectUserByID int64
  | SelectUserByEmail string
  | UpdateUserRow string string string int64 \<comment> \<open>email, name, password, id\<close>
  | DeleteUserRow int64
  | InsertTask int64 string string string \<comment> \<open>user id, title, description, status\<close>
  | SelectTaskByID int64
  | SelectTasksByUser int64
  | UpdateTaskRow string string string int64 \<comment> \<open>title, description, status, id\<close>
  | DeleteTaskRow int64
  | InsertAccount int64 string int64 \<comment> \<open>user id, currency, balance\<close>
  | SelectAccountByID int64
  | SelectAccountsByUser int64
  | AddToBalance int64 int64 \<comment> \<open>amount, id\<close>
  | InsertTransfer int64 int64 int64 string string \<comment> \<open>sender, receiver, amount, currency, description\<close>
  | SelectTransfersByAccount int64

text \<open>Result rows: full entities, or the columns of a \<^verbatim>\<open>RETURNING\<close> clause.\<close>

datatype sql_row =
    UserRow user
  | TaskRow task
  | AccountRow account
  | TransferRow transfer
  | KeyTimesRow int64 gotime gotime \<comment> \<open>id, created_at, updated_at\<close>
  | KeyTimeRow int64 gotime \<comment> \<open>id, created_at\<close>

section \<open>What a statement does\<close>

text \<open>\<^verbatim>\<open>VARCHAR(n)\<close> counts characters, and drops trailing spaces that do not fit.\<close>

definition utf8_length :: "string \<Rightarrow> nat" where
  "utf8_length s = length (filter (\<lambda>b. \<not> is_cont (of_char b)) s)"

definition fits_varchar :: "nat \<Rightarrow> string \<Rightarrow> string \<Rightarrow> bool" where
  "fits_varchar n s stored \<longleftrightarrow>
     (if utf8_length s \<le> n then stored = s
      else utf8_length stored = n \<and> (\<exists>k. s = stored @ replicate k CHR '' ''))"

text \<open>Rows that a \<^verbatim>\<open>DELETE\<close> with a condition keeps.\<close>

definition drop_rows :: "('r \<Rightarrow> bool) \<Rightarrow> (int64 \<rightharpoonup> 'r) \<Rightarrow> (int64 \<rightharpoonup> 'r)" where
  "drop_rows P m = (\<lambda>k. case m k of None \<Rightarrow> None | Some r \<Rightarrow> if P r then None else Some r)"

text \<open>A \<^verbatim>\<open>BIGINT\<close> sum that the server can store.\<close>

definition bigint_sum_ok :: "int64 \<Rightarrow> int64 \<Rightarrow> bool" where
  "bigint_sum_ok a b \<longleftrightarrow> - (2 ^ 63) \<le> sint a + sint b \<and> sint a + sint b < 2 ^ 63"

text \<open>Rows that match a condition, newest first.\<close>

definition newest_first :: "('r \<Rightarrow> gotime) \<Rightarrow> 'r list \<Rightarrow> bool" where
  "newest_first created rs \<longleftrightarrow> sorted_wrt (\<lambda>a b. created b \<le> created a) rs"

definition lists_rows :: "('r \<Rightarrow> sql_row) \<Rightarrow> ('r \<Rightarrow> gotime) \<Rightarrow> ('r \<Rightarrow> bool) \<Rightarrow> (int64 \<rightharpoonup> 'r)
    \<Rightarrow> sql_row list \<Rightarrow> bool" where
  "lists_rows mk created P m rows \<longleftrightarrow>
     (\<exists>rs. rows = map mk rs \<and> distinct rs \<and> set rs = {r \<in> ran m. P r} \<and> newest_first created rs)"

fun sql_effect :: "sql_stmt \<Rightarrow> tables \<Rightarrow> tables \<Rightarrow> sql_row list \<Rightarrow> bool" where
  "sql_effect (InsertUser email name pw) T T' rows \<longleftrightarrow>
     (\<exists>i t. rows = [KeyTimesRow i t t] \<and> 0 < sint i \<and> tbUsers T i = None
        \<and> (\<forall>u \<in> ran (tbUsers T). uEmail u \<noteq> email)
        \<and> T' = T\<lparr>tbUsers := (tbUsers T)(i \<mapsto> \<lparr>uID = i, uEmail = email, uName = name, uPassword = pw,
                                          uCreatedAt = t, uUpdatedAt = t\<rparr>)\<rparr>)"
| "sql_effect (SelectUserByID i) T T' rows \<longleftrightarrow>
     T' = T \<and> rows = (case tbUsers T i of None \<Rightarrow> [] | Some u \<Rightarrow> [UserRow u])"
| "sql_effect (SelectUserByEmail email) T T' rows \<longleftrightarrow>
     T' = T \<and> (\<exists>us. rows = map UserRow us \<and> distinct us \<and> set us = {u \<in> ran (tbUsers T). uEmail u = email})"
| "sql_effect (UpdateUserRow email name pw i) T T' rows \<longleftrightarrow>
     rows = [] \<and>
     (case tbUsers T i of
        None \<Rightarrow> T' = T
      | Some u \<Rightarrow>
          (\<forall>k v. k \<noteq> i \<and> tbUsers T k = Some v \<longrightarrow> uEmail v \<noteq> email)
          \<and> (\<exists>t. T' = T\<lparr>tbUsers := (tbUsers T)(i \<mapsto> u\<lparr>uEmail := email, uName := name, uPassword := pw,
                                                     uUpdatedAt := t\<rparr>)\<rparr>))"
| "sql_effect (DeleteUserRow i) T T' rows \<longleftrightarrow>
     rows = [] \<and>
     (let accounts' = drop_rows (\<lambda>a. aUserID a = i) (tbAccounts T) in
        (\<forall>tr \<in> ran (tbTransfers T). accounts' (trSenderAccountID tr) \<noteq> None
                                  \<and> accounts' (trReceiverAccountID tr) \<noteq> None)
        \<and> T' = T\<lparr>tbUsers := (tbUsers T)(i := None),
                tbTasks := drop_rows (\<lambda>t. tUserID t = i) (tbTasks T),
                tbAccounts := accounts'\<rparr>)"
| "sql_effect (InsertTask uid title descr status) T T' rows \<longleftrightarrow>
     (\<exists>i t. rows = [KeyTimesRow i t t] \<and> 0 < sint i \<and> tbTasks T i = None \<and> tbUsers T uid \<noteq> None
        \<and> T' = T\<lparr>tbTasks := (tbTasks T)(i \<mapsto> \<lparr>tID = i, tUserID = uid, tTitle = title, tDescription = descr,
                                          tStatus = status, tCreatedAt = t, tUpdatedAt = t\<rparr>)\<rparr>)"
| "sql_effect (SelectTaskByID i) T T' rows \<longleftrightarrow>
     T' = T \<and> rows = (case tbTasks T i of None \<Rightarrow> [] | Some t \<Rightarrow> [TaskRow t])"
| "sql_effect (SelectTasksByUser uid) T T' rows \<longleftrightarrow>
     T' = T \<and> lists_rows TaskRow tCreatedAt (\<lambda>t. tUserID t = uid) (tbTasks T) rows"
| "sql_effect (UpdateTaskRow title descr status i) T T' rows \<longleftrightarrow>
     rows = [] \<and>
     (case tbTasks T i of
        None \<Rightarrow> T' = T
      | Some t \<Rightarrow> \<exists>now. T' = T\<lparr>tbTasks := (tbTasks T)(i \<mapsto> t\<lparr>tTitle := title, tDescription := descr,
                                                     tStatus := status, tUpdatedAt := now\<rparr>)\<rparr>)"
| "sql_effect (DeleteTaskRow i) T T' rows \<longleftrightarrow>
     rows = [] \<and> T' = T\<lparr>tbTasks := (tbTasks T)(i := None)\<rparr>"
| "sql_effect (InsertAccount uid cur bal) T T' rows \<longleftrightarrow>
     (\<exists>i t cur'. rows = [KeyTimesRow i t t] \<and> 0 < sint i \<and> tbAccounts T i = None \<and> tbUsers T uid \<noteq> None
        \<and> fits_varchar 3 cur cur'
        \<and> T' = T\<lparr>tbAccounts := (tbAccounts T)(i \<mapsto> \<lparr>aID = i, aUserID = uid, aCurrency = cur',
                                               aBalance = bal, aCreatedAt = t, aUpdatedAt = t\<rparr>)\<rparr>)"
| "sql_effect (SelectAccountByID i) T T' rows \<longleftrightarrow>
     T' = T \<and> rows = (case tbAccounts T i of None \<Rightarrow> [] | Some a \<Rightarrow> [AccountRow a])"
| "sql_effect (SelectAccountsByUser uid) T T' rows \<longleftrightarrow>
     T' = T \<and> lists_rows AccountRow aCreatedAt (\<lambda>a. aUserID a = uid) (tbAccounts T) rows"
| "sql_effect (AddToBalance amount i) T T' rows \<longleftrightarrow>
     rows = [] \<and>
     (case tbAccounts T i of
        None \<Rightarrow> T' = T
      | Some a \<Rightarrow> bigint_sum_ok (aBalance a) amount
          \<and> (\<exists>t. T' = T\<lparr>tbAccounts := (tbAccounts T)(i \<mapsto> a\<lparr>aBalance := aBalance a + amount,
                                                          aUpdatedAt := t\<rparr>)\<rparr>))"
| "sql_effect (InsertTransfer snd_id rcv_id amount cur descr) T T' rows \<longleftrightarrow>
     (\<exists>i t cur'. rows = [KeyTimeRow i t] \<and> 0 < sint i \<and> tbTransfers T i = None
        \<and> tbAccounts T snd_id \<noteq> None \<and> tbAccounts T rcv_id \<noteq> None \<and> fits_varchar 3 cur cur'
        \<and> T' = T\<lparr>tbTransfers := (tbTransfers T)(i \<mapsto> \<lparr>trID = i, trSenderAccountID = snd_id,
                 trReceiverAccountID = rcv_id, trAmount = amount, trCurrency = cur',
                 trDescription = descr, trCreatedAt = t\<rparr>)\<rparr>)"
| "sql_effect (SelectTransfersByAccount i) T T' rows \<longleftrightarrow>
     T' = T \<and> lists_rows TransferRow trCreatedAt (\<lambda>tr. trSenderAccountID tr = i \<or> trReceiverAccountID tr = i)
       (tbTransfers T) rows"

section \<open>The schema's constraints\<close>

definition schema_ok :: "tables \<Rightarrow> bool" where
  "schema_ok T \<longleftrightarrow>
     finite (dom (tbUsers T)) \<and> finite (dom (tbTasks T))
     \<and> finite (dom (tbAccounts T)) \<and> finite (dom (tbTransfers T))
     \<and> (\<forall>i u. tbUsers T i = Some u \<longrightarrow> uID u = i)
     \<and> (\<forall>i t. tbTasks T i = Some t \<longrightarrow> tID t = i \<and> tbUsers T (tUserID t) \<noteq> None)
     \<and> (\<forall>i a. tbAccounts T i = Some a \<longrightarrow> aID a = i \<and> tbUsers T (aUserID a) \<noteq> None)
     \<and> (\<forall>i tr. tbTransfers T i = Some tr \<longrightarrow> trID tr = i
          \<and> tbAccounts T (trSenderAccountID tr) \<noteq> None \<and> tbAccounts T (trReceiverAccountID tr) \<noteq> None)
     \<and> (\<forall>i j u v. tbUsers T i = Some u \<and> tbUsers T j = Some v \<and> uEmail u = uEmail v \<longrightarrow> i = j)"

lemma drop_rows_Some: "drop_rows P m k = Some r \<longleftrightarrow> m k = Some r \<and> \<not> P r"
  by (auto simp: drop_rows_def split: option.splits)

lemma finite_dom_drop_rows [simp]: "finite (dom m) \<Longrightarrow> finite (dom (drop_rows P m))"
  by (rule finite_subset [of _ "dom m"]) (auto simp: drop_rows_Some)

lemma schema_uID: "schema_ok T \<Longrightarrow> tbUsers T i = Some u \<Longrightarrow> uID u = i"
  by (simp add: schema_ok_def)

lemma schema_tID: "schema_ok T \<Longrightarrow> tbTasks T i = Some t \<Longrightarrow> tID t = i"
  by (simp add: schema_ok_def)

lemma schema_aID: "schema_ok T \<Longrightarrow> tbAccounts T i = Some a \<Longrightarrow> aID a = i"
  by (simp add: schema_ok_def)

lemma schema_email_unique:
  "schema_ok T \<Longrightarrow> tbUsers T i = Some u \<Longrightarrow> tbUsers T j = Some v \<Longrightarrow> uEmail u = uEmail v \<Longrightarrow> i = j"
  by (simp add: schema_ok_def)

text \<open>Every statement of the program keeps the constraints.\<close>

lemma schema_insert_user:
  assumes "schema_ok T" "tbUsers T i = None" "uID u = i" "\<forall>v \<in> ran (tbUsers T). uEmail v \<noteq> uEmail u"
  shows "schema_ok (T\<lparr>tbUsers := (tbUsers T)(i \<mapsto> u)\<rparr>)"
  using assms by (auto simp: schema_ok_def ran_def)

lemma schema_update_user:
  assumes "schema_ok T" "tbUsers T i = Some u0" "uID u = i"
    "\<forall>k v. k \<noteq> i \<and> tbUsers T k = Some v \<longrightarrow> uEmail v \<noteq> uEmail u"
  shows "schema_ok (T\<lparr>tbUsers := (tbUsers T)(i \<mapsto> u)\<rparr>)"
  using assms by (auto simp: schema_ok_def) blast+

lemma schema_delete_user:
  assumes "schema_ok T"
    and "\<forall>tr \<in> ran (tbTransfers T).
      drop_rows (\<lambda>a. aUserID a = i) (tbAccounts T) (trSenderAccountID tr) \<noteq> None
      \<and> drop_rows (\<lambda>a. aUserID a = i) (tbAccounts T) (trReceiverAccountID tr) \<noteq> None"
  shows "schema_ok (T\<lparr>tbUsers := (tbUsers T)(i := None),
           tbTasks := drop_rows (\<lambda>t. tUserID t = i) (tbTasks T),
           tbAccounts := drop_rows (\<lambda>a. aUserID a = i) (tbAccounts T)\<rparr>)"
  using assms by (auto simp: schema_ok_def drop_rows_Some ran_def)

lemma schema_put_task:
  assumes "schema_ok T" "tID t = i" "tbUsers T (tUserID t) \<noteq> None"
  shows "schema_ok (T\<lparr>tbTasks := (tbTasks T)(i \<mapsto> t)\<rparr>)"
  using assms by (auto simp: schema_ok_def)

lemma schema_delete_task: "schema_ok T \<Longrightarrow> schema_ok (T\<lparr>tbTasks := (tbTasks T)(i := None)\<rparr>)"
  by (auto simp: schema_ok_def)

lemma schema_put_account:
  assumes "schema_ok T" "aID a = i" "tbUsers T (aUserID a) \<noteq> None"
  shows "schema_ok (T\<lparr>tbAccounts := (tbAccounts T)(i \<mapsto> a)\<rparr>)"
  using assms by (auto simp: schema_ok_def)

lemma schema_put_transfer:
  assumes "schema_ok T" "trID r = i" "tbAccounts T (trSenderAccountID r) \<noteq> None"
    "tbAccounts T (trReceiverAccountID r) \<noteq> None"
  shows "schema_ok (T\<lparr>tbTransfers := (tbTransfers T)(i \<mapsto> r)\<rparr>)"
  using assms by (auto simp: schema_ok_def)

lemma schema_task_owner: "schema_ok T \<Longrightarrow> tbTasks T i = Some t \<Longrightarrow> tbUsers T (tUserID t) \<noteq> None"
  by (simp add: schema_ok_def)

lemma schema_account_owner: "schema_ok T \<Longrightarrow> tbAccounts T i = Some a \<Longrightarrow> tbUsers T (aUserID a) \<noteq> None"
  by (simp add: schema_ok_def)

theorem sql_effect_schema:
  assumes "sql_effect st T T' rows" "schema_ok T"
  shows "schema_ok T'"
proof (cases st)
  case (UpdateUserRow e n p i)
  with assms show ?thesis
    by (cases "tbUsers T i") (auto intro!: schema_update_user simp: schema_uID)
next
  case (UpdateTaskRow t d s i)
  with assms show ?thesis
    by (cases "tbTasks T i") (auto intro!: schema_put_task simp: schema_tID dest: schema_task_owner)
next
  case (AddToBalance n i)
  with assms show ?thesis
    by (cases "tbAccounts T i") (auto intro!: schema_put_account simp: schema_aID dest: schema_account_owner)
next
  case (DeleteUserRow i)
  with assms show ?thesis by (auto simp: Let_def intro!: schema_delete_user)
qed (use assms in \<open>auto intro!: schema_insert_user schema_put_task schema_delete_task
      schema_put_account schema_put_transfer\<close>)

section \<open>The driver, and the transaction in the context\<close>

text \<open>A \<^verbatim>\<open>DBTX\<close>: the pool or an open transaction.\<close>

datatype dbtx = PoolConn | TxConn nat

record reqctx =
  ctxTx :: "nat option"

definition background :: reqctx where
  "background = \<lparr>ctxTx = None\<rparr>"

definition WithTx :: "reqctx \<Rightarrow> nat \<Rightarrow> reqctx" where
  "WithTx ctx tx = ctx\<lparr>ctxTx := Some tx\<rparr>"

definition TxFromContext :: "reqctx \<Rightarrow> nat option" where
  "TxFromContext ctx = ctxTx ctx"

definition Conn :: "reqctx \<Rightarrow> dbtx" where
  "Conn ctx = (case TxFromContext ctx of Some tx \<Rightarrow> TxConn tx | None \<Rightarrow> PoolConn)"

lemma Conn_simps [simp]:
  "Conn background = PoolConn" "Conn (WithTx ctx tx) = TxConn tx"
  by (simp_all add: Conn_def WithTx_def TxFromContext_def background_def)

text \<open>
  \<open>dbExec\<close> runs a statement to its end; \<open>dbQuery\<close> is \<^verbatim>\<open>QueryContext\<close>, whose rows
  arrive one by one: the rows that arrived, and what \<^verbatim>\<open>rows.Err()\<close> says when the
  iteration stops.
\<close>

record 'd sql_driver =
  dbBeginTx :: "'d \<Rightarrow> 'd \<times> (go_error + nat)"
  dbExec :: "dbtx \<Rightarrow> sql_stmt \<Rightarrow> 'd \<Rightarrow> 'd \<times> (go_error + sql_row list)"
  dbQuery :: "dbtx \<Rightarrow> sql_stmt \<Rightarrow> 'd \<Rightarrow> 'd \<times> (go_error + sql_row list \<times> go_error option)"
  dbCommit :: "nat \<Rightarrow> 'd \<Rightarrow> 'd \<times> (go_error + unit)"
  dbRollback :: "nat \<Rightarrow> 'd \<Rightarrow> 'd \<times> (go_error + unit)"

text \<open>\<^verbatim>\<open>RunInTx\<close>: begin, run \<open>fn\<close> in the transaction's context, roll back on an error,
  commit otherwise.\<close>

definition RunInTx :: "'d sql_driver \<Rightarrow> reqctx \<Rightarrow> (reqctx \<Rightarrow> 'd \<Rightarrow> 'd \<times> (go_error + 'a)) \<Rightarrow>
    'd \<Rightarrow> 'd \<times> (go_error + 'a)" where
  "RunInTx D ctx fn d =
     (case dbBeginTx D d of
        (d1, Inl err) \<Rightarrow> (d1, Inl (WrapError ''begin tx'' err))
      | (d1, Inr tx) \<Rightarrow>
          (case fn (WithTx ctx tx) d1 of
             (d2, Inl err) \<Rightarrow> (fst (dbRollback D tx d2), Inl err)
           | (d2, Inr a) \<Rightarrow>
               (case dbCommit D tx d2 of
                  (d3, Inl err) \<Rightarrow> (d3, Inl (WrapError ''commit tx'' err))
                | (d3, Inr _) \<Rightarrow> (d3, Inr a))))"

text \<open>\<^verbatim>\<open>QueryRowContext(...).Scan\<close>: the first row, \<^verbatim>\<open>ErrNoRows\<close> if there is none.\<close>

definition query_row :: "'d sql_driver \<Rightarrow> reqctx \<Rightarrow> sql_stmt \<Rightarrow> 'd \<Rightarrow> 'd \<times> (go_error + sql_row)" where
  "query_row D ctx st d =
     (case dbExec D (Conn ctx) st d of
        (d', Inl err) \<Rightarrow> (d', Inl err)
      | (d', Inr []) \<Rightarrow> (d', Inl ErrNoRows)
      | (d', Inr (r # _)) \<Rightarrow> (d', Inr r))"

definition scan_error :: go_error where
  "scan_error = LibError ''sql: Scan error''"

section \<open>What the program relies on\<close>

locale sql_engine =
  fixes D :: "'d sql_driver"
    and inv :: "'d \<Rightarrow> bool"
    and committed :: "'d \<Rightarrow> tables"
    and tx_view :: "'d \<Rightarrow> nat \<Rightarrow> tables option"
  assumes committed_schema: "inv d \<Longrightarrow> schema_ok (committed d)"
    and tx_schema: "inv d \<Longrightarrow> tx_view d x = Some T \<Longrightarrow> schema_ok T"
    and exec_inv: "inv d \<Longrightarrow> dbExec D h st d = (d', r) \<Longrightarrow> inv d'"
    and exec_error: "inv d \<Longrightarrow> dbExec D h st d = (d', Inl e) \<Longrightarrow> \<exists>m. e = LibError m"
    and exec_pool_ok: "inv d \<Longrightarrow> dbExec D PoolConn st d = (d', Inr rows) \<Longrightarrow>
          sql_effect st (committed d) (committed d') rows"
    and exec_pool_error: "inv d \<Longrightarrow> dbExec D PoolConn st d = (d', Inl e) \<Longrightarrow>
          committed d' = committed d \<or> (\<exists>rows. sql_effect st (committed d) (committed d') rows)"
    and exec_tx_committed: "inv d \<Longrightarrow> dbExec D (TxConn x) st d = (d', r) \<Longrightarrow> committed d' = committed d"
    and exec_tx_ok: "inv d \<Longrightarrow> dbExec D (TxConn x) st d = (d', Inr rows) \<Longrightarrow> tx_view d x = Some T \<Longrightarrow>
          \<exists>T'. tx_view d' x = Some T' \<and> sql_effect st T T' rows"
    and query_inv: "inv d \<Longrightarrow> dbQuery D h st d = (d', qr) \<Longrightarrow> inv d'"
    and query_error: "inv d \<Longrightarrow> dbQuery D h st d = (d', Inl e) \<Longrightarrow> \<exists>m. e = LibError m"
    and query_rows_error: "inv d \<Longrightarrow> dbQuery D h st d = (d', Inr (rows, Some e)) \<Longrightarrow> \<exists>m. e = LibError m"
    and query_pool_ok: "inv d \<Longrightarrow> dbQuery D PoolConn st d = (d', Inr (rows, err)) \<Longrightarrow>
          \<exists>rest. sql_effect st (committed d) (committed d') (rows @ rest) \<and> (err = None \<longrightarrow> rest = [])"
    and query_pool_error: "inv d \<Longrightarrow> dbQuery D PoolConn st d = (d', Inl e) \<Longrightarrow>
          committed d' = committed d \<or> (\<exists>rows. sql_effect st (committed d) (committed d') rows)"
    and begin_ok: "inv d \<Longrightarrow> dbBeginTx D d = (d', Inr x) \<Longrightarrow>
          inv d' \<and> committed d' = committed d \<and> tx_view d' x = Some (committed d)"
    and begin_error: "inv d \<Longrightarrow> dbBeginTx D d = (d', Inl e) \<Longrightarrow>
          inv d' \<and> committed d' = committed d \<and> (\<exists>m. e = LibError m)"
    and commit_ok: "inv d \<Longrightarrow> dbCommit D x d = (d', Inr u) \<Longrightarrow> tx_view d x = Some T \<Longrightarrow>
          inv d' \<and> committed d' = T"
    and commit_error: "inv d \<Longrightarrow> dbCommit D x d = (d', Inl e) \<Longrightarrow> tx_view d x = Some T \<Longrightarrow>
          inv d' \<and> (committed d' = committed d \<or> committed d' = T) \<and> (\<exists>m. e = LibError m)"
    and rollback_any: "inv d \<Longrightarrow> dbRollback D x d = (d', q) \<Longrightarrow> inv d' \<and> committed d' = committed d"
begin

text \<open>A statement that only reads leaves the committed tables alone, failed or not.\<close>

lemma pool_read:
  assumes "inv d" "dbExec D PoolConn st d = (d', r)"
    and "\<And>T T' rows. sql_effect st T T' rows \<Longrightarrow> T' = T"
  shows "inv d' \<and> committed d' = committed d"
proof (cases r)
  case (Inl e)
  then show ?thesis using exec_pool_error [of d st d' e] exec_inv assms by blast
next
  case (Inr rows)
  then show ?thesis using exec_pool_ok exec_inv assms by blast
qed

lemma pool_query_read:
  assumes "inv d" "dbQuery D PoolConn st d = (d', r)"
    and "\<And>T T' rows. sql_effect st T T' rows \<Longrightarrow> T' = T"
  shows "inv d' \<and> committed d' = committed d"
proof (cases r)
  case (Inl e)
  then show ?thesis using query_pool_error [of d st d' e] query_inv assms by blast
next
  case (Inr p)
  then show ?thesis using query_pool_ok [of d st d' "fst p" "snd p"] query_inv assms by fastforce
qed

text \<open>Reading one row through the pool, in the three ways it can end.\<close>

lemma query_row_pool:
  assumes "inv d" "query_row D background st d = (d', r)"
    and "\<And>T T' rows. sql_effect st T T' rows \<Longrightarrow> T' = T"
  shows "inv d' \<and> committed d' = committed d
    \<and> (case r of
         Inl e \<Rightarrow> (\<exists>m. e = LibError m) \<or> (e = ErrNoRows \<and> sql_effect st (committed d) (committed d) [])
       | Inr row \<Rightarrow> \<exists>rest. sql_effect st (committed d) (committed d) (row # rest))"
proof -
  obtain d1 q where q: "dbExec D PoolConn st d = (d1, q)" by fastforce
  have rd: "inv d1 \<and> committed d1 = committed d"
    using pool_read [OF assms(1) q] assms(3) by blast
  show ?thesis
  proof (cases q)
    case (Inl e)
    then show ?thesis using assms(2) q rd exec_error [OF assms(1), of PoolConn st d1 e]
      by (auto simp: query_row_def)
  next
    case (Inr rows)
    then have "sql_effect st (committed d) (committed d1) rows"
      using exec_pool_ok [OF assms(1)] q by simp
    then show ?thesis using assms(2) q rd Inr
      by (cases rows) (auto simp: query_row_def)
  qed
qed

lemma query_row_tx:
  assumes "inv d" "query_row D (WithTx ctx x) st d = (d', r)" "tx_view d x = Some T"
  shows "inv d' \<and> committed d' = committed d
    \<and> (case r of
         Inl e \<Rightarrow> (\<exists>m. e = LibError m) \<or> (e = ErrNoRows \<and> (\<exists>T'. sql_effect st T T' []))
       | Inr row \<Rightarrow> \<exists>T' rest. tx_view d' x = Some T' \<and> sql_effect st T T' (row # rest))"
proof -
  obtain d1 q where q: "dbExec D (TxConn x) st d = (d1, q)" by fastforce
  note common = exec_inv [OF assms(1) q] exec_tx_committed [OF assms(1) q]
  show ?thesis
  proof (cases q)
    case (Inl e)
    then show ?thesis using assms(2) q common exec_error [OF assms(1), of "TxConn x" st d1 e]
      by (auto simp: query_row_def)
  next
    case (Inr rows)
    then obtain T' where "tx_view d1 x = Some T'" "sql_effect st T T' rows"
      using exec_tx_ok [OF assms(1) _ assms(3)] q by blast
    then show ?thesis using assms(2) q common Inr
      by (cases rows) (auto simp: query_row_def simp del: sql_effect.simps)
  qed
qed

lemma exec_tx:
  assumes "inv d" "dbExec D (TxConn x) st d = (d', r)" "tx_view d x = Some T"
  shows "inv d' \<and> committed d' = committed d
    \<and> (case r of
         Inl e \<Rightarrow> \<exists>m. e = LibError m
       | Inr rows \<Rightarrow> \<exists>T'. tx_view d' x = Some T' \<and> sql_effect st T T' rows)"
  using exec_inv [OF assms(1,2)] exec_tx_committed [OF assms(1,2)] exec_error [OF assms(1)]
    exec_tx_ok [OF assms(1) _ assms(3)] assms(2)
  by (cases r) fastforce+

text \<open>
  The transaction helper: whatever \<open>fn\<close> does, the committed tables are the old ones or those the
  transaction had built, and on success they are the latter.
\<close>

lemma RunInTx_cases:
  assumes inv: "inv d" and run: "RunInTx D ctx fn d = (d', r)"
    and fn: "\<And>x d1 d2 r. inv d1 \<Longrightarrow> fn (WithTx ctx x) d1 = (d2, r) \<Longrightarrow> tx_view d1 x = Some (committed d) \<Longrightarrow>
      inv d2 \<and> committed d2 = committed d1
      \<and> (case r of Inl e \<Rightarrow> E e | Inr a \<Rightarrow> \<exists>T. tx_view d2 x = Some T \<and> Q (committed d) T a)"
  shows "inv d' \<and> (case r of
      Inl e \<Rightarrow>
        (committed d' = committed d
           \<and> (E e \<or> (\<exists>t m. t \<in> {''begin tx'', ''commit tx''} \<and> e = WrapError t (LibError m))))
        \<or> (\<exists>a m. Q (committed d) (committed d') a \<and> e = WrapError ''commit tx'' (LibError m))
    | Inr a \<Rightarrow> Q (committed d) (committed d') a)"
proof -
  obtain d1 b where b: "dbBeginTx D d = (d1, b)" by fastforce
  show ?thesis
  proof (cases b)
    case (Inl e)
    then show ?thesis using run b begin_error [OF inv] by (auto simp: RunInTx_def)
  next
    case (Inr x)
    with begin_ok [OF inv] b have d1: "inv d1" "committed d1 = committed d" "tx_view d1 x = Some (committed d)"
      by auto
    obtain d2 q where q: "fn (WithTx ctx x) d1 = (d2, q)" by fastforce
    note fn' = fn [OF d1(1) q d1(3)]
    show ?thesis
    proof (cases q)
      case (Inl e)
      obtain d3 u where "dbRollback D x d2 = (d3, u)" by fastforce
      then show ?thesis
        using run b Inr q Inl fn' d1 rollback_any [of d2 x d3 u] by (auto simp: RunInTx_def)
    next
      case (Inr a)
      with fn' obtain T where T: "tx_view d2 x = Some T" "Q (committed d) T a" and d2: "inv d2"
        "committed d2 = committed d" using d1 by auto
      obtain d3 u where u: "dbCommit D x d2 = (d3, u)" by fastforce
      then show ?thesis
        using run b \<open>b = Inr x\<close> q Inr T d2 commit_ok [OF d2(1) _ T(1)] commit_error [OF d2(1) _ T(1)]
        by (cases u) (fastforce simp: RunInTx_def)+
    qed
  qed
qed

end

end
