(* ===== verification/Pg_Repos.thy ===== *)
theory Pg_Repos
  imports Sql Repositories
begin

text \<open>
  The PostgreSQL repositories: \<^verbatim>\<open>PgUserRepo\<close> and \<^verbatim>\<open>PgTaskRepo\<close> of
  \<^verbatim>\<open>internal/database/postgres.go\<close>, \<^verbatim>\<open>PgAccountRepo\<close> and
  \<^verbatim>\<open>PgTransferRepo\<close> of \<^verbatim>\<open>banking_postgres.go\<close>.  Each method picks the
  executor from its context with \<^verbatim>\<open>Conn\<close>, runs one statement and scans the result.
  On any driver that meets \<open>sql_engine\<close> they meet the repository contracts.
\<close>

section \<open>PgUserRepo\<close>

definition PgUserRepo_Create :: "'d sql_driver \<Rightarrow> reqctx \<Rightarrow> user \<Rightarrow> 'd \<Rightarrow> 'd \<times> (go_error + user)" where
  "PgUserRepo_Create D ctx u d =
     (case query_row D ctx (InsertUser (uEmail u) (uName u) (uPassword u)) d of
        (d', Inl err) \<Rightarrow> (d', Inl err)
      | (d', Inr (KeyTimesRow i created updated)) \<Rightarrow>
          (d', Inr (u\<lparr>uID := i, uCreatedAt := created, uUpdatedAt := updated\<rparr>))
      | (d', Inr _) \<Rightarrow> (d', Inl scan_error))"

definition scan_user :: "'d \<times> (go_error + sql_row) \<Rightarrow> 'd \<times> (go_error + user)" where
  "scan_user q =
     (case q of
        (d', Inl err) \<Rightarrow> (d', Inl err)
      | (d', Inr (UserRow u)) \<Rightarrow> (d', Inr u)
      | (d', Inr _) \<Rightarrow> (d', Inl scan_error))"

definition PgUserRepo_GetByID :: "'d sql_driver \<Rightarrow> reqctx \<Rightarrow> int64 \<Rightarrow> 'd \<Rightarrow> 'd \<times> (go_error + user)" where
  "PgUserRepo_GetByID D ctx i d = scan_user (query_row D ctx (SelectUserByID i) d)"

definition PgUserRepo_GetByEmail :: "'d sql_driver \<Rightarrow> reqctx \<Rightarrow> string \<Rightarrow> 'd \<Rightarrow> 'd \<times> (go_error + user)" where
  "PgUserRepo_GetByEmail D ctx email d = scan_user (query_row D ctx (SelectUserByEmail email) d)"

definition PgUserRepo_Update :: "'d sql_driver \<Rightarrow> reqctx \<Rightarrow> user \<Rightarrow> 'd \<Rightarrow> 'd \<times> (go_error + user)" where
  "PgUserRepo_Update D ctx u d =
     (case dbExec D (Conn ctx) (UpdateUserRow (uEmail u) (uName u) (uPassword u) (uID u)) d of
        (d', Inl err) \<Rightarrow> (d', Inl err)
      | (d', Inr _) \<Rightarrow> (d', Inr u))"

definition PgUserRepo_Delete :: "'d sql_driver \<Rightarrow> reqctx \<Rightarrow> int64 \<Rightarrow> 'd \<Rightarrow> 'd \<times> (go_error + unit)" where
  "PgUserRepo_Delete D ctx i d =
     (case dbExec D (Conn ctx) (DeleteUserRow i) d of
        (d', Inl err) \<Rightarrow> (d', Inl err)
      | (d', Inr _) \<Rightarrow> (d', Inr ()))"

definition PgUserRepo :: "'d sql_driver \<Rightarrow> (reqctx, 'd) user_repository" where
  "PgUserRepo D = \<lparr>userCreate = PgUserRepo_Create D, userGetByID = PgUserRepo_GetByID D,
     userGetByEmail = PgUserRepo_GetByEmail D, userUpdate = PgUserRepo_Update D,
     userDelete = PgUserRepo_Delete D\<rparr>"

lemma PgUserRepo_sel [simp]:
  "userCreate (PgUserRepo D) = PgUserRepo_Create D"
  "userGetByID (PgUserRepo D) = PgUserRepo_GetByID D"
  "userGetByEmail (PgUserRepo D) = PgUserRepo_GetByEmail D"
  "userUpdate (PgUserRepo D) = PgUserRepo_Update D"
  "userDelete (PgUserRepo D) = PgUserRepo_Delete D"
  by (simp_all add: PgUserRepo_def)

section \<open>PgTaskRepo\<close>

definition PgTaskRepo_Create :: "'d sql_driver \<Rightarrow> reqctx \<Rightarrow> task \<Rightarrow> 'd \<Rightarrow> 'd \<times> (go_error + task)" where
  "PgTaskRepo_Create D ctx t d =
     (case query_row D ctx (InsertTask (tUserID t) (tTitle t) (tDescription t) (tStatus t)) d of
        (d', Inl err) \<Rightarrow> (d', Inl err)
      | (d', Inr (KeyTimesRow i created updated)) \<Rightarrow>
          (d', Inr (t\<lparr>tID := i, tCreatedAt := created, tUpdatedAt := updated\<rparr>))
      | (d', Inr _) \<Rightarrow> (d', Inl scan_error))"

definition PgTaskRepo_GetByID :: "'d sql_driver \<Rightarrow> reqctx \<Rightarrow> int64 \<Rightarrow> 'd \<Rightarrow> 'd \<times> (go_error + task)" where
  "PgTaskRepo_GetByID D ctx i d =
     (case query_row D ctx (SelectTaskByID i) d of
        (d', Inl err) \<Rightarrow> (d', Inl err)
      | (d', Inr (TaskRow t)) \<Rightarrow> (d', Inr t)
      | (d', Inr _) \<Rightarrow> (d', Inl scan_error))"

text \<open>The scanning loops: \<^verbatim>\<open>nil\<close> and the error at the first row that does not scan.\<close>

fun scan_tasks :: "sql_row list \<Rightarrow> go_error + task list" where
  "scan_tasks [] = Inr []"
| "scan_tasks (TaskRow t # rows) =
     (case scan_tasks rows of Inl err \<Rightarrow> Inl err | Inr ts \<Rightarrow> Inr (t # ts))"
| "scan_tasks (_ # rows) = Inl scan_error"

text \<open>\<^verbatim>\<open>return tasks, rows.Err()\<close>: callers look at the tasks only when the error is nil.\<close>

definition PgTaskRepo_ListByUser :: "'d sql_driver \<Rightarrow> reqctx \<Rightarrow> int64 \<Rightarrow> 'd \<Rightarrow> 'd \<times> (go_error + task list)" where
  "PgTaskRepo_ListByUser D ctx uid d =
     (case dbQuery D (Conn ctx) (SelectTasksByUser uid) d of
        (d', Inl err) \<Rightarrow> (d', Inl err)
      | (d', Inr (rows, rows_err)) \<Rightarrow>
          (case scan_tasks rows of
             Inl err \<Rightarrow> (d', Inl err)
           | Inr tasks \<Rightarrow> (case rows_err of None \<Rightarrow> (d', Inr tasks) | Some err \<Rightarrow> (d', Inl err))))"

definition PgTaskRepo_Update :: "'d sql_driver \<Rightarrow> reqctx \<Rightarrow> task \<Rightarrow> 'd \<Rightarrow> 'd \<times> (go_error + task)" where
  "PgTaskRepo_Update D ctx t d =
     (case dbExec D (Conn ctx) (UpdateTaskRow (tTitle t) (tDescription t) (tStatus t) (tID t)) d of
        (d', Inl err) \<Rightarrow> (d', Inl err)
      | (d', Inr _) \<Rightarrow> (d', Inr t))"

definition PgTaskRepo_Delete :: "'d sql_driver \<Rightarrow> reqctx \<Rightarrow> int64 \<Rightarrow> 'd \<Rightarrow> 'd \<times> (go_error + unit)" where
  "PgTaskRepo_Delete D ctx i d =
     (case dbExec D (Conn ctx) (DeleteTaskRow i) d of
        (d', Inl err) \<Rightarrow> (d', Inl err)
      | (d', Inr _) \<Rightarrow> (d', Inr ()))"

definition PgTaskRepo :: "'d sql_driver \<Rightarrow> (reqctx, 'd) task_repository" where
  "PgTaskRepo D = \<lparr>taskCreate = PgTaskRepo_Create D, taskGetByID = PgTaskRepo_GetByID D,
     taskListByUser = PgTaskRepo_ListByUser D, taskUpdate = PgTaskRepo_Update D,
     taskDelete = PgTaskRepo_Delete D\<rparr>"

lemma PgTaskRepo_sel [simp]:
  "taskCreate (PgTaskRepo D) = PgTaskRepo_Create D"
  "taskGetByID (PgTaskRepo D) = PgTaskRepo_GetByID D"
  "taskListByUser (PgTaskRepo D) = PgTaskRepo_ListByUser D"
  "taskUpdate (PgTaskRepo D) = PgTaskRepo_Update D"
  "taskDelete (PgTaskRepo D) = PgTaskRepo_Delete D"
  by (simp_all add: PgTaskRepo_def)

section \<open>PgAccountRepo\<close>

definition PgAccountRepo_Create :: "'d sql_driver \<Rightarrow> reqctx \<Rightarrow> account \<Rightarrow> 'd \<Rightarrow> 'd \<times> (go_error + account)" where
  "PgAccountRepo_Create D ctx acc d =
     (case query_row D ctx (InsertAccount (aUserID acc) (aCurrency acc) (aBalance acc)) d of
        (d', Inl err) \<Rightarrow> (d', Inl err)
      | (d', Inr (KeyTimesRow i created updated)) \<Rightarrow>
          (d', Inr (acc\<lparr>aID := i, aCreatedAt := created, aUpdatedAt := updated\<rparr>))
      | (d', Inr _) \<Rightarrow> (d', Inl scan_error))"

definition PgAccountRepo_GetByID :: "'d sql_driver \<Rightarrow> reqctx \<Rightarrow> int64 \<Rightarrow> 'd \<Rightarrow> 'd \<times> (go_error + account)" where
  "PgAccountRepo_GetByID D ctx i d =
     (case query_row D ctx (SelectAccountByID i) d of
        (d', Inl err) \<Rightarrow> (d', Inl err)
      | (d', Inr (AccountRow a)) \<Rightarrow> (d', Inr a)
      | (d', Inr _) \<Rightarrow> (d', Inl scan_error))"

fun scan_accounts :: "sql_row list \<Rightarrow> go_error + account list" where
  "scan_accounts [] = Inr []"
| "scan_accounts (AccountRow a # rows) =
     (case scan_accounts rows of Inl err \<Rightarrow> Inl err | Inr accs \<Rightarrow> Inr (a # accs))"
| "scan_accounts (_ # rows) = Inl scan_error"

text \<open>\<^verbatim>\<open>return accounts, nil\<close>: the error of the row iteration is not looked at.\<close>

definition PgAccountRepo_GetByUserID :: "'d sql_driver \<Rightarrow> reqctx \<Rightarrow> int64 \<Rightarrow> 'd \<Rightarrow> 'd \<times> (go_error + account list)" where
  "PgAccountRepo_GetByUserID D ctx uid d =
     (case dbQuery D (Conn ctx) (SelectAccountsByUser uid) d of
        (d', Inl err) \<Rightarrow> (d', Inl err)
      | (d', Inr (rows, rows_err)) \<Rightarrow> (d', scan_accounts rows))"

definition PgAccountRepo_UpdateBalance :: "'d sql_driver \<Rightarrow> reqctx \<Rightarrow> int64 \<Rightarrow> int64 \<Rightarrow> 'd \<Rightarrow> 'd \<times> (go_error + unit)" where
  "PgAccountRepo_UpdateBalance D ctx i amount d =
     (case dbExec D (Conn ctx) (AddToBalance amount i) d of
        (d', Inl err) \<Rightarrow> (d', Inl err)
      | (d', Inr _) \<Rightarrow> (d', Inr ()))"

definition PgAccountRepo :: "'d sql_driver \<Rightarrow> (reqctx, 'd) account_repository" where
  "PgAccountRepo D = \<lparr>accountCreate = PgAccountRepo_Create D, accountGetByID = PgAccountRepo_GetByID D,
     accountGetByUserID = PgAccountRepo_GetByUserID D,
     accountUpdateBalance = PgAccountRepo_UpdateBalance D\<rparr>"

lemma PgAccountRepo_sel [simp]:
  "accountCreate (PgAccountRepo D) = PgAccountRepo_Create D"
  "accountGetByID (PgAccountRepo D) = PgAccountRepo_GetByID D"
  "accountGetByUserID (PgAccountRepo D) = PgAccountRepo_GetByUserID D"
  "accountUpdateBalance (PgAccountRepo D) = PgAccountRepo_UpdateBalance D"
  by (simp_all add: PgAccountRepo_def)

section \<open>PgTransferRepo\<close>

definition PgTransferRepo_Create :: "'d sql_driver \<Rightarrow> reqctx \<Rightarrow> transfer \<Rightarrow> 'd \<Rightarrow> 'd \<times> (go_error + transfer)" where
  "PgTransferRepo_Create D ctx tr d =
     (case query_row D ctx (InsertTransfer (trSenderAccountID tr) (trReceiverAccountID tr) (trAmount tr)
              (trCurrency tr) (trDescription tr)) d of
        (d', Inl err) \<Rightarrow> (d', Inl err)
      | (d', Inr (KeyTimeRow i created)) \<Rightarrow> (d', Inr (tr\<lparr>trID := i, trCreatedAt := created\<rparr>))
      | (d', Inr _) \<Rightarrow> (d', Inl scan_error))"

fun scan_transfers :: "sql_row list \<Rightarrow> go_error + transfer list" where
  "scan_transfers [] = Inr []"
| "scan_transfers (TransferRow tr # rows) =
     (case scan_transfers rows of Inl err \<Rightarrow> Inl err | Inr trs \<Rightarrow> Inr (tr # trs))"
| "scan_transfers (_ # rows) = Inl scan_error"

definition PgTransferRepo_GetByAccountID :: "'d sql_driver \<Rightarrow> reqctx \<Rightarrow> int64 \<Rightarrow> 'd \<Rightarrow> 'd \<times> (go_error + transfer list)" where
  "PgTransferRepo_GetByAccountID D ctx i d =
     (case dbQuery D (Conn ctx) (SelectTransfersByAccount i) d of
        (d', Inl err) \<Rightarrow> (d', Inl err)
      | (d', Inr (rows, rows_err)) \<Rightarrow> (d', scan_transfers rows))"

definition PgTransferRepo :: "'d sql_driver \<Rightarrow> (reqctx, 'd) transfer_repository" where
  "PgTransferRepo D = \<lparr>transferCreate = PgTransferRepo_Create D,
     transferGetByAccountID = PgTransferRepo_GetByAccountID D\<rparr>"

lemma PgTransferRepo_sel [simp]:
  "transferCreate (PgTransferRepo D) = PgTransferRepo_Create D"
  "transferGetByAccountID (PgTransferRepo D) = PgTransferRepo_GetByAccountID D"
  by (simp_all add: PgTransferRepo_def)

section \<open>What the inserts and the scans give\<close>

lemma insert_user_effect:
  assumes "sql_effect (InsertUser (uEmail u) (uName u) (uPassword u)) T T' rows"
  shows "\<exists>u'. same_user_input u u' \<and> rows = [KeyTimesRow (uID u') (uCreatedAt u') (uUpdatedAt u')]
    \<and> 0 < sint (uID u') \<and> tbUsers T (uID u') = None
    \<and> (\<forall>v \<in> ran (tbUsers T). uEmail v \<noteq> uEmail u) \<and> tbUsers T' = (tbUsers T)(uID u' \<mapsto> u')"
proof -
  from assms obtain i t where
    "rows = [KeyTimesRow i t t]" "0 < sint i" "tbUsers T i = None"
    "\<forall>v \<in> ran (tbUsers T). uEmail v \<noteq> uEmail u"
    "tbUsers T' = (tbUsers T)(i \<mapsto> \<lparr>uID = i, uEmail = uEmail u, uName = uName u, uPassword = uPassword u,
       uCreatedAt = t, uUpdatedAt = t\<rparr>)" by auto
  then show ?thesis
    by (intro exI [of _ "\<lparr>uID = i, uEmail = uEmail u, uName = uName u, uPassword = uPassword u,
       uCreatedAt = t, uUpdatedAt = t\<rparr>"]) (simp add: same_user_input_def)
qed

lemma same_user_input_fill:
  "same_user_input u u' \<Longrightarrow> u\<lparr>uID := uID u', uCreatedAt := uCreatedAt u', uUpdatedAt := uUpdatedAt u'\<rparr> = u'"
  by (cases u, cases u') (simp add: same_user_input_def)

lemma insert_task_effect:
  assumes "sql_effect (InsertTask (tUserID t) (tTitle t) (tDescription t) (tStatus t)) T T' rows"
  shows "\<exists>t'. same_task_input t t' \<and> rows = [KeyTimesRow (tID t') (tCreatedAt t') (tUpdatedAt t')]
    \<and> 0 < sint (tID t') \<and> tbTasks T (tID t') = None
    \<and> tbUsers T' = tbUsers T \<and> tbTasks T' = (tbTasks T)(tID t' \<mapsto> t')"
proof -
  from assms obtain i c where
    "rows = [KeyTimesRow i c c]" "0 < sint i" "tbTasks T i = None" "tbUsers T' = tbUsers T"
    "tbTasks T' = (tbTasks T)(i \<mapsto> \<lparr>tID = i, tUserID = tUserID t, tTitle = tTitle t,
       tDescription = tDescription t, tStatus = tStatus t, tCreatedAt = c, tUpdatedAt = c\<rparr>)" by auto
  then show ?thesis
    by (intro exI [of _ "\<lparr>tID = i, tUserID = tUserID t, tTitle = tTitle t,
       tDescription = tDescription t, tStatus = tStatus t, tCreatedAt = c, tUpdatedAt = c\<rparr>"])
      (simp add: same_task_input_def)
qed

lemma same_task_input_fill:
  "same_task_input t t' \<Longrightarrow> t\<lparr>tID := tID t', tCreatedAt := tCreatedAt t', tUpdatedAt := tUpdatedAt t'\<rparr> = t'"
  by (cases t, cases t') (simp add: same_task_input_def)

lemma scan_tasks_TaskRow [simp]: "scan_tasks (map TaskRow ts) = Inr ts"
  by (induction ts) auto

lemma scan_tasks_untyped: "scan_tasks rows = Inl e \<Longrightarrow> untyped e"
  by (induction rows rule: scan_tasks.induct) (auto simp: scan_error_def split: sum.splits)

lemma same_task_input_owner: "same_task_input (t\<lparr>tUserID := a\<rparr>) new \<Longrightarrow> tUserID new = a"
  by (simp add: same_task_input_def)

lemma same_task_input_own: "same_task_input (t\<lparr>tUserID := a\<rparr>) new \<Longrightarrow> same_task_input (t\<lparr>tUserID := tUserID new\<rparr>) new"
  by (simp add: same_task_input_def)

lemma same_task_input_refl [simp]: "same_task_input t t"
  by (simp add: same_task_input_def)

section \<open>The contracts hold on any engine\<close>

context sql_engine
begin

lemma pg_getByID:
  assumes "inv d" "PgUserRepo_GetByID D background i d = (d', r)"
  shows "inv d' \<and> committed d' = committed d \<and>
    (case r of Inl e \<Rightarrow> untyped e \<and> (is_fault e \<or> tbUsers (committed d) i = None)
     | Inr u \<Rightarrow> tbUsers (committed d) i = Some u)"
proof -
  obtain d1 q where q: "query_row D background (SelectUserByID i) d = (d1, q)" by fastforce
  from query_row_pool [OF assms(1) q] assms(2) q show ?thesis
    by (auto simp: PgUserRepo_GetByID_def scan_user_def is_fault_def scan_error_def
        split: sum.splits option.splits sql_row.splits)
qed

lemma pg_getByEmail:
  assumes "inv d" "PgUserRepo_GetByEmail D background email d = (d', r)"
  shows "inv d' \<and> committed d' = committed d \<and>
    (case r of Inl e \<Rightarrow> untyped e \<and> (is_fault e \<or> (\<forall>u \<in> ran (tbUsers (committed d)). uEmail u \<noteq> email))
     | Inr u \<Rightarrow> tbUsers (committed d) (uID u) = Some u \<and> uEmail u = email)"
proof -
  obtain d1 q where q: "query_row D background (SelectUserByEmail email) d = (d1, q)" by fastforce
  have key: "u \<in> ran (tbUsers (committed d)) \<Longrightarrow> tbUsers (committed d) (uID u) = Some u" for u
    using committed_schema [OF assms(1)] by (auto simp: ran_def dest: schema_uID)
  from query_row_pool [OF assms(1) q] assms(2) q show ?thesis
    by (auto simp: PgUserRepo_GetByEmail_def scan_user_def is_fault_def scan_error_def Cons_eq_map_conv
        split: sum.splits sql_row.splits intro: key)
qed

text \<open>A write through the pool: done on success; done or not done after a fault.\<close>

lemma pool_write:
  assumes "inv d" "dbExec D PoolConn st d = (d', r)"
  shows "inv d' \<and>
    (case r of
       Inl e \<Rightarrow> is_fault e \<and> (committed d' = committed d \<or> (\<exists>rows. sql_effect st (committed d) (committed d') rows))
     | Inr rows \<Rightarrow> sql_effect st (committed d) (committed d') rows)"
  using exec_inv [OF assms] exec_error [OF assms(1)] exec_pool_error [OF assms(1)]
    exec_pool_ok [OF assms(1)] assms(2)
  by (cases r) (fastforce simp: is_fault_def)+

lemma query_row_write:
  assumes "inv d" "query_row D background st d = (d', r)"
  shows "inv d' \<and>
    (case r of
       Inl e \<Rightarrow> (is_fault e \<and> (committed d' = committed d
                   \<or> (\<exists>rows. sql_effect st (committed d) (committed d') rows)))
              \<or> (e = ErrNoRows \<and> sql_effect st (committed d) (committed d') [])
     | Inr row \<Rightarrow> \<exists>rest. sql_effect st (committed d) (committed d') (row # rest))"
proof -
  obtain d1 q where q: "dbExec D PoolConn st d = (d1, q)" by fastforce
  from pool_write [OF assms(1) q] assms(2) q show ?thesis
    by (auto simp: query_row_def split: sum.splits list.splits)
qed

lemma pg_createUser:
  assumes "inv d" "PgUserRepo_Create D background u d = (d', r)"
  shows "inv d' \<and>
    (case r of
       Inl e \<Rightarrow> untyped e \<and> (tbUsers (committed d') = tbUsers (committed d)
         \<or> (\<exists>u'. same_user_input u u' \<and> tbUsers (committed d) (uID u') = None
               \<and> tbUsers (committed d') = (tbUsers (committed d))(uID u' \<mapsto> u')))
     | Inr u' \<Rightarrow> same_user_input u u' \<and> 0 < sint (uID u') \<and> tbUsers (committed d) (uID u') = None
         \<and> (\<forall>v \<in> ran (tbUsers (committed d)). uEmail v \<noteq> uEmail u)
         \<and> tbUsers (committed d') = (tbUsers (committed d))(uID u' \<mapsto> u'))"
proof -
  obtain d1 q where q: "query_row D background (InsertUser (uEmail u) (uName u) (uPassword u)) d = (d1, q)"
    by fastforce
  show ?thesis
  proof (cases q)
    case (Inl e)
    then show ?thesis using query_row_write [OF assms(1) q] assms(2) q
      by (auto simp: PgUserRepo_Create_def is_fault_untyped simp del: sql_effect.simps
          dest!: insert_user_effect)
  next
    case (Inr row)
    then obtain rest where "inv d1"
      "sql_effect (InsertUser (uEmail u) (uName u) (uPassword u)) (committed d) (committed d1) (row # rest)"
      using query_row_write [OF assms(1) q] by (auto simp del: sql_effect.simps)
    with insert_user_effect [OF this(2)] assms(2) q Inr show ?thesis
      by (auto simp: PgUserRepo_Create_def same_user_input_fill simp del: sql_effect.simps)
  qed
qed

lemma pg_updateUser:
  assumes "inv d" "PgUserRepo_Update D background u d = (d', r)"
  shows "inv d' \<and>
    (let updated = (case tbUsers (committed d) (uID u) of
             None \<Rightarrow> tbUsers (committed d') = tbUsers (committed d)
           | Some old \<Rightarrow> \<exists>new. tbUsers (committed d') = (tbUsers (committed d))(uID u \<mapsto> new)
               \<and> same_user_input u new)
     in case r of Inl e \<Rightarrow> untyped e \<and> (tbUsers (committed d') = tbUsers (committed d) \<or> updated)
        | Inr u' \<Rightarrow> updated)"
proof -
  obtain d1 q where q: "dbExec D PoolConn (UpdateUserRow (uEmail u) (uName u) (uPassword u) (uID u)) d = (d1, q)"
    by fastforce
  from pool_write [OF assms(1) q] assms(2) q show ?thesis
    by (auto simp: PgUserRepo_Update_def Let_def same_user_input_def is_fault_untyped
        split: sum.splits option.splits)
qed

lemma pg_deleteUser:
  assumes "inv d" "PgUserRepo_Delete D background i d = (d', r)"
  shows "inv d' \<and>
    (case r of
       Inl e \<Rightarrow> untyped e \<and> (tbUsers (committed d') = tbUsers (committed d)
         \<or> tbUsers (committed d') = (tbUsers (committed d))(i := None))
     | Inr _ \<Rightarrow> tbUsers (committed d') = (tbUsers (committed d))(i := None))"
proof -
  obtain d1 q where q: "dbExec D PoolConn (DeleteUserRow i) d = (d1, q)" by fastforce
  from pool_write [OF assms(1) q] assms(2) q show ?thesis
    by (auto simp: PgUserRepo_Delete_def Let_def is_fault_untyped split: sum.splits)
qed

lemma pg_user_reads: "user_reads (PgUserRepo D) background inv (\<lambda>d. tbUsers (committed d))"
  by unfold_locales
    (use committed_schema schema_uID in blast, use pg_getByID in fastforce, use pg_getByID in fastforce,
     use pg_getByID in fastforce)

lemma pg_user_store:
  "user_store (PgUserRepo D) background inv (\<lambda>d. tbUsers (committed d)) (\<lambda>u. u)"
  apply (rule user_store.intro [OF pg_user_reads], unfold_locales)
  subgoal for s email s' r using pg_getByEmail [of s email s' r] by simp
  subgoal for s email s' u using pg_getByEmail [of s email s' "Inr u"] by simp
  subgoal for s email s' e using pg_getByEmail [of s email s' "Inl e"] by simp
  subgoal for s u s' r using pg_createUser [of s u s' r] by simp
  subgoal for s u s' u' using pg_createUser [of s u s' "Inr u'"] by simp
  subgoal for s u s' e using pg_createUser [of s u s' "Inl e"] by simp
  subgoal for s u s' q using pg_updateUser [of s u s' q] by simp
  subgoal for s u s' u' using pg_updateUser [of s u s' "Inr u'"] by (simp add: Let_def)
  subgoal for s u s' e using pg_updateUser [of s u s' "Inl e"] by (auto simp: Let_def split: option.splits)
  subgoal for s i s' d using pg_deleteUser [of s i s' d] by simp
  subgoal for s i s' v using pg_deleteUser [of s i s' "Inr v"] by simp
  subgoal for s i s' e using pg_deleteUser [of s i s' "Inl e"] by simp
  done

lemma pg_createTask:
  assumes "inv d" "PgTaskRepo_Create D background t d = (d', r)"
  shows "inv d' \<and> tbUsers (committed d') = tbUsers (committed d) \<and>
    (case r of
       Inl e \<Rightarrow> untyped e \<and> (tbTasks (committed d') = tbTasks (committed d)
         \<or> (\<exists>t'. same_task_input t t' \<and> tbTasks (committed d) (tID t') = None
               \<and> tbTasks (committed d') = (tbTasks (committed d))(tID t' \<mapsto> t')))
     | Inr t' \<Rightarrow> same_task_input t t' \<and> 0 < sint (tID t') \<and> tbTasks (committed d) (tID t') = None
         \<and> tbTasks (committed d') = (tbTasks (committed d))(tID t' \<mapsto> t'))"
proof -
  obtain d1 q where q:
    "query_row D background (InsertTask (tUserID t) (tTitle t) (tDescription t) (tStatus t)) d = (d1, q)"
    by fastforce
  show ?thesis
  proof (cases q)
    case (Inl e)
    then show ?thesis using query_row_write [OF assms(1) q] assms(2) q
      by (auto simp: PgTaskRepo_Create_def is_fault_untyped simp del: sql_effect.simps
          dest!: insert_task_effect)
  next
    case (Inr row)
    then obtain rest where "inv d1"
      "sql_effect (InsertTask (tUserID t) (tTitle t) (tDescription t) (tStatus t))
         (committed d) (committed d1) (row # rest)"
      using query_row_write [OF assms(1) q] by (auto simp del: sql_effect.simps)
    with insert_task_effect [OF this(2)] assms(2) q Inr show ?thesis
      by (auto simp: PgTaskRepo_Create_def same_task_input_fill simp del: sql_effect.simps)
  qed
qed

lemma pg_getTask:
  assumes "inv d" "PgTaskRepo_GetByID D background i d = (d', r)"
  shows "inv d' \<and> committed d' = committed d \<and>
    (case r of Inl e \<Rightarrow> untyped e \<and> (is_fault e \<or> tbTasks (committed d) i = None)
     | Inr t \<Rightarrow> tbTasks (committed d) i = Some t)"
proof -
  obtain d1 q where q: "query_row D background (SelectTaskByID i) d = (d1, q)" by fastforce
  from query_row_pool [OF assms(1) q] assms(2) q show ?thesis
    by (auto simp: PgTaskRepo_GetByID_def is_fault_def scan_error_def
        split: sum.splits option.splits sql_row.splits)
qed

lemma pg_listTasks:
  assumes "inv d" "PgTaskRepo_ListByUser D background uid d = (d', r)"
  shows "inv d' \<and> committed d' = committed d \<and>
    (case r of Inl e \<Rightarrow> untyped e
     | Inr ts \<Rightarrow> distinct ts \<and> newest_first tCreatedAt ts
         \<and> set ts = {t \<in> ran (tbTasks (committed d)). tUserID t = uid})"
proof -
  obtain d1 q where q: "dbQuery D PoolConn (SelectTasksByUser uid) d = (d1, q)" by fastforce
  have frame: "inv d1 \<and> committed d1 = committed d"
    by (rule pool_query_read [OF assms(1) q]) simp
  show ?thesis
  proof (cases q)
    case (Inl e)
    then show ?thesis using assms(2) q frame query_error [OF assms(1)]
      by (fastforce simp: PgTaskRepo_ListByUser_def)
  next
    case (Inr p)
    then obtain rows err where p: "p = (rows, err)" by (cases p)
    show ?thesis
    proof (cases err)
      case None
      then have "sql_effect (SelectTasksByUser uid) (committed d) (committed d1) rows"
        using query_pool_ok [OF assms(1)] q Inr p by fastforce
      then obtain ts where "rows = map TaskRow ts" "distinct ts" "newest_first tCreatedAt ts"
        "set ts = {t \<in> ran (tbTasks (committed d)). tUserID t = uid}"
        by (auto simp: lists_rows_def)
      then show ?thesis using assms(2) q Inr p None frame by (auto simp: PgTaskRepo_ListByUser_def)
    next
      case (Some e)
      then show ?thesis using assms(2) q Inr p frame query_rows_error [OF assms(1)] scan_tasks_untyped
        by (fastforce simp: PgTaskRepo_ListByUser_def split: sum.splits)
    qed
  qed
qed

lemma pg_updateTask:
  assumes "inv d" "PgTaskRepo_Update D background t d = (d', r)"
  shows "inv d' \<and> tbUsers (committed d') = tbUsers (committed d) \<and>
    (let updated = (\<lambda>old. \<exists>new. tbTasks (committed d') = (tbTasks (committed d))(tID t \<mapsto> new)
               \<and> same_task_input (t\<lparr>tUserID := tUserID old\<rparr>) new)
     in case r of
          Inl e \<Rightarrow> untyped e \<and> (tbTasks (committed d') = tbTasks (committed d)
             \<or> (\<exists>old. tbTasks (committed d) (tID t) = Some old \<and> updated old))
        | Inr t' \<Rightarrow> t' = t \<and> (case tbTasks (committed d) (tID t) of
             None \<Rightarrow> tbTasks (committed d') = tbTasks (committed d)
           | Some old \<Rightarrow> updated old))"
proof -
  obtain d1 q where q: "dbExec D PoolConn (UpdateTaskRow (tTitle t) (tDescription t) (tStatus t) (tID t)) d = (d1, q)"
    by fastforce
  from pool_write [OF assms(1) q] assms(2) q show ?thesis
    by (auto simp: PgTaskRepo_Update_def Let_def same_task_input_def is_fault_untyped
        split: sum.splits option.splits)
qed

lemma pg_deleteTask:
  assumes "inv d" "PgTaskRepo_Delete D background i d = (d', r)"
  shows "inv d' \<and> tbUsers (committed d') = tbUsers (committed d) \<and>
    (case r of
       Inl e \<Rightarrow> untyped e \<and> (tbTasks (committed d') = tbTasks (committed d)
         \<or> tbTasks (committed d') = (tbTasks (committed d))(i := None))
     | Inr _ \<Rightarrow> tbTasks (committed d') = (tbTasks (committed d))(i := None))"
proof -
  obtain d1 q where q: "dbExec D PoolConn (DeleteTaskRow i) d = (d1, q)" by fastforce
  from pool_write [OF assms(1) q] assms(2) q show ?thesis
    by (auto simp: PgTaskRepo_Delete_def is_fault_untyped split: sum.splits)
qed

lemma pg_updateTask_error:
  assumes "inv d" "PgTaskRepo_Update D background t d = (d', Inl e)"
  shows "untyped e \<and> (tbTasks (committed d') = tbTasks (committed d)
    \<or> (\<exists>old new. tbTasks (committed d) (tID t) = Some old \<and> tbTasks (committed d') = (tbTasks (committed d))(tID t \<mapsto> new)
        \<and> same_task_input (t\<lparr>tUserID := tUserID new\<rparr>) new \<and> tUserID new \<in> {tUserID old, tUserID t}))"
proof -
  have "untyped e" "tbTasks (committed d') = tbTasks (committed d)
      \<or> (\<exists>old new. tbTasks (committed d) (tID t) = Some old \<and> tbTasks (committed d') = (tbTasks (committed d))(tID t \<mapsto> new)
          \<and> same_task_input (t\<lparr>tUserID := tUserID old\<rparr>) new)"
    using pg_updateTask [OF assms] by (auto simp: Let_def)
  then show ?thesis using same_task_input_owner same_task_input_own by blast
qed

lemma pg_task_store:
  "task_store (PgUserRepo D) background inv (\<lambda>d. tbUsers (committed d)) (PgTaskRepo D) (\<lambda>d. tbTasks (committed d))"
  apply (rule task_store.intro [OF pg_user_reads], unfold_locales)
  subgoal for s i t using committed_schema [of s] schema_tID by blast
  subgoal for s i s' r using pg_getByID [of s i s' r] by simp
  subgoal for s i s' r using pg_getTask [of s i s' r] by simp
  subgoal for s i s' t using pg_getTask [of s i s' "Inr t"] by simp
  subgoal for s i s' e using pg_getTask [of s i s' "Inl e"] by simp
  subgoal for s uid s' r using pg_listTasks [of s uid s' r] by simp
  subgoal for s uid s' ts using pg_listTasks [of s uid s' "Inr ts"] by simp
  subgoal for s uid s' e using pg_listTasks [of s uid s' "Inl e"] by simp
  subgoal for s t s' r using pg_createTask [of s t s' r] by simp
  subgoal for s t s' t' using pg_createTask [of s t s' "Inr t'"] by simp
  subgoal for s t s' e using pg_createTask [of s t s' "Inl e"] by simp
  subgoal for s t s' r using pg_updateTask [of s t s' r] by simp
  subgoal for s t s' t' using pg_updateTask [of s t s' "Inr t'"]
    by (auto simp: Let_def same_task_input_owner split: option.splits)
  subgoal for s t s' e using pg_updateTask_error [of s t s' e] by simp
  subgoal for s i s' r using pg_deleteTask [of s i s' r] by simp
  subgoal for s i s' v using pg_deleteTask [of s i s' "Inr v"] by simp
  subgoal for s i s' e using pg_deleteTask [of s i s' "Inl e"] by simp
  done

end

sublocale sql_engine \<subseteq> pg_users: user_store "PgUserRepo D" background inv "\<lambda>d. tbUsers (committed d)" "\<lambda>u. u"
  by (rule pg_user_store)

sublocale sql_engine \<subseteq> pg_tasks: task_store "PgUserRepo D" background inv "\<lambda>d. tbUsers (committed d)"
    "PgTaskRepo D" "\<lambda>d. tbTasks (committed d)"
  by (rule pg_task_store)

end
