(* ===== verification/Banking_Service.thy ===== *)
theory Banking_Service
  imports Pg_Repos
begin

text \<open>
  \<^verbatim>\<open>internal/service/banking_service.go\<close>.  \<^verbatim>\<open>Transfer\<close> runs its
  reads, its two balance updates and its insert through \<^verbatim>\<open>RunInTx\<close> on one driver.
  The lemmas say what a transfer does to the committed tables on any driver that meets
  \<open>sql_engine\<close>: all of its writes or none, and which balances move.
\<close>

section \<open>Operations\<close>

definition BankingService_GetUserAccounts :: "(reqctx, 'd) account_repository \<Rightarrow> reqctx \<Rightarrow> int64 \<Rightarrow> 'd
    \<Rightarrow> 'd \<times> (go_error + account list)" where
  "BankingService_GetUserAccounts AR ctx uid d = accountGetByUserID AR ctx uid d"

definition BankingService_CreateAccount :: "(reqctx, 'd) account_repository \<Rightarrow> reqctx \<Rightarrow> int64 \<Rightarrow> string \<Rightarrow> 'd
    \<Rightarrow> 'd \<times> (go_error + account)" where
  "BankingService_CreateAccount AR ctx uid currency d =
     (let acc = \<lparr>aID = 0, aUserID = uid, aCurrency = currency, aBalance = 0, aCreatedAt = zero_time,
                 aUpdatedAt = zero_time\<rparr> in
      case accountCreate AR ctx acc d of
        (d, Inl err) \<Rightarrow> (d, Inl err)
      | (d, Inr acc) \<Rightarrow> (d, Inr acc))"

definition loadAndValidateTransferAccounts :: "(reqctx, 'd) account_repository \<Rightarrow> reqctx \<Rightarrow> int64 \<Rightarrow> int64
    \<Rightarrow> create_transfer_request \<Rightarrow> 'd \<Rightarrow> 'd \<times> (go_error + account \<times> account)" where
  "loadAndValidateTransferAccounts AR ctx senderUserID senderAccountID req d =
     (case accountGetByID AR ctx senderAccountID d of
        (d, Inl err) \<Rightarrow> (d, Inl (WrapError ''sender account not found'' err))
      | (d, Inr senderAcc) \<Rightarrow>
          if aUserID senderAcc \<noteq> senderUserID
          then (d, Inl (ErrorString (Text ''sender does not own the account'')))
          else if sint (aBalance senderAcc) < sint (rqAmount req)
          then (d, Inl (ErrorString (Text ''insufficient funds'')))
          else
            (case accountGetByID AR ctx (rqReceiverAccountID req) d of
               (d, Inl err) \<Rightarrow> (d, Inl (WrapError ''receiver account not found'' err))
             | (d, Inr receiverAcc) \<Rightarrow>
                 if aCurrency senderAcc \<noteq> rqCurrency req \<or> aCurrency receiverAcc \<noteq> rqCurrency req
                 then (d, Inl (ErrorString (Text ''currency mismatch'')))
                 else (d, Inr (senderAcc, receiverAcc))))"

definition applyTransferBalances :: "(reqctx, 'd) account_repository \<Rightarrow> reqctx \<Rightarrow> int64 \<Rightarrow> int64 \<Rightarrow> int64 \<Rightarrow> 'd
    \<Rightarrow> 'd \<times> (go_error + unit)" where
  "applyTransferBalances AR ctx senderID receiverID amount d =
     (case accountUpdateBalance AR ctx senderID (- amount) d of
        (d, Inl err) \<Rightarrow> (d, Inl err)
      | (d, Inr _) \<Rightarrow>
          (case accountUpdateBalance AR ctx receiverID amount d of
             (d, Inl err) \<Rightarrow> (d, Inl err)
           | (d, Inr _) \<Rightarrow> (d, Inr ())))"

definition transfer_body :: "(reqctx, 'd) account_repository \<Rightarrow> (reqctx, 'd) transfer_repository \<Rightarrow> int64
    \<Rightarrow> create_transfer_request \<Rightarrow> int64 \<Rightarrow> reqctx \<Rightarrow> 'd \<Rightarrow> 'd \<times> (go_error + transfer)" where
  "transfer_body AR TR senderUserID req senderAccountID txCtx d =
     (case loadAndValidateTransferAccounts AR txCtx senderUserID senderAccountID req d of
        (d, Inl err) \<Rightarrow> (d, Inl err)
      | (d, Inr (senderAcc, receiverAcc)) \<Rightarrow>
          (case applyTransferBalances AR txCtx (aID senderAcc) (aID receiverAcc) (rqAmount req) d of
             (d, Inl err) \<Rightarrow> (d, Inl err)
           | (d, Inr _) \<Rightarrow>
               transferCreate TR txCtx
                 \<lparr>trID = 0, trSenderAccountID = aID senderAcc, trReceiverAccountID = aID receiverAcc,
                  trAmount = rqAmount req, trCurrency = rqCurrency req,
                  trDescription = rqDescription req, trCreatedAt = zero_time\<rparr> d))"

definition BankingService_Transfer :: "'d sql_driver \<Rightarrow> (reqctx, 'd) account_repository
    \<Rightarrow> (reqctx, 'd) transfer_repository \<Rightarrow> reqctx \<Rightarrow> int64 \<Rightarrow> create_transfer_request \<Rightarrow> int64 \<Rightarrow> 'd
    \<Rightarrow> 'd \<times> (go_error + transfer)" where
  "BankingService_Transfer D AR TR ctx senderUserID req senderAccountID d =
     RunInTx D ctx (transfer_body AR TR senderUserID req senderAccountID) d"

section \<open>The contract of a transfer\<close>

definition balances :: "tables \<Rightarrow> int64 \<rightharpoonup> int64" where
  "balances T i = map_option aBalance (tbAccounts T i)"

text \<open>One update: the balance of an account that exists grows by \<open>n\<close>, with no overflow.\<close>

definition added :: "int64 \<Rightarrow> int64 \<Rightarrow> tables \<Rightarrow> tables \<Rightarrow> bool" where
  "added n i T T' \<longleftrightarrow>
     (\<exists>a t. tbAccounts T i = Some a \<and> bigint_sum_ok (aBalance a) n
        \<and> T' = T\<lparr>tbAccounts := (tbAccounts T)(i \<mapsto> a\<lparr>aBalance := aBalance a + n, aUpdatedAt := t\<rparr>)\<rparr>)"

text \<open>What the guards of the code let through, and the two updates and the log entry.\<close>

definition transfer_allowed :: "tables \<Rightarrow> int64 \<Rightarrow> create_transfer_request \<Rightarrow> int64 \<Rightarrow> bool" where
  "transfer_allowed T uid req i \<longleftrightarrow>
     (\<exists>sa ra. tbAccounts T i = Some sa \<and> tbAccounts T (rqReceiverAccountID req) = Some ra
        \<and> aUserID sa = uid \<and> sint (rqAmount req) \<le> sint (aBalance sa)
        \<and> aCurrency sa = rqCurrency req \<and> aCurrency ra = rqCurrency req)"

definition transfer_done :: "int64 \<Rightarrow> create_transfer_request \<Rightarrow> int64 \<Rightarrow> tables \<Rightarrow> tables \<Rightarrow> transfer \<Rightarrow> bool" where
  "transfer_done uid req i T T' tr \<longleftrightarrow>
     transfer_allowed T uid req i
     \<and> (\<exists>T1 T2 cur. added (- rqAmount req) i T T1 \<and> added (rqAmount req) (rqReceiverAccountID req) T1 T2
          \<and> fits_varchar 3 (rqCurrency req) cur \<and> tbTransfers T (trID tr) = None
          \<and> T' = T2\<lparr>tbTransfers := (tbTransfers T2)(trID tr \<mapsto> tr\<lparr>trCurrency := cur\<rparr>)\<rparr>)
     \<and> trSenderAccountID tr = i \<and> trReceiverAccountID tr = rqReceiverAccountID req
     \<and> trAmount tr = rqAmount req \<and> trCurrency tr = rqCurrency req \<and> trDescription tr = rqDescription req"

text \<open>An error of the database, whatever it is wrapped in: none of the program's own.\<close>

definition driver_error :: "go_error \<Rightarrow> bool" where
  "driver_error e \<longleftrightarrow> (\<exists>m. root_cause e = LibError m)"

lemma driver_error_simps [simp]:
  "driver_error (LibError m)" "driver_error (WrapError t e) \<longleftrightarrow> driver_error e" "\<not> driver_error ErrNoRows"
  "\<not> driver_error (ErrorString msg)"
  by (simp_all add: driver_error_def)

lemma is_fault_driver: "is_fault e \<Longrightarrow> driver_error e"
  by (auto simp: is_fault_def)

lemma AddToBalance_added:
  assumes "sql_effect (AddToBalance n i) T T' rows" "tbAccounts T i \<noteq> None"
  shows "added n i T T'"
  using assms by (auto simp: added_def)

lemma added_frame [frame_rules]:
  assumes "added n i T T'"
  shows "dom (tbAccounts T') = dom (tbAccounts T)" "tbUsers T' = tbUsers T" "tbTasks T' = tbTasks T"
    "tbTransfers T' = tbTransfers T"
  using assms by (auto simp: added_def dom_def split: if_splits)

section \<open>The repositories inside a transaction\<close>

context sql_engine
begin

lemma account_get_tx:
  assumes "inv d" "tx_view d x = Some T" "PgAccountRepo_GetByID D (WithTx ctx x) i d = (d', r)"
  shows "inv d' \<and> committed d' = committed d \<and>
    (case r of Inl e \<Rightarrow> is_fault e \<or> (e = ErrNoRows \<and> tbAccounts T i = None) | Inr a \<Rightarrow> tx_view d' x = Some T \<and> tbAccounts T i = Some a)"
proof -
  obtain d1 q where q: "query_row D (WithTx ctx x) (SelectAccountByID i) d = (d1, q)" by fastforce
  from query_row_tx [OF assms(1) q assms(2)] assms(3) q show ?thesis
    by (auto simp: PgAccountRepo_GetByID_def is_fault_def scan_error_def
        split: sum.splits option.splits sql_row.splits)
qed

lemma update_balance_tx:
  assumes "inv d" "tx_view d x = Some T" "PgAccountRepo_UpdateBalance D (WithTx ctx x) i n d = (d', r)"
    and "tbAccounts T i \<noteq> None"
  shows "inv d' \<and> committed d' = committed d \<and>
    (case r of Inl e \<Rightarrow> is_fault e
     | Inr _ \<Rightarrow> \<exists>T'. tx_view d' x = Some T' \<and> added n i T T')"
proof -
  obtain d1 q where q: "dbExec D (TxConn x) (AddToBalance n i) d = (d1, q)" by fastforce
  from exec_tx [OF assms(1) q assms(2)] assms(3) q AddToBalance_added [OF _ assms(4)] show ?thesis
    by (auto simp: PgAccountRepo_UpdateBalance_def is_fault_def simp del: sql_effect.simps
        split: sum.splits)
qed

lemma transfer_create_tx:
  assumes "inv d" "tx_view d x = Some T" "PgTransferRepo_Create D (WithTx ctx x) tr d = (d', r)"
  shows "inv d' \<and> committed d' = committed d \<and>
    (case r of Inl e \<Rightarrow> is_fault e
     | Inr tr' \<Rightarrow> \<exists>T' cur. tx_view d' x = Some T' \<and> tbTransfers T (trID tr') = None
         \<and> fits_varchar 3 (trCurrency tr) cur
         \<and> T' = T\<lparr>tbTransfers := (tbTransfers T)(trID tr' \<mapsto> tr'\<lparr>trCurrency := cur\<rparr>)\<rparr>
         \<and> tr' = tr\<lparr>trID := trID tr', trCreatedAt := trCreatedAt tr'\<rparr>)"
proof -
  obtain d1 q where q: "query_row D (WithTx ctx x) (InsertTransfer (trSenderAccountID tr)
      (trReceiverAccountID tr) (trAmount tr) (trCurrency tr) (trDescription tr)) d = (d1, q)" by fastforce
  show ?thesis
  proof (cases q)
    case (Inl e)
    then show ?thesis using query_row_tx [OF assms(1) q assms(2)] assms(3) q
      by (auto simp: PgTransferRepo_Create_def is_fault_def)
  next
    case (Inr row)
    then obtain T' rest where T': "tx_view d1 x = Some T'" "inv d1" "committed d1 = committed d"
      "sql_effect (InsertTransfer (trSenderAccountID tr) (trReceiverAccountID tr) (trAmount tr)
         (trCurrency tr) (trDescription tr)) T T' (row # rest)"
      using query_row_tx [OF assms(1) q assms(2)] by (auto simp del: sql_effect.simps)
    from T'(4) obtain i t cur where row: "row = KeyTimeRow i t" "tbTransfers T i = None"
      "fits_varchar 3 (trCurrency tr) cur"
      "T' = T\<lparr>tbTransfers := (tbTransfers T)(i \<mapsto> \<lparr>trID = i, trSenderAccountID = trSenderAccountID tr,
         trReceiverAccountID = trReceiverAccountID tr, trAmount = trAmount tr, trCurrency = cur,
         trDescription = trDescription tr, trCreatedAt = t\<rparr>)\<rparr>"
      by (simp only: sql_effect.simps) blast
    have r: "r = Inr (tr\<lparr>trID := i, trCreatedAt := t\<rparr>)" "d' = d1"
      using assms(3) q Inr row(1) by (auto simp: PgTransferRepo_Create_def)
    show ?thesis using r T'(1-3) row by (cases tr) (auto intro!: exI [of _ cur])
  qed
qed

lemma load_validate_tx:
  assumes "inv d" "tx_view d x = Some T"
    and "loadAndValidateTransferAccounts (PgAccountRepo D) (WithTx ctx x) uid i req d = (d', r)"
  shows "inv d' \<and> committed d' = committed d \<and>
    (case r of Inl e \<Rightarrow> untyped e \<and> (transfer_allowed T uid req i \<longrightarrow> driver_error e)
     | Inr (sa, ra) \<Rightarrow> tx_view d' x = Some T \<and> transfer_allowed T uid req i
         \<and> tbAccounts T i = Some sa \<and> tbAccounts T (rqReceiverAccountID req) = Some ra)"
proof -
  obtain d1 q where q: "PgAccountRepo_GetByID D (WithTx ctx x) i d = (d1, q)" by fastforce
  note sender = account_get_tx [OF assms(1,2) q]
  show ?thesis
  proof (cases q)
    case (Inl e)
    then show ?thesis using sender assms(3) q
      by (auto simp: loadAndValidateTransferAccounts_def transfer_allowed_def is_fault_untyped is_fault_driver)
  next
    case (Inr sa)
    with sender have d1: "inv d1" "committed d1 = committed d" "tx_view d1 x = Some T" "tbAccounts T i = Some sa"
      by auto
    obtain d2 p where p: "PgAccountRepo_GetByID D (WithTx ctx x) (rqReceiverAccountID req) d1 = (d2, p)"
      by fastforce
    from account_get_tx [OF d1(1,3) p] assms(3) q p d1 Inr show ?thesis
      by (cases p) (auto simp: loadAndValidateTransferAccounts_def transfer_allowed_def is_fault_untyped is_fault_driver
          split: if_splits)
  qed
qed

lemma apply_balances_tx:
  assumes "inv d" "tx_view d x = Some T"
    and "applyTransferBalances (PgAccountRepo D) (WithTx ctx x) i j n d = (d', r)"
    and "tbAccounts T i \<noteq> None" "tbAccounts T j \<noteq> None"
  shows "inv d' \<and> committed d' = committed d \<and>
    (case r of Inl e \<Rightarrow> is_fault e
     | Inr _ \<Rightarrow> \<exists>T1 T2. tx_view d' x = Some T2 \<and> added (- n) i T T1 \<and> added n j T1 T2)"
proof -
  obtain d1 q where q: "PgAccountRepo_UpdateBalance D (WithTx ctx x) i (- n) d = (d1, q)" by fastforce
  note debit = update_balance_tx [OF assms(1,2) q assms(4)]
  show ?thesis
  proof (cases q)
    case (Inl e)
    then show ?thesis using debit assms(3) q by (auto simp: applyTransferBalances_def)
  next
    case (Inr u)
    with debit obtain T1 where d1: "inv d1" "committed d1 = committed d" "tx_view d1 x = Some T1"
      and T1: "added (- n) i T T1" by auto
    have "tbAccounts T1 j \<noteq> None" using added_frame(1) [OF T1] assms(5) by blast
    obtain d2 p where p: "PgAccountRepo_UpdateBalance D (WithTx ctx x) j n d1 = (d2, p)" by fastforce
    from update_balance_tx [OF d1(1,3) p \<open>tbAccounts T1 j \<noteq> None\<close>] assms(3) q p d1 T1 Inr show ?thesis
      by (cases p) (auto simp: applyTransferBalances_def)
  qed
qed

lemma transfer_record_tx:
  fixes i uid req
  defines "entry \<equiv> \<lparr>trID = 0, trSenderAccountID = i, trReceiverAccountID = rqReceiverAccountID req,
    trAmount = rqAmount req, trCurrency = rqCurrency req, trDescription = rqDescription req, trCreatedAt = zero_time\<rparr>"
  assumes "inv d" "tx_view d x = Some T2" "transfer_allowed T uid req i"
    and "added (- rqAmount req) i T T1" "added (rqAmount req) (rqReceiverAccountID req) T1 T2"
    and "PgTransferRepo_Create D (WithTx ctx x) entry d = (d', r)"
  shows "inv d' \<and> committed d' = committed d \<and>
    (case r of Inl e \<Rightarrow> is_fault e
     | Inr tr \<Rightarrow> \<exists>T'. tx_view d' x = Some T' \<and> transfer_done uid req i T T' tr)"
proof -
  note created = transfer_create_tx [OF assms(2,3,7)]
  show ?thesis
  proof (cases r)
    case (Inl e)
    then show ?thesis using created by (auto simp: is_fault_untyped)
  next
    case (Inr tr)
    with created obtain T' cur where T': "tx_view d' x = Some T'" "tbTransfers T2 (trID tr) = None"
      "fits_varchar 3 (rqCurrency req) cur" "T' = T2\<lparr>tbTransfers := (tbTransfers T2)(trID tr \<mapsto> tr\<lparr>trCurrency := cur\<rparr>)\<rparr>"
      and tr: "tr = entry\<lparr>trID := trID tr, trCreatedAt := trCreatedAt tr\<rparr>" by (auto simp: entry_def)
    have "trSenderAccountID tr = i \<and> trReceiverAccountID tr = rqReceiverAccountID req
      \<and> trAmount tr = rqAmount req \<and> trCurrency tr = rqCurrency req \<and> trDescription tr = rqDescription req"
      by (subst tr, subst (2) tr, subst (3) tr, subst (4) tr, subst (5) tr) (simp add: entry_def)
    then have "transfer_done uid req i T T' tr"
      unfolding transfer_done_def using assms(4-6) T'(2-4) added_frame(4) [OF assms(5)] added_frame(4) [OF assms(6)]
      by (metis (no_types))
    then show ?thesis using T'(1) Inr created by auto
  qed
qed

lemma transfer_body_tx:
  assumes "inv d" "tx_view d x = Some T"
    and "transfer_body (PgAccountRepo D) (PgTransferRepo D) uid req i (WithTx ctx x) d = (d', r)"
  shows "inv d' \<and> committed d' = committed d \<and>
    (case r of Inl e \<Rightarrow> untyped e \<and> (transfer_allowed T uid req i \<longrightarrow> driver_error e)
     | Inr tr \<Rightarrow> \<exists>T'. tx_view d' x = Some T' \<and> transfer_done uid req i T T' tr)"
proof -
  obtain d1 q where q: "loadAndValidateTransferAccounts (PgAccountRepo D) (WithTx ctx x) uid i req d = (d1, q)"
    by fastforce
  note load = load_validate_tx [OF assms(1,2) q]
  show ?thesis
  proof (cases q)
    case (Inl e)
    then show ?thesis using load assms(3) q by (auto simp: transfer_body_def)
  next
    case (Inr accs)
    obtain sa ra where accs: "accs = (sa, ra)" by (cases accs)
    with load Inr have d1: "inv d1" "committed d1 = committed d" "tx_view d1 x = Some T"
      and acc: "tbAccounts T i = Some sa" "tbAccounts T (rqReceiverAccountID req) = Some ra"
      and ok: "transfer_allowed T uid req i" by auto
    have ids: "aID sa = i" "aID ra = rqReceiverAccountID req"
      using schema_aID [OF tx_schema [OF d1(1,3)]] acc by auto
    obtain d2 p where p: "applyTransferBalances (PgAccountRepo D) (WithTx ctx x) i (rqReceiverAccountID req)
        (rqAmount req) d1 = (d2, p)" by fastforce
    note moved = apply_balances_tx [OF d1(1,3) p] acc
    show ?thesis
    proof (cases p)
      case (Inl e)
      then show ?thesis using moved d1 assms(3) q Inr accs p ids by (auto simp: transfer_body_def is_fault_untyped is_fault_driver)
    next
      case moves: (Inr u)
      with moved d1 obtain T1 T2 where d2: "inv d2" "committed d2 = committed d" "tx_view d2 x = Some T2"
        and T: "added (- rqAmount req) i T T1" "added (rqAmount req) (rqReceiverAccountID req) T1 T2" by auto
      from assms(3) q Inr accs p ids moves
      show ?thesis using transfer_record_tx [OF d2(1,3) ok T, of ctx d' r] d2(2)
        by (cases r) (auto simp: transfer_body_def is_fault_untyped is_fault_driver)
    qed
  qed
qed

text \<open>The whole operation: all of it or nothing, and the guards hold when it happened.\<close>

lemma Transfer_result:
  assumes "inv d"
    and "BankingService_Transfer D (PgAccountRepo D) (PgTransferRepo D) ctx uid req i d = (d', r)"
  shows "inv d' \<and>
    (case r of
       Inr tr \<Rightarrow> transfer_done uid req i (committed d) (committed d') tr
     | Inl e \<Rightarrow> untyped e \<and> (transfer_allowed (committed d) uid req i \<longrightarrow> driver_error e) \<and> (committed d' = committed d
         \<or> (\<exists>tr m. transfer_done uid req i (committed d) (committed d') tr
                  \<and> e = WrapError ''commit tx'' (LibError m))))"
proof -
  let ?E = "\<lambda>e. untyped e \<and> (transfer_allowed (committed d) uid req i \<longrightarrow> driver_error e)"
  have "inv d' \<and> (case r of
      Inl e \<Rightarrow>
        (committed d' = committed d
           \<and> (?E e \<or> (\<exists>t m. t \<in> {''begin tx'', ''commit tx''} \<and> e = WrapError t (LibError m))))
        \<or> (\<exists>a m. transfer_done uid req i (committed d) (committed d') a \<and> e = WrapError ''commit tx'' (LibError m))
    | Inr a \<Rightarrow> transfer_done uid req i (committed d) (committed d') a)"
  proof (rule RunInTx_cases [where Q = "transfer_done uid req i" and E = ?E,
        OF assms(1) assms(2) [unfolded BankingService_Transfer_def]])
    fix x d1 d2 q
    assume "inv d1" "transfer_body (PgAccountRepo D) (PgTransferRepo D) uid req i (WithTx ctx x) d1 = (d2, q)"
      "tx_view d1 x = Some (committed d)"
    then show "inv d2 \<and> committed d2 = committed d1 \<and>
      (case q of Inl e \<Rightarrow> ?E e
       | Inr a \<Rightarrow> \<exists>T. tx_view d2 x = Some T \<and> transfer_done uid req i (committed d) T a)"
      using transfer_body_tx by blast
  qed
  then show ?thesis by (cases r) auto
qed

lemma Transfer_cases:
  assumes "inv d"
    and "BankingService_Transfer D (PgAccountRepo D) (PgTransferRepo D) ctx uid req i d = (d', r)"
  shows "inv d' \<and>
    (case r of
       Inr tr \<Rightarrow> transfer_done uid req i (committed d) (committed d') tr
     | Inl e \<Rightarrow> untyped e \<and> (committed d' = committed d
         \<or> (\<exists>tr m. transfer_done uid req i (committed d) (committed d') tr
                  \<and> e = WrapError ''commit tx'' (LibError m))))"
  using Transfer_result [OF assms] by (cases r) simp_all

text \<open>What the guards let through is refused by the database only.\<close>

lemma Transfer_allowed_error:
  assumes "inv d" "transfer_allowed (committed d) uid req i"
    and "BankingService_Transfer D (PgAccountRepo D) (PgTransferRepo D) ctx uid req i d = (d', Inl e)"
  shows "driver_error e"
  using Transfer_result [OF assms(1,3)] assms(2) by simp

end

section \<open>Where the money is\<close>

definition account_amount :: "account option \<Rightarrow> int" where
  "account_amount oa = (case oa of None \<Rightarrow> 0 | Some a \<Rightarrow> sint (aBalance a))"

definition amount_in :: "string \<Rightarrow> account option \<Rightarrow> int" where
  "amount_in cur oa = (case oa of None \<Rightarrow> 0 | Some a \<Rightarrow> if aCurrency a = cur then sint (aBalance a) else 0)"

text \<open>The money of all accounts in one currency.\<close>

definition money_in :: "string \<Rightarrow> tables \<Rightarrow> int" where
  "money_in cur T = (\<Sum>i \<in> dom (tbAccounts T). amount_in cur (tbAccounts T i))"

lemma sint_bigint_sum [simp]: "bigint_sum_ok a b \<Longrightarrow> sint (a + b) = sint a + sint b"
  unfolding bigint_sum_ok_def by (rule sint_add_no_overflow) simp_all

lemma sint_bigint_diff [simp]: "bigint_sum_ok a (- b) \<Longrightarrow> sint (a - b) = sint a + sint (- b)"
  using sint_bigint_sum [of a "- b"] by simp

lemma added_account:
  assumes "added n i T T'"
  obtains a t where "tbAccounts T i = Some a" "bigint_sum_ok (aBalance a) n"
    "tbAccounts T' = (tbAccounts T)(i \<mapsto> a\<lparr>aBalance := aBalance a + n, aUpdatedAt := t\<rparr>)"
  using assms by (auto simp: added_def)

lemma added_money:
  assumes "added n i T T'" "finite (dom (tbAccounts T))" "tbAccounts T i = Some a"
  shows "money_in cur T' = money_in cur T + (if aCurrency a = cur then sint n else 0)"
proof -
  from assms(1,3) obtain t where ok: "bigint_sum_ok (aBalance a) n" and T':
    "tbAccounts T' = (tbAccounts T)(i \<mapsto> a\<lparr>aBalance := aBalance a + n, aUpdatedAt := t\<rparr>)"
    by (auto elim!: added_account)
  let ?rest = "\<Sum>k \<in> dom (tbAccounts T) - {i}. amount_in cur (tbAccounts T k)"
  have i: "i \<in> dom (tbAccounts T)" using assms(3) by auto
  have "money_in cur T = amount_in cur (tbAccounts T i) + ?rest"
    unfolding money_in_def by (rule sum.remove [OF assms(2) i])
  moreover have "money_in cur T' = amount_in cur (tbAccounts T' i) + ?rest"
    unfolding money_in_def added_frame(1) [OF assms(1)] sum.remove [OF assms(2) i]
    by (simp add: T')
  ultimately show ?thesis using ok assms(3) T' by (simp add: amount_in_def)
qed

lemma sint_uminus_int64:
  "sint (- (n :: int64)) = (if sint n = - (2 ^ 63) then - (2 ^ 63) else - sint n)"
proof (cases "sint n = - (2 ^ 63)")
  case True
  then have "sint n = sint (word_of_int (- (2 ^ 63)) :: int64)" using sint_of_int_int64 by simp
  then have "n = word_of_int (- (2 ^ 63))" by (simp only: int64_eq_iff_sint)
  then show ?thesis using True by simp
qed (simp add: sint_uminus_no_overflow)

text \<open>The part of a transfer that moves money: what is left of it without the guards on owner and funds.\<close>

definition transfer_moved :: "create_transfer_request \<Rightarrow> int64 \<Rightarrow> tables \<Rightarrow> tables \<Rightarrow> transfer \<Rightarrow> bool" where
  "transfer_moved req i T T' tr \<longleftrightarrow>
     (\<exists>sa ra. tbAccounts T i = Some sa \<and> tbAccounts T (rqReceiverAccountID req) = Some ra
        \<and> aCurrency sa = rqCurrency req \<and> aCurrency ra = rqCurrency req)
     \<and> (\<exists>T1 T2 cur. added (- rqAmount req) i T T1 \<and> added (rqAmount req) (rqReceiverAccountID req) T1 T2
          \<and> tbTransfers T (trID tr) = None
          \<and> T' = T2\<lparr>tbTransfers := (tbTransfers T2)(trID tr \<mapsto> tr\<lparr>trCurrency := cur\<rparr>)\<rparr>)
     \<and> trSenderAccountID tr = i \<and> trReceiverAccountID tr = rqReceiverAccountID req
     \<and> trAmount tr = rqAmount req"

lemma transfer_done_moved: "transfer_done uid req i T T' tr \<Longrightarrow> transfer_moved req i T T' tr"
  unfolding transfer_done_def transfer_allowed_def transfer_moved_def by blast

text \<open>Nothing is created or lost, except by the one amount that has no negation.\<close>

lemma transfer_moved_money:
  assumes "transfer_moved req i T T' tr" "finite (dom (tbAccounts T))"
  shows "money_in cur T' = money_in cur T
    - (if cur = rqCurrency req \<and> sint (rqAmount req) = - (2 ^ 63) then 2 ^ 64 else 0)"
proof -
  from assms(1) obtain T1 T2 where T: "added (- rqAmount req) i T T1"
      "added (rqAmount req) (rqReceiverAccountID req) T1 T2" "tbAccounts T' = tbAccounts T2"
    unfolding transfer_moved_def by auto
  from assms(1) obtain sa ra where acc: "tbAccounts T i = Some sa" "aCurrency sa = rqCurrency req"
      "tbAccounts T (rqReceiverAccountID req) = Some ra" "aCurrency ra = rqCurrency req"
    unfolding transfer_moved_def by auto
  obtain ra1 where ra1: "tbAccounts T1 (rqReceiverAccountID req) = Some ra1" "aCurrency ra1 = rqCurrency req"
    using T(1) acc by (cases "rqReceiverAccountID req = i") (auto elim!: added_account)
  have fin: "finite (dom (tbAccounts T1))" using assms(2) added_frame(1) [OF T(1)] by simp
  have "money_in cur T' = money_in cur T2" by (simp add: money_in_def T(3))
  then show ?thesis
    using added_money [OF T(1) assms(2) acc(1), of cur] added_money [OF T(2) fin ra1(1), of cur]
      acc(2) ra1(2) by (auto simp: sint_uminus_int64)
qed

lemmas transfer_done_money = transfer_moved_money [OF transfer_done_moved]

text \<open>Balances at or above zero stay so when the amount is.\<close>

definition solvent :: "tables \<Rightarrow> bool" where
  "solvent T \<longleftrightarrow> (\<forall>i a. tbAccounts T i = Some a \<longrightarrow> 0 \<le> sint (aBalance a))"

lemma transfer_done_solvent:
  assumes "transfer_done uid req i T T' tr" "solvent T" "0 \<le> sint (rqAmount req)"
  shows "solvent T'"
proof -
  from assms(1) obtain T1 T2 where T: "added (- rqAmount req) i T T1"
      "added (rqAmount req) (rqReceiverAccountID req) T1 T2" "tbAccounts T' = tbAccounts T2"
    unfolding transfer_done_def by auto
  from assms(1) obtain sa where sa: "tbAccounts T i = Some sa" "sint (rqAmount req) \<le> sint (aBalance sa)"
    unfolding transfer_done_def transfer_allowed_def by auto
  have neg: "sint (- rqAmount req) = - sint (rqAmount req)"
    using assms(3) by (simp add: sint_uminus_int64)
  have "solvent T1" using T(1) assms(2) sa neg
    by (auto simp: solvent_def elim!: added_account split: if_splits)
  then have "solvent T2" using T(2) assms(3) by (auto simp: solvent_def elim!: added_account split: if_splits)
  then show ?thesis using T(3) by (simp add: solvent_def)
qed

text \<open>Only the two accounts move, by the amount.\<close>

lemma transfer_done_balances:
  assumes "transfer_done uid req i T T' tr" "i \<noteq> rqReceiverAccountID req"
  shows "account_amount (tbAccounts T' i) = account_amount (tbAccounts T i) + sint (- rqAmount req)"
    and "account_amount (tbAccounts T' (rqReceiverAccountID req))
         = account_amount (tbAccounts T (rqReceiverAccountID req)) + sint (rqAmount req)"
    and "k \<noteq> i \<Longrightarrow> k \<noteq> rqReceiverAccountID req \<Longrightarrow> tbAccounts T' k = tbAccounts T k"
proof -
  from assms(1) obtain T1 T2 where T: "added (- rqAmount req) i T T1"
      "added (rqAmount req) (rqReceiverAccountID req) T1 T2" "tbAccounts T' = tbAccounts T2"
    unfolding transfer_done_def by auto
  from T show "account_amount (tbAccounts T' i) = account_amount (tbAccounts T i) + sint (- rqAmount req)"
    "account_amount (tbAccounts T' (rqReceiverAccountID req))
       = account_amount (tbAccounts T (rqReceiverAccountID req)) + sint (rqAmount req)"
    "k \<noteq> i \<Longrightarrow> k \<noteq> rqReceiverAccountID req \<Longrightarrow> tbAccounts T' k = tbAccounts T k"
    using assms(2) by (auto simp: account_amount_def elim!: added_account)
qed

section \<open>The ledger\<close>

text \<open>
  Every balance is what the transfers of the account add up to: accounts open with nothing and
  only transfers move money.
\<close>

definition flow :: "int64 \<Rightarrow> transfer option \<Rightarrow> int" where
  "flow i otr = (case otr of None \<Rightarrow> 0
     | Some tr \<Rightarrow> (if trReceiverAccountID tr = i then sint (trAmount tr) else 0)
                 - (if trSenderAccountID tr = i then sint (trAmount tr) else 0))"

definition net_flow :: "tables \<Rightarrow> int64 \<Rightarrow> int" where
  "net_flow T i = (\<Sum>k \<in> dom (tbTransfers T). flow i (tbTransfers T k))"

definition ledger_ok :: "tables \<Rightarrow> bool" where
  "ledger_ok T \<longleftrightarrow> (\<forall>i a. tbAccounts T i = Some a \<longrightarrow> sint (aBalance a) = net_flow T i)"

lemma net_flow_insert:
  assumes "finite (dom (tbTransfers T))" "tbTransfers T k = None"
    "tbTransfers T' = (tbTransfers T)(k \<mapsto> tr)"
  shows "net_flow T' i = net_flow T i + flow i (Some tr)"
proof -
  have "net_flow T' i = flow i (Some tr) + (\<Sum>j \<in> dom (tbTransfers T). flow i (tbTransfers T' j))"
    unfolding net_flow_def using assms by (simp add: dom_fun_upd insert_absorb domIff)
  also have "(\<Sum>j \<in> dom (tbTransfers T). flow i (tbTransfers T' j)) = net_flow T i"
    unfolding net_flow_def using assms by (intro sum.cong) (auto simp: domIff)
  finally show ?thesis by simp
qed

lemma transfer_moved_ledger:
  assumes "transfer_moved req i T T' tr" "ledger_ok T" "finite (dom (tbTransfers T))"
    and "sint (rqAmount req) \<noteq> - (2 ^ 63)"
  shows "ledger_ok T'"
proof -
  from assms(1) obtain T1 T2 cur where T: "added (- rqAmount req) i T T1"
      "added (rqAmount req) (rqReceiverAccountID req) T1 T2" "tbAccounts T' = tbAccounts T2"
      "tbTransfers T' = (tbTransfers T)(trID tr \<mapsto> tr\<lparr>trCurrency := cur\<rparr>)" "tbTransfers T (trID tr) = None"
    and tr: "trSenderAccountID tr = i" "trReceiverAccountID tr = rqReceiverAccountID req" "trAmount tr = rqAmount req"
    unfolding transfer_moved_def by (auto simp: frame_rules)
  have net: "net_flow T' k = net_flow T k + flow k (Some tr)" for k
    using net_flow_insert [OF assms(3) T(5,4), of k] by (simp add: flow_def)
  have neg: "sint (- rqAmount req) = - sint (rqAmount req)" using assms(4) by (simp add: sint_uminus_int64)
  have "sint (aBalance a) = net_flow T' k" if "tbAccounts T' k = Some a" for k a
    using that assms(2) T(1-3) neg unfolding net
    by (auto simp: ledger_ok_def flow_def tr elim!: added_account split: if_splits)
  then show ?thesis by (simp add: ledger_ok_def)
qed

lemmas transfer_done_ledger = transfer_moved_ledger [OF transfer_done_moved]

text \<open>An account that is opened changes neither the money nor the ledger.\<close>

lemma new_account_money:
  assumes "finite (dom (tbAccounts T))" "tbAccounts T i = None" "aBalance a = 0"
    "tbAccounts T' = (tbAccounts T)(i \<mapsto> a)"
  shows "money_in cur T' = money_in cur T"
proof -
  have "money_in cur T' = amount_in cur (Some a) + (\<Sum>k \<in> dom (tbAccounts T). amount_in cur (tbAccounts T' k))"
    unfolding money_in_def using assms by (simp add: dom_fun_upd insert_absorb domIff)
  also have "(\<Sum>k \<in> dom (tbAccounts T). amount_in cur (tbAccounts T' k)) = money_in cur T"
    unfolding money_in_def using assms by (intro sum.cong) (auto simp: domIff)
  finally show ?thesis using assms(3) by (simp add: amount_in_def)
qed

lemma insert_account_effect:
  assumes "sql_effect (InsertAccount uid c b) T T' rows"
  obtains i a where "tbAccounts T i = None" "aID a = i" "aBalance a = b" "tbAccounts T' = (tbAccounts T)(i \<mapsto> a)"
    "tbTransfers T' = tbTransfers T"
proof -
  from assms obtain i t c' where "tbAccounts T i = None" and T':
    "T' = T\<lparr>tbAccounts := (tbAccounts T)(i \<mapsto> \<lparr>aID = i, aUserID = uid, aCurrency = c', aBalance = b,
       aCreatedAt = t, aUpdatedAt = t\<rparr>)\<rparr>" by auto
  then show ?thesis using that [of i "\<lparr>aID = i, aUserID = uid, aCurrency = c', aBalance = b,
       aCreatedAt = t, aUpdatedAt = t\<rparr>"] by simp
qed

lemma no_flow_unreferenced:
  assumes "\<And>k tr. tbTransfers T k = Some tr \<Longrightarrow> tbAccounts T (trSenderAccountID tr) \<noteq> None
      \<and> tbAccounts T (trReceiverAccountID tr) \<noteq> None"
    and "tbAccounts T i = None"
  shows "net_flow T i = 0"
proof -
  have "flow i (tbTransfers T k) = 0" for k
  proof (cases "tbTransfers T k")
    case (Some tr)
    then have "trSenderAccountID tr \<noteq> i" "trReceiverAccountID tr \<noteq> i" using assms by blast+
    then show ?thesis using Some by (simp add: flow_def)
  qed (simp add: flow_def)
  then show ?thesis by (simp add: net_flow_def)
qed

lemma opened_account_ledger:
  assumes "tbAccounts T i = None" "aBalance a = 0" "tbAccounts T' = (tbAccounts T)(i \<mapsto> a)" "tbTransfers T' = tbTransfers T"
    and "net_flow T i = 0" "ledger_ok T"
  shows "ledger_ok T'"
proof -
  have "net_flow T' k = net_flow T k" for k using assms(4) by (simp add: net_flow_def)
  then show ?thesis using assms by (simp add: ledger_ok_def)
qed

end
