(* ===== verification/Http.thy ===== *)
theory Http
  imports Session Stats User_Service Task_Service Banking_Service
begin

text \<open>
  What the handlers share: requests, the response writer of \<^verbatim>\<open>net/http\<close> with the
  status-recording wrappers of \<^verbatim>\<open>middleware.go\<close> around it, the values that are
  encoded as JSON, the decoding of JSON bodies, and the state of the running application.
\<close>

section \<open>JSON out\<close>

datatype 'f json = JNull | JStr string | JInt int64 | JTime gotime | JFloat 'f
  | JArr "'f json list" | JObj "(string \<times> 'f json) list"

text \<open>The Go values that the handlers encode.  An empty list of rows is a nil slice.\<close>

datatype 'f payload =
    PUser user
  | PTask task
  | PTasks "task list"
  | PStats "'f task_stats"
  | PAccount account
  | PAccounts "account list"
  | PTransfer transfer
  | PMap string string \<comment> \<open>\<^verbatim>\<open>map[string]string\<close> with one entry\<close>

definition user_json :: "user \<Rightarrow> 'f json" where
  "user_json u = JObj [(''id'', JInt (uID u)), (''email'', JStr (uEmail u)), (''name'', JStr (uName u)),
     (''created_at'', JTime (uCreatedAt u)), (''updated_at'', JTime (uUpdatedAt u))]"

definition task_json :: "task \<Rightarrow> 'f json" where
  "task_json t = JObj [(''id'', JInt (tID t)), (''user_id'', JInt (tUserID t)), (''title'', JStr (tTitle t)),
     (''description'', JStr (tDescription t)), (''status'', JStr (tStatus t)),
     (''created_at'', JTime (tCreatedAt t)), (''updated_at'', JTime (tUpdatedAt t))]"

definition account_json :: "account \<Rightarrow> 'f json" where
  "account_json a = JObj [(''id'', JInt (aID a)), (''user_id'', JInt (aUserID a)),
     (''currency'', JStr (aCurrency a)), (''balance'', JInt (aBalance a)),
     (''created_at'', JTime (aCreatedAt a)), (''updated_at'', JTime (aUpdatedAt a))]"

definition transfer_json :: "transfer \<Rightarrow> 'f json" where
  "transfer_json t = JObj [(''id'', JInt (trID t)), (''sender_account_id'', JInt (trSenderAccountID t)),
     (''receiver_account_id'', JInt (trReceiverAccountID t)), (''amount'', JInt (trAmount t)),
     (''currency'', JStr (trCurrency t)), (''description'', JStr (trDescription t)),
     (''created_at'', JTime (trCreatedAt t))]"

definition stats_json :: "'f task_stats \<Rightarrow> 'f json" where
  "stats_json st = JObj [(''total'', JInt (Total st)), (''todo_count'', JInt (TodoCount st)),
     (''in_progress_count'', JInt (InProgCount st)), (''done_count'', JInt (DoneCount st)),
     (''todo_pct'', JFloat (TodoPct st)), (''in_progress_pct'', JFloat (InProgPct st)),
     (''done_pct'', JFloat (DonePct st))]"

fun payload_json :: "'f payload \<Rightarrow> 'f json" where
  "payload_json (PUser u) = user_json u"
| "payload_json (PTask t) = task_json t"
| "payload_json (PTasks ts) = (if ts = [] then JNull else JArr (map task_json ts))"
| "payload_json (PStats st) = stats_json st"
| "payload_json (PAccount a) = account_json a"
| "payload_json (PAccounts as) = (if as = [] then JNull else JArr (map account_json as))"
| "payload_json (PTransfer t) = transfer_json t"
| "payload_json (PMap k v) = JObj [(k, JStr v)]"

text \<open>\<^verbatim>\<open>Encode\<close> refuses numbers that are not finite and years outside 0 to 9999.\<close>

definition year_ok :: "gotime \<Rightarrow> bool" where
  "year_ok t \<longleftrightarrow> - 62167219200 \<le> unix t \<and> unix t < 253402300800"

fun json_ok :: "('f \<Rightarrow> bool) \<Rightarrow> 'f json \<Rightarrow> bool" where
  "json_ok finite_f JNull = True"
| "json_ok finite_f (JStr s) = True"
| "json_ok finite_f (JInt n) = True"
| "json_ok finite_f (JTime t) = year_ok t"
| "json_ok finite_f (JFloat x) = finite_f x"
| "json_ok finite_f (JArr xs) = (\<forall>x \<in> set xs. json_ok finite_f x)"
| "json_ok finite_f (JObj kvs) = (\<forall>p \<in> set kvs. json_ok finite_f (snd p))"

section \<open>The response writer\<close>

type_synonym headers = "string \<rightharpoonup> string"

datatype 'f chunk = JsonChunk "'f json" | TextChunk string

text \<open>
  The connection's writer: the header map as it stands, the status and headers that were sent, the
  body so far.  A second \<^verbatim>\<open>WriteHeader\<close> changes nothing.
\<close>

record 'f conn =
  cnHeader :: headers
  cnCookies :: "cookie list"
  cnSent :: "(nat \<times> headers \<times> cookie list) option"
  cnBody :: "'f chunk list"

definition fresh_conn :: "'f conn" where
  "fresh_conn = \<lparr>cnHeader = Map.empty, cnCookies = [], cnSent = None, cnBody = []\<rparr>"

definition conn_WriteHeader :: "nat \<Rightarrow> 'f conn \<Rightarrow> 'f conn" where
  "conn_WriteHeader code c =
     (case cnSent c of None \<Rightarrow> c\<lparr>cnSent := Some (code, cnHeader c, cnCookies c)\<rparr> | Some _ \<Rightarrow> c)"

definition conn_Write :: "'f chunk \<Rightarrow> 'f conn \<Rightarrow> 'f conn" where
  "conn_Write b c = (let c = conn_WriteHeader 200 c in c\<lparr>cnBody := cnBody c @ [b]\<rparr>)"

text \<open>\<^verbatim>\<open>type responseWriter\<close>, which wraps a writer: the innermost wrapper first, the
  connection last.\<close>

record responseWriter =
  rwStatus :: nat
  wroteHeader :: bool

definition new_responseWriter :: responseWriter where
  "new_responseWriter = \<lparr>rwStatus = 200, wroteHeader = False\<rparr>"

definition note_header :: "nat \<Rightarrow> responseWriter \<Rightarrow> responseWriter" where
  "note_header code rw = (if wroteHeader rw then rw else \<lparr>rwStatus = code, wroteHeader = True\<rparr>)"

fun rw_WriteHeader :: "nat \<Rightarrow> responseWriter list \<times> 'f conn \<Rightarrow> responseWriter list \<times> 'f conn" where
  "rw_WriteHeader code ([], c) = ([], conn_WriteHeader code c)"
| "rw_WriteHeader code (rw # rws, c) =
     (let rw = note_header code rw in
      case rw_WriteHeader code (rws, c) of (rws, c) \<Rightarrow> (rw # rws, c))"

lemma length_rw_WriteHeader: "length (fst (rw_WriteHeader code p)) = length (fst p)"
  by (induction code p rule: rw_WriteHeader.induct) (auto simp: Let_def split: prod.splits)

function rw_Write :: "'f chunk \<Rightarrow> responseWriter list \<times> 'f conn \<Rightarrow> responseWriter list \<times> 'f conn" where
  "rw_Write b ([], c) = ([], conn_Write b c)"
| "rw_Write b (rw # rws, c) =
     (if wroteHeader rw then (case rw_Write b (rws, c) of (rws, c) \<Rightarrow> (rw # rws, c))
      else case rw_Write b (rw_WriteHeader 200 (rws, c)) of (rws, c) \<Rightarrow> (note_header 200 rw # rws, c))"
  by pat_completeness auto
termination
  by (relation "measure (\<lambda>(b, p). length (fst p))") (auto simp: length_rw_WriteHeader)

text \<open>What the client receives when the handler is done.\<close>

definition final_status :: "'f conn \<Rightarrow> nat" where
  "final_status c = (case cnSent c of None \<Rightarrow> 200 | Some (code, _, _) \<Rightarrow> code)"

definition final_headers :: "'f conn \<Rightarrow> headers" where
  "final_headers c = (case cnSent c of None \<Rightarrow> cnHeader c | Some (_, h, _) \<Rightarrow> h)"

definition final_cookies :: "'f conn \<Rightarrow> cookie list" where
  "final_cookies c = (case cnSent c of None \<Rightarrow> cnCookies c | Some (_, _, ck) \<Rightarrow> ck)"

text \<open>Every wrapper that is there from the start knows the status the client receives.\<close>

definition in_step :: "responseWriter list \<times> 'f conn \<Rightarrow> bool" where
  "in_step p \<longleftrightarrow> (case p of (rws, c) \<Rightarrow>
     \<forall>rw \<in> set rws. wroteHeader rw = (cnSent c \<noteq> None) \<and> rwStatus rw = final_status c)"

lemma conn_WriteHeader_sel [simp]:
  "cnHeader (conn_WriteHeader code c) = cnHeader c" "cnCookies (conn_WriteHeader code c) = cnCookies c"
  "cnBody (conn_WriteHeader code c) = cnBody c" "cnSent (conn_WriteHeader code c) \<noteq> None"
  by (simp_all add: conn_WriteHeader_def split: option.splits)

lemma conn_WriteHeader_sent [simp]:
  "cnSent c = Some x \<Longrightarrow> conn_WriteHeader code c = c"
  "cnSent c = None \<Longrightarrow> cnSent (conn_WriteHeader code c) = Some (code, cnHeader c, cnCookies c)"
  by (simp_all add: conn_WriteHeader_def)

lemma rw_WriteHeader_eq:
  "rw_WriteHeader code (rws, c) = (map (note_header code) rws, conn_WriteHeader code c)"
  by (induction rws) (auto simp: Let_def)

lemma final_status_WriteHeader:
  "final_status (conn_WriteHeader code c) = (case cnSent c of None \<Rightarrow> code | Some _ \<Rightarrow> final_status c)"
  by (simp add: final_status_def conn_WriteHeader_def split: option.splits)

lemma in_step_WriteHeader: "in_step p \<Longrightarrow> in_step (rw_WriteHeader code p)"
  by (cases p; cases "cnSent (snd p)")
    (auto simp: rw_WriteHeader_eq in_step_def note_header_def final_status_WriteHeader)

lemma note_header_twice [simp]: "note_header a (note_header b x) = note_header b x"
  by (simp add: note_header_def)

lemma conn_Write_header [simp]: "conn_Write b (conn_WriteHeader 200 c) = conn_Write b c"
  by (simp add: conn_Write_def conn_WriteHeader_def Let_def split: option.splits)

lemma rw_Write_eq: "rw_Write b (rws, c) = (map (note_header 200) rws, conn_Write b c)"
proof (induction "length rws" arbitrary: rws c)
  case (Suc n)
  then obtain rw rest where rws: "rws = rw # rest" "n = length rest" by (cases rws) auto
  show ?case
  proof (cases "wroteHeader rw")
    case True
    then show ?thesis using Suc(1) [OF rws(2)] rws(1) by (simp add: note_header_def)
  next
    case False
    then show ?thesis
      using Suc(1) [of "map (note_header 200) rest" "conn_WriteHeader 200 c"] rws
      by (simp add: rw_WriteHeader_eq comp_def)
  qed
qed simp

lemma in_step_Write:
  assumes "in_step p"
  shows "in_step (rw_Write b p)"
proof -
  obtain rws c where p: "p = (rws, c)" by (cases p)
  have "in_step (rw_WriteHeader 200 (rws, c))" using assms p in_step_WriteHeader by blast
  then show ?thesis using p
    by (auto simp: rw_Write_eq rw_WriteHeader_eq in_step_def conn_Write_def Let_def final_status_def)
qed

section \<open>JSON in\<close>

text \<open>
  A body that \<^verbatim>\<open>encoding/json\<close> parsed, or why it did not parse.  Objects keep the
  order and the repetitions of their keys; numbers keep their text.
\<close>

datatype jval = VNull | VBool bool | VNum string | VStr string | VArr "jval list" | VObj "(string \<times> jval) list"

datatype json_error =
    Malformed string
  | UnknownField string
  | TypeMismatch string string \<comment> \<open>the field (empty at the top), the Go type\<close>
  | BadTime string

text \<open>
  Keys match field names up to case: \<^verbatim>\<open>foldName\<close> maps ASCII letters to upper case, and
  so it does with the two other characters that fold to ASCII, U+017F and U+212A.
\<close>

fun fold_name :: "string \<Rightarrow> string" where
  "fold_name [] = []"
| "fold_name (a # s) =
     (case s of
        b # c # t \<Rightarrow>
          if [a, b, c] = bytes [0xE2, 0x84, 0xAA] then CHR ''K'' # fold_name t
          else if [a, b] = bytes [0xC5, 0xBF] then CHR ''S'' # fold_name (c # t)
          else (if 97 \<le> byte_of a \<and> byte_of a \<le> 122 then char_of (byte_of a - 32) else a) # fold_name s
      | [b] \<Rightarrow>
          if [a, b] = bytes [0xC5, 0xBF] then [CHR ''S'']
          else (if 97 \<le> byte_of a \<and> byte_of a \<le> 122 then char_of (byte_of a - 32) else a) # fold_name s
      | [] \<Rightarrow> [if 97 \<le> byte_of a \<and> byte_of a \<le> 122 then char_of (byte_of a - 32) else a])"

text \<open>On ASCII, upper case.\<close>

lemma fold_name_ascii:
  "list_all (\<lambda>a. byte_of a < 128) s \<Longrightarrow>
     fold_name s = map (\<lambda>a. if 97 \<le> byte_of a \<and> byte_of a \<le> 122 then char_of (byte_of a - 32) else a) s"
proof (induction s rule: fold_name.induct)
  case (2 a s)
  have "a \<noteq> char_of (0xE2 :: nat)" "a \<noteq> char_of (0xC5 :: nat)" using "2.prems" by auto
  then show ?case using 2
    by (subst fold_name.simps, cases s; cases "tl s") (simp_all add: bytes_def del: fold_name.simps)
qed simp

text \<open>A struct field: how a value that is not null is stored in it.\<close>

type_synonym 's field_setter = "jval \<Rightarrow> 's \<Rightarrow> json_error + 's"

definition set_string :: "string \<Rightarrow> (string \<Rightarrow> 's \<Rightarrow> 's) \<Rightarrow> 's field_setter" where
  "set_string name upd v x =
     (case v of VStr str \<Rightarrow> Inr (upd str x) | _ \<Rightarrow> Inl (TypeMismatch name ''string''))"

definition set_int64 :: "string \<Rightarrow> (int64 \<Rightarrow> 's \<Rightarrow> 's) \<Rightarrow> 's field_setter" where
  "set_int64 name upd v x =
     (case v of
        VNum lit \<Rightarrow> (case ParseInt lit of (n, None) \<Rightarrow> Inr (upd n x) | _ \<Rightarrow> Inl (TypeMismatch name ''int64''))
      | _ \<Rightarrow> Inl (TypeMismatch name ''int64''))"

definition set_time :: "(string \<Rightarrow> gotime option) \<Rightarrow> string \<Rightarrow> (gotime \<Rightarrow> 's \<Rightarrow> 's) \<Rightarrow> 's field_setter" where
  "set_time parse_time name upd v x =
     (case v of
        VStr str \<Rightarrow> (case parse_time str of Some t \<Rightarrow> Inr (upd t x) | None \<Rightarrow> Inl (BadTime str))
      | _ \<Rightarrow> Inl (BadTime name))"

text \<open>
  \<^verbatim>\<open>Decode\<close> into a struct.  The first error is kept and the rest of the object is still
  read; \<open>strict\<close> is \<^verbatim>\<open>DisallowUnknownFields\<close>.  An error of a type's own \<^verbatim>\<open>UnmarshalJSON\<close>, here
  of \<^verbatim>\<open>time.Time\<close>, ends the reading at once and is the one returned.
\<close>

fun aborts_decoding :: "json_error \<Rightarrow> bool" where
  "aborts_decoding (BadTime s) = True"
| "aborts_decoding _ = False"

definition find_field :: "(string \<times> 's field_setter) list \<Rightarrow> string \<Rightarrow> 's field_setter option" where
  "find_field fds key =
     (case map_of fds key of
        Some f \<Rightarrow> Some f
      | None \<Rightarrow> map_of (map (\<lambda>(n, f). (fold_name n, f)) fds) (fold_name key))"

fun decode_fields :: "bool \<Rightarrow> (string \<times> 's field_setter) list \<Rightarrow> (string \<times> jval) list \<Rightarrow> 's
    \<Rightarrow> json_error option \<Rightarrow> json_error + 's" where
  "decode_fields strict fds [] x err = (case err of None \<Rightarrow> Inr x | Some e \<Rightarrow> Inl e)"
| "decode_fields strict fds ((key, v) # kvs) x err =
     (case find_field fds key of
        None \<Rightarrow>
          decode_fields strict fds kvs x
            (if strict \<and> err = None then Some (UnknownField key) else err)
      | Some f \<Rightarrow>
          if v = VNull then decode_fields strict fds kvs x err
          else case f v x of
            Inr x' \<Rightarrow> decode_fields strict fds kvs x' err
          | Inl e \<Rightarrow>
              if aborts_decoding e then Inl e
              else decode_fields strict fds kvs x (case err of None \<Rightarrow> Some e | Some _ \<Rightarrow> err))"

definition decode_struct :: "bool \<Rightarrow> string \<Rightarrow> (string \<times> 's field_setter) list \<Rightarrow> 's \<Rightarrow> json_error + jval
    \<Rightarrow> json_error + 's" where
  "decode_struct strict type_name fds zero body =
     (case body of
        Inl e \<Rightarrow> Inl e
      | Inr VNull \<Rightarrow> Inr zero
      | Inr (VObj kvs) \<Rightarrow> decode_fields strict fds kvs zero None
      | Inr _ \<Rightarrow> Inl (TypeMismatch [] type_name))"

definition zero_task :: task where
  "zero_task = \<lparr>tID = 0, tUserID = 0, tTitle = [], tDescription = [], tStatus = [],
     tCreatedAt = zero_time, tUpdatedAt = zero_time\<rparr>"

definition task_fields :: "(string \<Rightarrow> gotime option) \<Rightarrow> (string \<times> task field_setter) list" where
  "task_fields pt = [
     (''id'', set_int64 ''id'' (\<lambda>n t. t\<lparr>tID := n\<rparr>)),
     (''user_id'', set_int64 ''user_id'' (\<lambda>n t. t\<lparr>tUserID := n\<rparr>)),
     (''title'', set_string ''title'' (\<lambda>str t. t\<lparr>tTitle := str\<rparr>)),
     (''description'', set_string ''description'' (\<lambda>str t. t\<lparr>tDescription := str\<rparr>)),
     (''status'', set_string ''status'' (\<lambda>str t. t\<lparr>tStatus := str\<rparr>)),
     (''created_at'', set_time pt ''created_at'' (\<lambda>x t. t\<lparr>tCreatedAt := x\<rparr>)),
     (''updated_at'', set_time pt ''updated_at'' (\<lambda>x t. t\<lparr>tUpdatedAt := x\<rparr>))]"

record registerRequest =
  rrEmail :: string
  rrName :: string
  rrPassword :: string

record loginRequest =
  lrEmail :: string
  lrPassword :: string

definition register_fields :: "(string \<times> registerRequest field_setter) list" where
  "register_fields = [
     (''email'', set_string ''email'' (\<lambda>str x. x\<lparr>rrEmail := str\<rparr>)),
     (''name'', set_string ''name'' (\<lambda>str x. x\<lparr>rrName := str\<rparr>)),
     (''password'', set_string ''password'' (\<lambda>str x. x\<lparr>rrPassword := str\<rparr>))]"

definition login_fields :: "(string \<times> loginRequest field_setter) list" where
  "login_fields = [
     (''email'', set_string ''email'' (\<lambda>str x. x\<lparr>lrEmail := str\<rparr>)),
     (''password'', set_string ''password'' (\<lambda>str x. x\<lparr>lrPassword := str\<rparr>))]"

definition transfer_fields :: "(string \<times> create_transfer_request field_setter) list" where
  "transfer_fields = [
     (''receiver_account_id'', set_int64 ''receiver_account_id'' (\<lambda>n x. x\<lparr>rqReceiverAccountID := n\<rparr>)),
     (''amount'', set_int64 ''amount'' (\<lambda>n x. x\<lparr>rqAmount := n\<rparr>)),
     (''currency'', set_string ''currency'' (\<lambda>str x. x\<lparr>rqCurrency := str\<rparr>)),
     (''description'', set_string ''description'' (\<lambda>str x. x\<lparr>rqDescription := str\<rparr>))]"

definition currency_fields :: "(string \<times> string field_setter) list" where
  "currency_fields = [(''currency'', set_string ''currency'' (\<lambda>str _. str))]"

section \<open>Requests and the running application\<close>

text \<open>
  A request as the server hands it to the handlers: \<open>rqForm\<close> is what
  \<^verbatim>\<open>ParseForm\<close> gives, \<open>rqUser\<close> the user that \<^verbatim>\<open>requireAuth\<close>
  put into the context, \<open>rqPathValue\<close> the wildcards of the matched pattern.
  \<open>appRedirect\<close> is the status with which \<^verbatim>\<open>net/http\<close> redirects a path
  that is not canonical.
\<close>

record request =
  rqMethod :: string
  rqPath :: string
  rqEscapedPath :: string
  rqRemoteAddr :: string
  rqContentType :: string
  rqCookie :: "string option"
  rqBody :: "json_error + jval"
  rqForm :: "go_error + (string \<Rightarrow> string)"
  rqUser :: "user option"
  rqPathValue :: "string \<Rightarrow> string"

datatype log_record =
    HttpRequest string string nat \<comment> \<open>method, path, status\<close>
  | PanicRecovered string string
  | LogError string
  | LogWarn string

text \<open>
  The stores, the response, the log, and two counters that number the readings of the clock and the
  draws of random bytes.
\<close>

record ('d, 'r, 'a, 'f) world =
  wDb :: 'd
  wRedis :: 'r
  wAudit :: 'a
  wConn :: "'f conn"
  wWriters :: "responseWriter list"
  wLog :: "log_record list"
  wTick :: nat
  wDraw :: nat

text \<open>What the application is built from; it does not change while requests are served.\<close>

record ('d, 'r, 'a, 'f) app =
  appUsers :: "(reqctx, 'd) user_repository"
  appTasks :: "(reqctx, 'd) task_repository"
  appAccounts :: "(reqctx, 'd) account_repository"
  appTransfers :: "(reqctx, 'd) transfer_repository"
  appDriver :: "'d sql_driver"
  appAuth :: "'r session_manager"
  appRateLimit :: int64
  appAudit :: "(audit_record \<Rightarrow> 'a \<Rightarrow> 'a \<times> (go_error + unit)) option"
  appBcrypt :: bcrypt
  appCount :: "8 word list \<Rightarrow> counts"
  appFloat :: "'f float_ops"
  appFinite :: "'f \<Rightarrow> bool"
  appClock :: "nat \<Rightarrow> gotime"
  appRandom :: "nat \<Rightarrow> go_error + string"
  appSalt :: "nat \<Rightarrow> string"
  appIsPrint :: "nat \<Rightarrow> bool"
  appParseTime :: "string \<Rightarrow> gotime option"
  appJsonText :: "json_error \<Rightarrow> string"
  appRedirect :: nat

definition time_Now :: "('d, 'r, 'a, 'f) app \<Rightarrow> ('d, 'r, 'a, 'f) world \<Rightarrow> gotime \<times> ('d, 'r, 'a, 'f) world" where
  "time_Now A w = (appClock A (wTick w), w\<lparr>wTick := Suc (wTick w)\<rparr>)"

definition on_db :: "('d \<Rightarrow> 'd \<times> 'x) \<Rightarrow> ('d, 'r, 'a, 'f) world \<Rightarrow> ('d, 'r, 'a, 'f) world \<times> 'x" where
  "on_db f w = (case f (wDb w) of (d, x) \<Rightarrow> (w\<lparr>wDb := d\<rparr>, x))"

definition on_redis :: "('r \<Rightarrow> 'r \<times> 'x) \<Rightarrow> ('d, 'r, 'a, 'f) world \<Rightarrow> ('d, 'r, 'a, 'f) world \<times> 'x" where
  "on_redis f w = (case f (wRedis w) of (s, x) \<Rightarrow> (w\<lparr>wRedis := s\<rparr>, x))"

definition log_event :: "log_record \<Rightarrow> ('d, 'r, 'a, 'f) world \<Rightarrow> ('d, 'r, 'a, 'f) world" where
  "log_event l w = w\<lparr>wLog := wLog w @ [l]\<rparr>"

text \<open>Operations on the \<^verbatim>\<open>http.ResponseWriter\<close> that a handler is given.\<close>

definition set_header :: "string \<Rightarrow> string \<Rightarrow> ('d, 'r, 'a, 'f) world \<Rightarrow> ('d, 'r, 'a, 'f) world" where
  "set_header k v w = w\<lparr>wConn := (wConn w)\<lparr>cnHeader := (cnHeader (wConn w))(k \<mapsto> v)\<rparr>\<rparr>"

definition del_header :: "string \<Rightarrow> ('d, 'r, 'a, 'f) world \<Rightarrow> ('d, 'r, 'a, 'f) world" where
  "del_header k w = w\<lparr>wConn := (wConn w)\<lparr>cnHeader := (cnHeader (wConn w))(k := None)\<rparr>\<rparr>"

definition set_cookie :: "cookie \<Rightarrow> ('d, 'r, 'a, 'f) world \<Rightarrow> ('d, 'r, 'a, 'f) world" where
  "set_cookie ck w = w\<lparr>wConn := (wConn w)\<lparr>cnCookies := cnCookies (wConn w) @ [ck]\<rparr>\<rparr>"

definition write_header :: "nat \<Rightarrow> ('d, 'r, 'a, 'f) world \<Rightarrow> ('d, 'r, 'a, 'f) world" where
  "write_header code w = (case rw_WriteHeader code (wWriters w, wConn w) of
     (rws, c) \<Rightarrow> w\<lparr>wWriters := rws, wConn := c\<rparr>)"

definition write_body :: "'f chunk \<Rightarrow> ('d, 'r, 'a, 'f) world \<Rightarrow> ('d, 'r, 'a, 'f) world" where
  "write_body b w = (case rw_Write b (wWriters w, wConn w) of
     (rws, c) \<Rightarrow> w\<lparr>wWriters := rws, wConn := c\<rparr>)"

text \<open>\<^verbatim>\<open>http.Error\<close>.\<close>

definition http_Error :: "string \<Rightarrow> nat \<Rightarrow> ('d, 'r, 'a, 'f) world \<Rightarrow> ('d, 'r, 'a, 'f) world" where
  "http_Error msg code w =
     write_body (TextChunk (msg @ [CHR 0x0A])) (write_header code
       (set_header ''X-Content-Type-Options'' ''nosniff''
         (set_header ''Content-Type'' ''text/plain; charset=utf-8'' (del_header ''Content-Length'' w))))"

definition StatusText :: "nat \<Rightarrow> string" where
  "StatusText code =
     (if code = 429 then ''Too Many Requests'' else if code = 500 then ''Internal Server Error'' else [])"

end
