(* ===== verification/Handlers.thy ===== *)
theory Handlers
  imports Http
begin

text \<open>
  The handlers of \<^verbatim>\<open>handlers.go\<close>, \<^verbatim>\<open>auth_handlers.go\<close> and
  \<^verbatim>\<open>router.go\<close>, the authentication in front of them, and the routing table.  A
  handler takes the application, the request and the world and returns the world.
\<close>

type_synonym ('d, 'r, 'a, 'f) serve =
  "('d, 'r, 'a, 'f) app \<Rightarrow> request \<Rightarrow> ('d, 'r, 'a, 'f) world \<Rightarrow> ('d, 'r, 'a, 'f) world"

section \<open>Responses\<close>

definition invalidTaskIDMessage :: string where
  "invalidTaskIDMessage = ''invalid task id''"

definition authenticationRequiredMessage :: string where
  "authenticationRequiredMessage = ''authentication required''"

definition respondJSON :: "('d, 'r, 'a, 'f) app \<Rightarrow> nat \<Rightarrow> 'f payload \<Rightarrow> ('d, 'r, 'a, 'f) world
    \<Rightarrow> ('d, 'r, 'a, 'f) world" where
  "respondJSON A code data w =
     (let w = write_header code (set_header ''Content-Type'' ''application/json'' w) in
      if json_ok (appFinite A) (payload_json data) then write_body (JsonChunk (payload_json data)) w
      else log_event (LogError ''json encode failed'') w)"

definition respondError :: "('d, 'r, 'a, 'f) app \<Rightarrow> nat \<Rightarrow> string \<Rightarrow> ('d, 'r, 'a, 'f) world
    \<Rightarrow> ('d, 'r, 'a, 'f) world" where
  "respondError A code msg w = respondJSON A code (PMap ''error'' msg) w"

definition handleServiceError :: "('d, 'r, 'a, 'f) app \<Rightarrow> go_error \<Rightarrow> ('d, 'r, 'a, 'f) world
    \<Rightarrow> ('d, 'r, 'a, 'f) world" where
  "handleServiceError A err w =
     (case as_NotFound err of
        Some nf \<Rightarrow> respondError A 404 (error_text (appIsPrint A) nf) w
      | None \<Rightarrow>
     (case as_Validation err of
        Some ve \<Rightarrow> respondError A 422 (error_text (appIsPrint A) ve) w
      | None \<Rightarrow>
     (case as_Conflict err of
        Some ce \<Rightarrow> respondError A 409 (error_text (appIsPrint A) ce) w
      | None \<Rightarrow>
     (case as_Unauthorized err of
        Some ue \<Rightarrow> respondError A 401 (error_text (appIsPrint A) ue) w
      | None \<Rightarrow>
          respondError A 500 ''internal server error''
            (log_event (LogError ''unhandled service error'') w)))))"

section \<open>Decoding\<close>

definition decodeJSONBody :: "('d, 'r, 'a, 'f) app \<Rightarrow> string \<Rightarrow> (string \<times> 's field_setter) list \<Rightarrow> 's
    \<Rightarrow> request \<Rightarrow> go_error + 's" where
  "decodeJSONBody A type_name fds zero r =
     (case decode_struct True type_name fds zero (rqBody r) of
        Inl e \<Rightarrow> Inl (LibError (appJsonText A e))
      | Inr x \<Rightarrow> Inr x)"

definition decodeTask :: "('d, 'r, 'a, 'f) app \<Rightarrow> request \<Rightarrow> go_error + task" where
  "decodeTask A r =
     (if rqContentType r = [] \<or> HasPrefix (rqContentType r) ''application/json''
      then decodeJSONBody A ''domain.Task'' (task_fields (appParseTime A)) zero_task r
      else case rqForm r of
        Inl err \<Rightarrow> Inl err
      | Inr form \<Rightarrow>
          let userID = fst (ParseInt (form ''user_id'')) in
          Inr (zero_task\<lparr>tUserID := userID, tTitle := form ''title'',
                 tDescription := form ''description'', tStatus := form ''status''\<rparr>))"

definition pathInt64 :: "request \<Rightarrow> string \<Rightarrow> int64 \<times> num_error option" where
  "pathInt64 r name = ParseInt (rqPathValue r name)"

text \<open>No handler calls \<open>queryInt64\<close>; \<open>get\<close> is \<^verbatim>\<open>r.URL.Query().Get\<close>, and the missing parameter is \<^verbatim>\<open>strconv.ErrRange\<close>.\<close>

definition queryInt64 :: "(string \<Rightarrow> string) \<Rightarrow> string \<Rightarrow> int64 \<times> go_error option" where
  "queryInt64 get name =
     (let raw = get name in
      if raw = [] then (0, Some (LibError ''value out of range''))
      else case ParseInt raw of (i, e) \<Rightarrow> (i, map_option (\<lambda>e. NumError e raw) e))"

definition currentUser :: "request \<Rightarrow> user option" where
  "currentUser r = rqUser r"

section \<open>Authentication\<close>

definition auth_issue :: "('d, 'r, 'a, 'f) app \<Rightarrow> int64 \<Rightarrow> ('d, 'r, 'a, 'f) world
    \<Rightarrow> ('d, 'r, 'a, 'f) world \<times> go_error option" where
  "auth_issue A userID w =
     (let (now, w) = time_Now A w; (sent_at, w) = time_Now A w;
          rnd = appRandom A (wDraw w); w = w\<lparr>wDraw := Suc (wDraw w)\<rparr> in
      case on_redis (issue (appAuth A) rnd now sent_at userID) w of
        (w, Inl err) \<Rightarrow> (w, Some err)
      | (w, Inr ck) \<Rightarrow> (set_cookie ck w, None))"

definition auth_clear :: "('d, 'r, 'a, 'f) app \<Rightarrow> ('d, 'r, 'a, 'f) world \<Rightarrow> ('d, 'r, 'a, 'f) world" where
  "auth_clear A w = set_cookie (clear_cookie (appAuth A)) w"

definition auth_revoke :: "('d, 'r, 'a, 'f) serve" where
  "auth_revoke A r w =
     (let (now, w) = time_Now A w in w\<lparr>wRedis := revoke (appAuth A) now (rqCookie r) (wRedis w)\<rparr>)"

definition auth_authenticate :: "('d, 'r, 'a, 'f) app \<Rightarrow> request \<Rightarrow> ('d, 'r, 'a, 'f) world
    \<Rightarrow> ('d, 'r, 'a, 'f) world \<times> (go_error + user)" where
  "auth_authenticate A r w =
     (case rqCookie r of
        None \<Rightarrow> (w, Inl (WrapError ''cookie'' (LibError ''http: named cookie not present'')))
      | Some cookie_value \<Rightarrow>
          (let (now, w) = time_Now A w in
           case on_redis (userIDFromCookieValue (appAuth A) now cookie_value) w of
             (w, Inl err) \<Rightarrow> (w, Inl err)
           | (w, Inr userID) \<Rightarrow>
               (case on_db (UserService_GetByID (appUsers A) background userID) w of
                  (w, Inl err) \<Rightarrow> (w, Inl err)
                | (w, Inr u) \<Rightarrow> (w, Inr u))))"

definition requireAuth :: "('d, 'r, 'a, 'f) serve \<Rightarrow> ('d, 'r, 'a, 'f) serve" where
  "requireAuth handler A r w =
     (case auth_authenticate A r w of
        (w, Inl err) \<Rightarrow> respondError A 401 authenticationRequiredMessage (auth_clear A w)
      | (w, Inr u) \<Rightarrow> handler A (r\<lparr>rqUser := Some u\<rparr>) w)"

definition handleAuthRegister :: "('d, 'r, 'a, 'f) serve" where
  "handleAuthRegister A r w =
     (case decodeJSONBody A ''web.registerRequest'' register_fields
             \<lparr>rrEmail = [], rrName = [], rrPassword = []\<rparr> r of
        Inl err \<Rightarrow> respondError A 400 (error_text (appIsPrint A) err) w
      | Inr req \<Rightarrow>
          let u = \<lparr>uID = 0, uEmail = rrEmail req, uName = rrName req, uPassword = rrPassword req,
                   uCreatedAt = zero_time, uUpdatedAt = zero_time\<rparr>;
              salt = appSalt A (wDraw w); w = w\<lparr>wDraw := Suc (wDraw w)\<rparr> in
          (case on_db (UserService_Register (appBcrypt A) (appUsers A) salt background u) w of
             (w, Inl err) \<Rightarrow> handleServiceError A err w
           | (w, Inr u) \<Rightarrow>
               (case auth_issue A (uID u) w of
                  (w, Some err) \<Rightarrow>
                    respondError A 500 ''internal server error'' (log_event (LogError ''issue session failed'') w)
                | (w, None) \<Rightarrow> respondJSON A 201 (PUser u) w)))"

definition handleAuthLogin :: "('d, 'r, 'a, 'f) serve" where
  "handleAuthLogin A r w =
     (case decodeJSONBody A ''web.loginRequest'' login_fields \<lparr>lrEmail = [], lrPassword = []\<rparr> r of
        Inl err \<Rightarrow> respondError A 400 (error_text (appIsPrint A) err) w
      | Inr req \<Rightarrow>
          (case on_db (UserService_Authenticate (appBcrypt A) (appUsers A) background (lrEmail req)
                  (lrPassword req)) w of
             (w, Inl err) \<Rightarrow> handleServiceError A err w
           | (w, Inr u) \<Rightarrow>
               (case auth_issue A (uID u) w of
                  (w, Some err) \<Rightarrow>
                    respondError A 500 ''internal server error'' (log_event (LogError ''issue session failed'') w)
                | (w, None) \<Rightarrow> respondJSON A 200 (PUser u) w)))"

definition handleAuthLogout :: "('d, 'r, 'a, 'f) serve" where
  "handleAuthLogout A r w = respondJSON A 200 (PMap ''status'' ''logged_out'') (auth_clear A (auth_revoke A r w))"

definition handleAuthMe :: "('d, 'r, 'a, 'f) serve" where
  "handleAuthMe A r w =
     (case currentUser r of
        None \<Rightarrow> respondError A 401 authenticationRequiredMessage w
      | Some u \<Rightarrow> respondJSON A 200 (PUser u) w)"

section \<open>Tasks\<close>

definition taskForUser :: "('d, 'r, 'a, 'f) app \<Rightarrow> int64 \<Rightarrow> int64 \<Rightarrow> ('d, 'r, 'a, 'f) world
    \<Rightarrow> ('d, 'r, 'a, 'f) world \<times> (go_error + task)" where
  "taskForUser A taskID userID w =
     (case on_db (TaskService_GetByID (appTasks A) background taskID) w of
        (w, Inl err) \<Rightarrow> (w, Inl err)
      | (w, Inr t) \<Rightarrow>
          if tUserID t \<noteq> userID then (w, Inl (NewNotFoundError ''task'' (''id='' @ FormatInt taskID)))
          else (w, Inr t))"

definition handleTaskList :: "('d, 'r, 'a, 'f) serve" where
  "handleTaskList A r w =
     (case currentUser r of
        None \<Rightarrow> respondError A 401 authenticationRequiredMessage w
      | Some u \<Rightarrow>
          (case on_db (TaskService_ListByUser (appTasks A) (appUsers A) background (uID u)) w of
             (w, Inl err) \<Rightarrow> handleServiceError A err w
           | (w, Inr tasks) \<Rightarrow> respondJSON A 200 (PTasks tasks) w))"

definition handleTaskGet :: "('d, 'r, 'a, 'f) serve" where
  "handleTaskGet A r w =
     (case currentUser r of
        None \<Rightarrow> respondError A 401 authenticationRequiredMessage w
      | Some u \<Rightarrow>
          (case pathInt64 r ''id'' of
             (_, Some _) \<Rightarrow> respondError A 400 invalidTaskIDMessage w
           | (i, None) \<Rightarrow>
               (case taskForUser A i (uID u) w of
                  (w, Inl err) \<Rightarrow> handleServiceError A err w
                | (w, Inr t) \<Rightarrow> respondJSON A 200 (PTask t) w)))"

definition handleTaskCreate :: "('d, 'r, 'a, 'f) serve" where
  "handleTaskCreate A r w =
     (case currentUser r of
        None \<Rightarrow> respondError A 401 authenticationRequiredMessage w
      | Some u \<Rightarrow>
          (case decodeTask A r of
             Inl err \<Rightarrow> respondError A 400 (error_text (appIsPrint A) err) w
           | Inr t \<Rightarrow>
               let t = t\<lparr>tUserID := uID u\<rparr> in
               (case on_db (TaskService_Create (appTasks A) (appUsers A) background t) w of
                  (w, Inl err) \<Rightarrow> handleServiceError A err w
                | (w, Inr t) \<Rightarrow> respondJSON A 201 (PTask t) w)))"

definition handleTaskUpdate :: "('d, 'r, 'a, 'f) serve" where
  "handleTaskUpdate A r w =
     (case currentUser r of
        None \<Rightarrow> respondError A 401 authenticationRequiredMessage w
      | Some u \<Rightarrow>
          (case pathInt64 r ''id'' of
             (_, Some _) \<Rightarrow> respondError A 400 invalidTaskIDMessage w
           | (i, None) \<Rightarrow>
               (case taskForUser A i (uID u) w of
                  (w, Inl err) \<Rightarrow> handleServiceError A err w
                | (w, Inr _) \<Rightarrow>
                    (case decodeTask A r of
                       Inl err \<Rightarrow> respondError A 400 (error_text (appIsPrint A) err) w
                     | Inr t \<Rightarrow>
                         let t = t\<lparr>tID := i, tUserID := uID u\<rparr> in
                         (case on_db (TaskService_Update (appTasks A) background t) w of
                            (w, Inl err) \<Rightarrow> handleServiceError A err w
                          | (w, Inr t) \<Rightarrow> respondJSON A 200 (PTask t) w)))))"

definition handleTaskDelete :: "('d, 'r, 'a, 'f) serve" where
  "handleTaskDelete A r w =
     (case currentUser r of
        None \<Rightarrow> respondError A 401 authenticationRequiredMessage w
      | Some u \<Rightarrow>
          (case pathInt64 r ''id'' of
             (_, Some _) \<Rightarrow> respondError A 400 invalidTaskIDMessage w
           | (i, None) \<Rightarrow>
               (case taskForUser A i (uID u) w of
                  (w, Inl err) \<Rightarrow> handleServiceError A err w
                | (w, Inr _) \<Rightarrow>
                    (case on_db (TaskService_Delete (appTasks A) background i) w of
                       (w, Inl err) \<Rightarrow> handleServiceError A err w
                     | (w, Inr _) \<Rightarrow> respondJSON A 200 (PMap ''status'' ''deleted'') w))))"

definition handleTaskStats :: "('d, 'r, 'a, 'f) serve" where
  "handleTaskStats A r w =
     (case currentUser r of
        None \<Rightarrow> respondError A 401 authenticationRequiredMessage w
      | Some u \<Rightarrow>
          (case on_db (TaskService_StatsByUser (appFloat A) (appCount A) (appTasks A) (appUsers A) background
                  (uID u)) w of
             (w, Inl err) \<Rightarrow> handleServiceError A err w
           | (w, Inr st) \<Rightarrow> respondJSON A 200 (PStats st) w))"

section \<open>Banking\<close>

definition handleAccountList :: "('d, 'r, 'a, 'f) serve" where
  "handleAccountList A r w =
     (case currentUser r of
        None \<Rightarrow> respondError A 401 authenticationRequiredMessage w
      | Some u \<Rightarrow>
          (case on_db (BankingService_GetUserAccounts (appAccounts A) background (uID u)) w of
             (w, Inl err) \<Rightarrow> handleServiceError A err w
           | (w, Inr accounts) \<Rightarrow> respondJSON A 200 (PAccounts accounts) w))"

definition handleAccountCreate :: "('d, 'r, 'a, 'f) serve" where
  "handleAccountCreate A r w =
     (case decode_struct False ''struct'' currency_fields [] (rqBody r) of
        Inl err \<Rightarrow> respondError A 400 (appJsonText A err) w
      | Inr currency \<Rightarrow>
          (case currentUser r of
             None \<Rightarrow> respondError A 401 authenticationRequiredMessage w
           | Some u \<Rightarrow>
               (case on_db (BankingService_CreateAccount (appAccounts A) background (uID u) currency) w of
                  (w, Inl err) \<Rightarrow> handleServiceError A err w
                | (w, Inr acc) \<Rightarrow> respondJSON A 201 (PAccount acc) w)))"

definition handleTransferCreate :: "('d, 'r, 'a, 'f) serve" where
  "handleTransferCreate A r w =
     (case pathInt64 r ''id'' of
        (_, Some _) \<Rightarrow> respondError A 400 ''invalid account id'' w
      | (i, None) \<Rightarrow>
          (case decode_struct False ''domain.CreateTransferRequest'' transfer_fields
                  \<lparr>rqReceiverAccountID = 0, rqAmount = 0, rqCurrency = [], rqDescription = []\<rparr> (rqBody r) of
             Inl err \<Rightarrow> respondError A 400 (appJsonText A err) w
           | Inr req \<Rightarrow>
               (case currentUser r of
                  None \<Rightarrow> respondError A 401 authenticationRequiredMessage w
                | Some u \<Rightarrow>
                    (case on_db (BankingService_Transfer (appDriver A) (appAccounts A) (appTransfers A) background
                            (uID u) req i) w of
                       (w, Inl err) \<Rightarrow> handleServiceError A err w
                     | (w, Inr tr) \<Rightarrow> respondJSON A 201 (PTransfer tr) w))))"

definition handleHealth :: "('d, 'r, 'a, 'f) serve" where
  "handleHealth A r w =
     write_body (JsonChunk (payload_json (PMap ''status'' ''ok'')))
       (write_header 200 (set_header ''Content-Type'' ''application/json'' w))"

section \<open>Routes\<close>

datatype endpoint = EpHealth | EpRegister | EpLogin | EpLogout | EpMe
  | EpTaskList | EpTaskCreate | EpTaskStats | EpTaskGet | EpTaskUpdate | EpTaskDelete
  | EpAccountList | EpAccountCreate | EpTransferCreate

datatype segment = Lit string | Wild string

definition routes :: "(string \<times> segment list \<times> endpoint) list" where
  "routes = [
     (''GET'', [Lit ''health''], EpHealth),
     (''POST'', [Lit ''auth'', Lit ''register''], EpRegister),
     (''POST'', [Lit ''auth'', Lit ''login''], EpLogin),
     (''POST'', [Lit ''auth'', Lit ''logout''], EpLogout),
     (''GET'', [Lit ''auth'', Lit ''me''], EpMe),
     (''GET'', [Lit ''tasks''], EpTaskList),
     (''POST'', [Lit ''tasks''], EpTaskCreate),
     (''GET'', [Lit ''tasks'', Lit ''stats''], EpTaskStats),
     (''GET'', [Lit ''tasks'', Wild ''id''], EpTaskGet),
     (''PUT'', [Lit ''tasks'', Wild ''id''], EpTaskUpdate),
     (''DELETE'', [Lit ''tasks'', Wild ''id''], EpTaskDelete),
     (''GET'', [Lit ''accounts''], EpAccountList),
     (''POST'', [Lit ''accounts''], EpAccountCreate),
     (''POST'', [Lit ''accounts'', Wild ''id'', Lit ''transfer''], EpTransferCreate)]"

text \<open>The handler behind each pattern, \<^verbatim>\<open>requireAuth\<close> included.\<close>

fun endpoint_serve :: "endpoint \<Rightarrow> ('d, 'r, 'a, 'f) serve" where
  "endpoint_serve EpHealth = handleHealth"
| "endpoint_serve EpRegister = handleAuthRegister"
| "endpoint_serve EpLogin = handleAuthLogin"
| "endpoint_serve EpLogout = handleAuthLogout"
| "endpoint_serve EpMe = requireAuth handleAuthMe"
| "endpoint_serve EpTaskList = requireAuth handleTaskList"
| "endpoint_serve EpTaskCreate = requireAuth handleTaskCreate"
| "endpoint_serve EpTaskStats = requireAuth handleTaskStats"
| "endpoint_serve EpTaskGet = requireAuth handleTaskGet"
| "endpoint_serve EpTaskUpdate = requireAuth handleTaskUpdate"
| "endpoint_serve EpTaskDelete = requireAuth handleTaskDelete"
| "endpoint_serve EpAccountList = requireAuth handleAccountList"
| "endpoint_serve EpAccountCreate = requireAuth handleAccountCreate"
| "endpoint_serve EpTransferCreate = requireAuth handleTransferCreate"

section \<open>The mux\<close>

text \<open>
  \<^verbatim>\<open>http.ServeMux\<close> as the patterns above use it: a pattern matches a method and the
  segments of the escaped path, a \<^verbatim>\<open>GET\<close> pattern matches \<^verbatim>\<open>HEAD\<close> too,
  a wildcard matches one segment that is neither empty nor an escaped slash, and of two patterns that match the one with fewer
  wildcards is taken.
\<close>

definition hex_val :: "char \<Rightarrow> nat option" where
  "hex_val c = (let n = byte_of c in
     if 48 \<le> n \<and> n \<le> 57 then Some (n - 48)
     else if 65 \<le> n \<and> n \<le> 70 then Some (n - 55)
     else if 97 \<le> n \<and> n \<le> 102 then Some (n - 87) else None)"

fun path_unescape :: "string \<Rightarrow> string" where
  "path_unescape [] = []"
| "path_unescape (c # s) =
     (case s of
        x # y # t \<Rightarrow>
          (if c = CHR ''%''
           then case (hex_val x, hex_val y) of
                  (Some h, Some l) \<Rightarrow> char_of (16 * h + l) # path_unescape t
                | _ \<Rightarrow> c # path_unescape s
           else c # path_unescape s)
      | _ \<Rightarrow> c # path_unescape s)"

fun match_segments :: "segment list \<Rightarrow> string list \<Rightarrow> (string \<times> string) list option" where
  "match_segments [] [] = Some []"
| "match_segments (Lit l # ps) (s # ss) = (if path_unescape s = l then match_segments ps ss else None)"
| "match_segments (Wild n # ps) (s # ss) =
     (if s = [] \<or> path_unescape s = ''/'' then None else map_option (\<lambda>bs. (n, path_unescape s) # bs) (match_segments ps ss))"
| "match_segments _ _ = None"

definition method_matches :: "string \<Rightarrow> string \<Rightarrow> bool" where
  "method_matches pattern_method m \<longleftrightarrow> m = pattern_method \<or> (pattern_method = ''GET'' \<and> m = ''HEAD'')"

definition candidates :: "string \<Rightarrow> string list \<Rightarrow> (endpoint \<times> (string \<times> string) list) list" where
  "candidates m ss = concat (map (\<lambda>(pm, ps, ep).
     if method_matches pm m then (case match_segments ps ss of Some bs \<Rightarrow> [(ep, bs)] | None \<Rightarrow> []) else []) routes)"

definition mux_match :: "string \<Rightarrow> string list \<Rightarrow> (endpoint \<times> (string \<times> string) list) option" where
  "mux_match m ss =
     (case sort_key (\<lambda>(ep, bs). length bs) (candidates m ss) of [] \<Rightarrow> None | c # _ \<Rightarrow> Some c)"

definition path_segments :: "string \<Rightarrow> string list" where
  "path_segments p = Split CHR ''/'' (tl p)"

definition canonical_path :: "string \<Rightarrow> bool" where
  "canonical_path p \<longleftrightarrow> HasPrefix p ''/'' \<and> (\<forall>s \<in> set (path_segments p). s \<noteq> ''.'' \<and> s \<noteq> ''..'')
     \<and> (\<forall>s \<in> set (butlast (path_segments p)). s \<noteq> [])"

definition allowed_methods :: "string list \<Rightarrow> string list" where
  "allowed_methods ss = filter (\<lambda>m. candidates m ss \<noteq> []) [''DELETE'', ''GET'', ''HEAD'', ''POST'', ''PUT'']"

definition join_comma :: "string list \<Rightarrow> string" where
  "join_comma xs = (case xs of [] \<Rightarrow> [] | x # rest \<Rightarrow> x @ concat (map (\<lambda>y. '', '' @ y) rest))"

definition mux_serve :: "('d, 'r, 'a, 'f) serve" where
  "mux_serve A r w =
     (if rqMethod r \<noteq> ''CONNECT'' \<and> \<not> canonical_path (rqEscapedPath r) then write_header (appRedirect A) w
      else let ss = path_segments (rqEscapedPath r) in
        case mux_match (rqMethod r) ss of
          Some (ep, bs) \<Rightarrow>
            endpoint_serve ep A
              (r\<lparr>rqPathValue := (\<lambda>n. case map_of bs n of Some v \<Rightarrow> v | None \<Rightarrow> [])\<rparr>) w
        | None \<Rightarrow>
            if allowed_methods ss \<noteq> []
            then http_Error ''Method Not Allowed'' 405 (set_header ''Allow'' (join_comma (allowed_methods ss)) w)
            else http_Error ''404 page not found'' 404 w)"

end
