(* ===== verification/Routing.thy ===== *)
theory Routing
  imports Handlers
begin

text \<open>
  The routing table against the rule that \<^verbatim>\<open>http.ServeMux\<close> documents: patterns may
  overlap only when one of them is more specific, registering two that conflict panics, and of the patterns
  that match a request the most specific one is taken.
\<close>

section \<open>Which pattern is more specific\<close>

fun wilds :: "segment list \<Rightarrow> nat" where
  "wilds [] = 0"
| "wilds (Lit l # ps) = wilds ps"
| "wilds (Wild n # ps) = Suc (wilds ps)"

text \<open>Some path matches both patterns; every path that matches the first matches the second.\<close>

fun overlaps :: "segment list \<Rightarrow> segment list \<Rightarrow> bool" where
  "overlaps [] [] \<longleftrightarrow> True"
| "overlaps (Lit l # ps) (Lit k # qs) \<longleftrightarrow> l = k \<and> overlaps ps qs"
| "overlaps (p # ps) (q # qs) \<longleftrightarrow> overlaps ps qs"
| "overlaps _ _ \<longleftrightarrow> False"

fun at_most :: "segment list \<Rightarrow> segment list \<Rightarrow> bool" where
  "at_most [] [] \<longleftrightarrow> True"
| "at_most (p # ps) (Wild n # qs) \<longleftrightarrow> at_most ps qs"
| "at_most (Lit l # ps) (Lit k # qs) \<longleftrightarrow> l = k \<and> at_most ps qs"
| "at_most _ _ \<longleftrightarrow> False"

lemma matched_wilds: "match_segments ps ss = Some bs \<Longrightarrow> length bs = wilds ps"
  by (induction ps ss arbitrary: bs rule: match_segments.induct) (auto split: if_splits)

lemma matched_overlaps: "match_segments ps ss = Some bs \<Longrightarrow> match_segments qs ss = Some cs \<Longrightarrow> overlaps ps qs"
proof (induction ss arbitrary: ps qs bs cs)
  case Nil
  then show ?case by (cases ps; cases qs; cases "hd ps"; cases "hd qs") simp_all
next
  case (Cons s ss)
  then show ?case
    by (cases ps; cases qs; cases "hd ps"; cases "hd qs") (auto split: if_splits)
qed

lemma wilds_Cons: "wilds (p # ps) \<le> Suc (wilds ps)"
  by (cases p) simp_all

lemma at_most_wilds: "at_most ps qs \<Longrightarrow> wilds ps \<le> wilds qs"
  by (induction ps qs rule: at_most.induct) (auto intro: order_trans [OF wilds_Cons])

section \<open>The routing table\<close>

text \<open>No two routes conflict, so \<^verbatim>\<open>NewRouter\<close> does not panic; a route that overlaps another and has no more
  wildcards is the more specific one, and one with as many is the same route.\<close>

lemma routes_do_not_conflict:
  "\<forall>(pm, ps, ep) \<in> set routes. pm \<noteq> ''HEAD'' \<and> (\<forall>(qm, qs, ep') \<in> set routes.
     pm = qm \<and> overlaps ps qs \<longrightarrow> (wilds ps \<le> wilds qs \<longrightarrow> at_most ps qs) \<and> (wilds ps = wilds qs \<longrightarrow> ps = qs \<and> ep = ep'))"
  by (simp add: routes_def)

text \<open>The table names every endpoint, and each one once: a handler that is built is also registered.\<close>

instantiation endpoint :: enum
begin

definition enum_endpoint :: "endpoint list" where
  "enum_endpoint = map (\<lambda>(m, ps, ep). ep) routes"

definition enum_all_endpoint :: "(endpoint \<Rightarrow> bool) \<Rightarrow> bool" where
  "enum_all_endpoint P \<longleftrightarrow> list_all (\<lambda>(m, ps, ep). P ep) routes"

definition enum_ex_endpoint :: "(endpoint \<Rightarrow> bool) \<Rightarrow> bool" where
  "enum_ex_endpoint P \<longleftrightarrow> list_ex (\<lambda>(m, ps, ep). P ep) routes"

instance
proof
  have named: "ep \<in> set (map (\<lambda>(m, ps, ep). ep) routes)" for ep
    by (cases ep) (simp_all add: routes_def)
  show "(UNIV :: endpoint set) = set enum_class.enum" unfolding enum_endpoint_def using named by blast
  show "distinct (enum_class.enum :: endpoint list)" by (simp add: enum_endpoint_def routes_def)
  show "enum_class.enum_all P \<longleftrightarrow> Ball UNIV P" for P :: "endpoint \<Rightarrow> bool"
    using named by (fastforce simp: enum_all_endpoint_def list_all_iff)
  show "enum_class.enum_ex P \<longleftrightarrow> Bex UNIV P" for P :: "endpoint \<Rightarrow> bool"
    using named by (fastforce simp: enum_ex_endpoint_def list_ex_iff)
qed

end

text \<open>So a request reaches every endpoint: one with the method and the path of its pattern.\<close>

definition sample_path :: "segment list \<Rightarrow> string list" where
  "sample_path ps = map (\<lambda>p. case p of Lit l \<Rightarrow> l | Wild n \<Rightarrow> ''7'') ps"

lemma every_endpoint_reached: "\<exists>m ss bs. mux_match m ss = Some (ep :: endpoint, bs)"
proof -
  have "list_all (\<lambda>(m, ps, ep). map_option fst (mux_match m (sample_path ps)) = Some ep) routes" by code_simp
  moreover have "ep \<in> set (map (\<lambda>(m, ps, ep). ep) routes)"
    using enum_UNIV [where 'a = endpoint] by (simp add: enum_endpoint_def)
  ultimately obtain m ps where "map_option fst (mux_match m (sample_path ps)) = Some ep"
    by (fastforce simp: list_all_iff)
  then obtain bs where "mux_match m (sample_path ps) = Some (ep, bs)" by (auto simp: map_option_eq_Some)
  then show ?thesis by blast
qed

lemma same_method: "method_matches pm m \<Longrightarrow> method_matches qm m \<Longrightarrow> pm \<noteq> ''HEAD'' \<Longrightarrow> qm \<noteq> ''HEAD'' \<Longrightarrow> pm = qm"
  by (auto simp: method_matches_def)

lemma candidates_iff:
  "(ep, bs) \<in> set (candidates m ss) \<longleftrightarrow>
     (\<exists>pm ps. (pm, ps, ep) \<in> set routes \<and> method_matches pm m \<and> match_segments ps ss = Some bs)" (is "?L \<longleftrightarrow> ?R")
proof
  assume ?L
  then obtain x where x: "x \<in> set routes" "(ep, bs) \<in> set (case x of (pm, ps, ep) \<Rightarrow>
      if method_matches pm m then (case match_segments ps ss of Some bs \<Rightarrow> [(ep, bs)] | None \<Rightarrow> []) else [])"
    unfolding candidates_def set_concat set_map by blast
  obtain pm ps ep' where eq: "x = (pm, ps, ep')" by (rule prod_cases3)
  from x [unfolded eq prod.case] have r: "(pm, ps, ep') \<in> set routes" "(ep, bs) \<in> set (if method_matches pm m
      then (case match_segments ps ss of Some bs \<Rightarrow> [(ep', bs)] | None \<Rightarrow> []) else [])" .
  have m: "method_matches pm m" using r(2) by (cases "method_matches pm m") simp_all
  have "match_segments ps ss = Some bs" "ep = ep'" using r(2) m by (cases "match_segments ps ss"; simp)+
  with r(1) m show ?R by blast
next
  assume ?R
  then obtain pm ps where r: "(pm, ps, ep) \<in> set routes" "method_matches pm m" "match_segments ps ss = Some bs" by blast
  show ?L unfolding candidates_def set_concat set_map
    by (rule UN_I [OF imageI [OF r(1)]]) (simp only: r(2,3) prod.case if_True option.case list.set insertI1)
qed

definition route_taken :: "string \<Rightarrow> string list \<Rightarrow> endpoint \<Rightarrow> (string \<times> string) list \<Rightarrow> bool" where
  "route_taken m ss ep bs \<longleftrightarrow> (\<exists>pm ps. (pm, ps, ep) \<in> set routes \<and> method_matches pm m \<and> match_segments ps ss = Some bs
     \<and> (\<forall>(qm, qs, ep') \<in> set routes. method_matches qm m \<and> match_segments qs ss \<noteq> None \<longrightarrow> at_most ps qs))"

lemma two_candidates:
  assumes "(pm, ps, ep) \<in> set routes" "method_matches pm m" "match_segments ps ss = Some bs"
    and "(qm, qs, ep') \<in> set routes" "method_matches qm m" "match_segments qs ss = Some cs"
  shows "length bs \<le> length cs \<longleftrightarrow> at_most ps qs" "length bs = length cs \<Longrightarrow> ep = ep' \<and> bs = cs"
proof -
  note w = matched_wilds [OF assms(3)] matched_wilds [OF assms(6)] and o = matched_overlaps [OF assms(3,6)]
  have "pm \<noteq> ''HEAD''" "qm \<noteq> ''HEAD''" using routes_do_not_conflict assms(1,4) by blast+
  then have same: "pm = qm" using same_method assms(2,5) by blast
  have table: "(wilds ps \<le> wilds qs \<longrightarrow> at_most ps qs) \<and> (wilds ps = wilds qs \<longrightarrow> ps = qs \<and> ep = ep')"
    using routes_do_not_conflict assms(1,4) same o by fast
  then show "length bs \<le> length cs \<longleftrightarrow> at_most ps qs" using w at_most_wilds by auto
  show "ep = ep' \<and> bs = cs" if "length bs = length cs" using that table w assms(3,6) by simp
qed

text \<open>The endpoint that serves a request is that of the most specific pattern that matches it.\<close>

theorem mux_takes_most_specific: "mux_match m ss = Some (ep, bs) \<longleftrightarrow> route_taken m ss ep bs"
proof -
  let ?cs = "candidates m ss"
  let ?sorted = "sort_key (\<lambda>(ep, bs). length bs) ?cs"
  have least: "length (snd (hd ?sorted)) \<le> length (snd c)" if "c \<in> set ?cs" for c
  proof -
    have "c \<in> set ?sorted" using that by simp
    then show ?thesis using sorted_sort_key [of "\<lambda>(ep, bs). length bs" ?cs] by (cases ?sorted) (auto simp: split_beta)
  qed
  have head: "mux_match m ss = Some c \<longleftrightarrow> ?cs \<noteq> [] \<and> hd ?sorted = c" for c
    by (cases ?sorted) (auto simp: mux_match_def dest: arg_cong [where f = length])
  have mem: "?cs \<noteq> [] \<Longrightarrow> hd ?sorted \<in> set ?cs" by (metis hd_in_set set_sort length_sort length_0_conv)
  show ?thesis
  proof
    assume "mux_match m ss = Some (ep, bs)"
    then have h: "hd ?sorted = (ep, bs)" "(ep, bs) \<in> set ?cs" using head mem by metis+
    then obtain pm ps where r: "(pm, ps, ep) \<in> set routes" "method_matches pm m" "match_segments ps ss = Some bs"
      by (auto simp: candidates_iff)
    have "at_most ps qs" if "(qm, qs, ep') \<in> set routes" "method_matches qm m" "match_segments qs ss = Some cs" for qm qs ep' cs
    proof -
      have "(ep', cs) \<in> set ?cs" using that by (auto simp: candidates_iff)
      then show ?thesis using least [of "(ep', cs)"] h(1) two_candidates(1) [OF r that] by simp
    qed
    with r show "route_taken m ss ep bs" unfolding route_taken_def by fast
  next
    assume "route_taken m ss ep bs"
    then obtain pm ps where r: "(pm, ps, ep) \<in> set routes" "method_matches pm m" "match_segments ps ss = Some bs"
      and most: "\<And>qm qs ep' cs. (qm, qs, ep') \<in> set routes \<Longrightarrow> method_matches qm m \<Longrightarrow> match_segments qs ss = Some cs \<Longrightarrow> at_most ps qs"
      unfolding route_taken_def by fast
    have c: "(ep, bs) \<in> set ?cs" using r by (auto simp: candidates_iff)
    obtain ep' cs where h: "hd ?sorted = (ep', cs)" "(ep', cs) \<in> set ?cs" using mem c by (metis empty_iff list.set(1) surj_pair)
    then obtain qm qs where q: "(qm, qs, ep') \<in> set routes" "method_matches qm m" "match_segments qs ss = Some cs"
      by (auto simp: candidates_iff)
    have "length bs \<le> length cs" using two_candidates(1) [OF r q] most [OF q] by blast
    then have "length bs = length cs" using least [OF c] h(1) by simp
    from two_candidates(2) [OF r q this] show "mux_match m ss = Some (ep, bs)" using head c h(1) by fastforce
  qed
qed

text \<open>The one overlap of the table: \<^verbatim>\<open>GET /tasks/stats\<close> is not a task whose id is \<open>stats\<close>.\<close>

lemma stats_is_not_an_id: "mux_match ''GET'' [''tasks'', ''stats''] = Some (EpTaskStats, [])"
  by code_simp

end
