(* ===== verification/Middleware.thy ===== *)
theory Middleware
  imports Handlers
begin

text \<open>
  \<^verbatim>\<open>internal/web/middleware.go\<close> and the stack that \<^verbatim>\<open>NewRouter\<close> builds.
  A handler ends normally or panics; the middleware is a function on handlers.
\<close>

datatype outcome = Returned | Panicked string

type_synonym ('d, 'r, 'a, 'f) handler =
  "request \<Rightarrow> ('d, 'r, 'a, 'f) world \<Rightarrow> ('d, 'r, 'a, 'f) world \<times> outcome"

type_synonym ('d, 'r, 'a, 'f) middleware = "('d, 'r, 'a, 'f) handler \<Rightarrow> ('d, 'r, 'a, 'f) handler"

section \<open>Chain\<close>

text \<open>The loop runs from the last middleware to the first.\<close>

definition Chain :: "('d, 'r, 'a, 'f) handler \<Rightarrow> ('d, 'r, 'a, 'f) middleware list \<Rightarrow> ('d, 'r, 'a, 'f) handler" where
  "Chain h mw = fold (\<lambda>m h. m h) (rev mw) h"

section \<open>Logging, recovery, headers\<close>

definition push_writer :: "('d, 'r, 'a, 'f) world \<Rightarrow> ('d, 'r, 'a, 'f) world" where
  "push_writer w = w\<lparr>wWriters := new_responseWriter # wWriters w\<rparr>"

definition pop_writer :: "('d, 'r, 'a, 'f) world \<Rightarrow> ('d, 'r, 'a, 'f) world" where
  "pop_writer w = w\<lparr>wWriters := tl (wWriters w)\<rparr>"

definition Logging :: "('d, 'r, 'a, 'f) app \<Rightarrow> ('d, 'r, 'a, 'f) middleware" where
  "Logging A inner r w =
     (let (start, w) = time_Now A w in
      case inner r (push_writer w) of
        (w, Panicked p) \<Rightarrow> (pop_writer w, Panicked p)
      | (w, Returned) \<Rightarrow>
          let status = rwStatus (hd (wWriters w)); (now, w) = time_Now A w in
          (log_event (HttpRequest (rqMethod r) (rqPath r) status) (pop_writer w), Returned))"

definition Recovery :: "('d, 'r, 'a, 'f) middleware" where
  "Recovery inner r w =
     (case inner r w of
        (w, Panicked p) \<Rightarrow>
          (http_Error (StatusText 500) 500 (log_event (PanicRecovered (rqMethod r) (rqPath r)) w), Returned)
      | (w, Returned) \<Rightarrow> (w, Returned))"

definition SecureHeaders :: "('d, 'r, 'a, 'f) middleware" where
  "SecureHeaders inner r w =
     inner r
       (set_header ''Content-Security-Policy''
          (''default-src '' @ [CHR 0x27] @ ''self'' @ [CHR 0x27] @ ''; script-src '' @ [CHR 0x27] @ ''self''
           @ [CHR 0x27] @ ''; style-src '' @ [CHR 0x27] @ ''self'' @ [CHR 0x27] @ '' '' @ [CHR 0x27]
           @ ''unsafe-inline'' @ [CHR 0x27])
       (set_header ''Referrer-Policy'' ''strict-origin-when-cross-origin''
       (set_header ''X-XSS-Protection'' ''0''
       (set_header ''X-Frame-Options'' ''DENY''
       (set_header ''X-Content-Type-Options'' ''nosniff'' w)))))"

section \<open>Rate limiting\<close>

text \<open>\<^verbatim>\<open>net.SplitHostPort\<close>: the host, if the address has the form host:port.\<close>

definition last_colon :: "string \<Rightarrow> nat option" where
  "last_colon s = (case filter (\<lambda>i. s ! i = CHR '':'') [0..<length s] of [] \<Rightarrow> None | is \<Rightarrow> Some (last is))"

definition split_host :: "string \<Rightarrow> string option" where
  "split_host s =
     (case last_colon s of
        None \<Rightarrow> None
      | Some i \<Rightarrow>
          if hd s = CHR ''[''
          then let host = takeWhile (\<lambda>c. c \<noteq> CHR '']'') (tl s); close_at = Suc (length host) in
            (if length s \<le> close_at \<or> Suc close_at \<noteq> i \<or> CHR ''['' \<in> set (tl s) \<or> CHR '']'' \<in> set (drop (Suc close_at) s)
             then None else Some host)
          else let host = take i s in
            (if CHR '':'' \<in> set host \<or> CHR ''['' \<in> set s \<or> CHR '']'' \<in> set s then None else Some host))"

definition clientIP :: "string \<Rightarrow> string" where
  "clientIP remoteAddr =
     (case split_host remoteAddr of
        None \<Rightarrow> remoteAddr
      | Some host \<Rightarrow> if host = [] then remoteAddr else host)"

text \<open>Go's division rounds towards zero.\<close>

definition minute_bucket :: "gotime \<Rightarrow> int" where
  "minute_bucket now = (if 0 \<le> unix now then unix now div 60 else - (- unix now div 60))"

definition rateLimitKey :: "string \<Rightarrow> gotime \<Rightarrow> string" where
  "rateLimitKey remoteAddr now =
     ''rate:'' @ clientIP remoteAddr @ '':'' @ FormatInt (word_of_int (minute_bucket now))"

definition isRateLimited :: "int64 \<Rightarrow> int64 \<Rightarrow> bool" where
  "isRateLimited count perMinute \<longleftrightarrow> sint perMinute < sint count"

definition incrementRateCounter :: "'r redis_client \<Rightarrow> string \<Rightarrow> gotime \<Rightarrow> gotime \<Rightarrow> 'r
    \<Rightarrow> 'r \<times> (go_error + int64) \<times> log_record list" where
  "incrementRateCounter client key incr_at expire_at s =
     (case redisIncr client key incr_at s of
        (s, Inl err) \<Rightarrow> (s, Inl err, [LogWarn ''rate limiter redis error''])
      | (s, Inr count) \<Rightarrow>
          if count = 1
          then case redisExpire client key (120 * nanos_per_second) expire_at s of
                 (s, Inl _) \<Rightarrow> (s, Inr count, [LogWarn ''rate limiter expire error''])
               | (s, Inr _) \<Rightarrow> (s, Inr count, [])
          else (s, Inr count, []))"

text \<open>The second within the minute; time zones are offset by whole minutes.\<close>

definition Second :: "gotime \<Rightarrow> int" where
  "Second now = unix now mod 60"

definition retry_after :: "gotime \<Rightarrow> int" where
  "retry_after now = (let r = 60 - Second now in if r \<le> 0 then 1 else r)"

definition writeRateLimitResponse :: "gotime \<Rightarrow> ('d, 'r, 'a, 'f) world \<Rightarrow> ('d, 'r, 'a, 'f) world" where
  "writeRateLimitResponse now w =
     http_Error (StatusText 429) 429 (set_header ''Retry-After'' (FormatInt (word_of_int (retry_after now))) w)"

definition RedisRateLimit :: "('d, 'r, 'a, 'f) app \<Rightarrow> 'r redis_client option \<Rightarrow> int64 \<Rightarrow> ('d, 'r, 'a, 'f) middleware" where
  "RedisRateLimit A client perMinute inner r w =
     (case client of
        None \<Rightarrow> inner r w
      | Some R \<Rightarrow>
          if sint perMinute \<le> 0 then inner r w
          else
            (let (now, w) = time_Now A w; (incr_at, w) = time_Now A w; (expire_at, w) = time_Now A w;
                 key = rateLimitKey (rqRemoteAddr r) now in
             case incrementRateCounter R key incr_at expire_at (wRedis w) of
               (s, count, warnings) \<Rightarrow>
                 let w = w\<lparr>wRedis := s, wLog := wLog w @ warnings\<rparr> in
                 (case count of
                    Inl _ \<Rightarrow> inner r w
                  | Inr n \<Rightarrow>
                      if isRateLimited n perMinute
                      then (let (now, w) = time_Now A w in (writeRateLimitResponse now w, Returned))
                      else inner r w)))"

section \<open>Audit\<close>

definition AuditTrail :: "('d, 'r, 'a, 'f) app \<Rightarrow> ('d, 'r, 'a, 'f) middleware" where
  "AuditTrail A inner r w =
     (case appAudit A of
        None \<Rightarrow> inner r w
      | Some store \<Rightarrow>
          (case inner r (push_writer w) of
             (w, Panicked p) \<Rightarrow> (pop_writer w, Panicked p)
           | (w, Returned) \<Rightarrow>
               let (now, w) = time_Now A w;
                   rec = \<lparr>arTimestamp = now, arMethod = rqMethod r, arPath = rqPath r,
                          arRemote = clientIP (rqRemoteAddr r),
                          arStatus = of_nat (rwStatus (hd (wWriters w)))\<rparr>;
                   w = pop_writer w in
               (case store rec (wAudit w) of
                  (a, Inl _) \<Rightarrow> (log_event (LogWarn ''audit append failed'') (w\<lparr>wAudit := a\<rparr>), Returned)
                | (a, Inr _) \<Rightarrow> (w\<lparr>wAudit := a\<rparr>, Returned))))"

section \<open>The stack\<close>

definition mux_handler :: "('d, 'r, 'a, 'f) app \<Rightarrow> ('d, 'r, 'a, 'f) handler" where
  "mux_handler A r w = (mux_serve A r w, Returned)"

definition NewRouter :: "('d, 'r, 'a, 'f) app \<Rightarrow> ('d, 'r, 'a, 'f) handler" where
  "NewRouter A =
     (let middlewares = [Recovery, SecureHeaders, Logging A];
          redisConn = smRedis (appAuth A);
          middlewares = (if redisConn \<noteq> None
            then [RedisRateLimit A redisConn (appRateLimit A)] @ middlewares else middlewares);
          middlewares = (if appAudit A \<noteq> None then [AuditTrail A] @ middlewares else middlewares)
      in Chain (mux_handler A) middlewares)"

end
