(* ===== verification/Responses.thy ===== *)
theory Responses
  imports Middleware
begin

text \<open>
  What the helpers of the HTTP layer leave alone and what the client sees: frame rules for the
  stores, and the steps through which alone a handler acts on its response writer.
\<close>

named_theorems world_frame

section \<open>Frames\<close>

lemma log_event_frame [simp, world_frame]:
  "wDb (log_event l w) = wDb w" "wRedis (log_event l w) = wRedis w" "wAudit (log_event l w) = wAudit w"
  "wConn (log_event l w) = wConn w" "wWriters (log_event l w) = wWriters w" "wTick (log_event l w) = wTick w"
  "wLog (log_event l w) = wLog w @ [l]"
  by (simp_all add: log_event_def)

lemma header_frame [simp, world_frame]:
  "wDb (set_header k v w) = wDb w" "wRedis (set_header k v w) = wRedis w" "wAudit (set_header k v w) = wAudit w"
  "wWriters (set_header k v w) = wWriters w" "wLog (set_header k v w) = wLog w" "wTick (set_header k v w) = wTick w"
  "wDb (del_header k w) = wDb w" "wRedis (del_header k w) = wRedis w" "wAudit (del_header k w) = wAudit w"
  "wWriters (del_header k w) = wWriters w" "wLog (del_header k w) = wLog w" "wTick (del_header k w) = wTick w"
  "wDb (set_cookie ck w) = wDb w" "wRedis (set_cookie ck w) = wRedis w" "wAudit (set_cookie ck w) = wAudit w"
  "wWriters (set_cookie ck w) = wWriters w" "wLog (set_cookie ck w) = wLog w" "wTick (set_cookie ck w) = wTick w"
  by (simp_all add: set_header_def del_header_def set_cookie_def)

lemma write_eq:
  "write_header code w = w\<lparr>wWriters := map (note_header code) (wWriters w), wConn := conn_WriteHeader code (wConn w)\<rparr>"
  "write_body b w = w\<lparr>wWriters := map (note_header 200) (wWriters w), wConn := conn_Write b (wConn w)\<rparr>"
  by (simp_all add: write_header_def write_body_def rw_WriteHeader_eq rw_Write_eq)

lemma write_frame [simp, world_frame]:
  "wDb (write_header code w) = wDb w" "wRedis (write_header code w) = wRedis w"
  "wAudit (write_header code w) = wAudit w" "wLog (write_header code w) = wLog w"
  "wTick (write_header code w) = wTick w"
  "wDb (write_body b w) = wDb w" "wRedis (write_body b w) = wRedis w"
  "wAudit (write_body b w) = wAudit w" "wLog (write_body b w) = wLog w" "wTick (write_body b w) = wTick w"
  by (simp_all add: write_eq)

lemma http_Error_frame [simp, world_frame]:
  "wDb (http_Error msg code w) = wDb w" "wRedis (http_Error msg code w) = wRedis w"
  "wAudit (http_Error msg code w) = wAudit w" "wLog (http_Error msg code w) = wLog w"
  "wTick (http_Error msg code w) = wTick w"
  by (simp_all add: http_Error_def)

lemma respondJSON_frame [simp, world_frame]:
  "wDb (respondJSON A code p w) = wDb w" "wRedis (respondJSON A code p w) = wRedis w"
  "wAudit (respondJSON A code p w) = wAudit w" "wTick (respondJSON A code p w) = wTick w"
  by (simp_all add: respondJSON_def Let_def)

lemma respondError_frame [simp, world_frame]:
  "wDb (respondError A code msg w) = wDb w" "wRedis (respondError A code msg w) = wRedis w"
  "wAudit (respondError A code msg w) = wAudit w" "wTick (respondError A code msg w) = wTick w"
  by (simp_all add: respondError_def)

lemma handleServiceError_frame [simp, world_frame]:
  "wDb (handleServiceError A err w) = wDb w" "wRedis (handleServiceError A err w) = wRedis w"
  "wAudit (handleServiceError A err w) = wAudit w" "wTick (handleServiceError A err w) = wTick w"
  by (simp_all add: handleServiceError_def split: option.splits)

lemma auth_clear_frame [simp, world_frame]:
  "wDb (auth_clear A w) = wDb w" "wRedis (auth_clear A w) = wRedis w" "wAudit (auth_clear A w) = wAudit w"
  by (simp_all add: auth_clear_def)

lemma on_db_eq: "on_db f w = (w\<lparr>wDb := fst (f (wDb w))\<rparr>, snd (f (wDb w)))"
  by (simp add: on_db_def split_beta)

lemma on_redis_eq: "on_redis f w = (w\<lparr>wRedis := fst (f (wRedis w))\<rparr>, snd (f (wRedis w)))"
  by (simp add: on_redis_def split_beta)

lemma on_db_frame [world_frame]:
  assumes "on_db f w = (w', x)"
  shows "wRedis w' = wRedis w" "wAudit w' = wAudit w" "wConn w' = wConn w" "wWriters w' = wWriters w"
    "wTick w' = wTick w" "wLog w' = wLog w"
  using assms by (auto simp: on_db_def split: prod.splits)

lemma on_redis_frame [world_frame]:
  assumes "on_redis f w = (w', x)"
  shows "wDb w' = wDb w" "wAudit w' = wAudit w" "wConn w' = wConn w" "wWriters w' = wWriters w"
    "wTick w' = wTick w" "wLog w' = wLog w"
  using assms by (auto simp: on_redis_def split: prod.splits)

section \<open>The status of a response\<close>

lemma conn_Write_sent: "cnSent c = Some x \<Longrightarrow> cnSent (conn_Write b c) = Some x"
  by (simp add: conn_Write_def Let_def)

text \<open>The first answer decides the status; it is what every wrapper has noted.\<close>

lemma respondJSON_sent:
  assumes "cnSent (wConn w) = None"
  shows "cnSent (wConn (respondJSON A code p w))
    = Some (code, (cnHeader (wConn w))(''Content-Type'' \<mapsto> ''application/json''), cnCookies (wConn w))"
  using assms by (simp add: respondJSON_def Let_def write_eq conn_Write_def set_header_def)

lemma respondJSON_status:
  assumes "cnSent (wConn w) = None"
  shows "final_status (wConn (respondJSON A code p w)) = code"
    "final_cookies (wConn (respondJSON A code p w)) = cnCookies (wConn w)"
  using respondJSON_sent [OF assms] by (simp_all add: final_status_def final_cookies_def)

lemma respondError_status:
  assumes "cnSent (wConn w) = None"
  shows "final_status (wConn (respondError A code msg w)) = code"
    "final_cookies (wConn (respondError A code msg w)) = cnCookies (wConn w)"
  using respondJSON_status [OF assms] by (simp_all add: respondError_def)

lemma http_Error_status:
  "cnSent (wConn w) = None \<Longrightarrow> final_status (wConn (http_Error msg code w)) = code"
  by (simp add: http_Error_def write_eq conn_Write_def final_status_def set_header_def del_header_def Let_def)

text \<open>The status of an error is a function of the error at the end of the chain.\<close>

definition error_status :: "go_error \<Rightarrow> nat" where
  "error_status err = (case root_cause err of
     NotFoundError _ _ \<Rightarrow> 404 | ValidationError _ _ \<Rightarrow> 422 | ConflictError _ _ \<Rightarrow> 409
   | UnauthorizedError _ \<Rightarrow> 401 | _ \<Rightarrow> 500)"

lemma handleServiceError_respond:
  "\<exists>msg w'. handleServiceError A err w = respondError A (error_status err) msg w'
     \<and> wConn w' = wConn w \<and> wWriters w' = wWriters w
     \<and> (error_status err = 500 \<longrightarrow> msg = ''internal server error'')"
proof (induction err)
  case (WrapError t e)
  have "handleServiceError A (WrapError t e) w = handleServiceError A e w" "error_status (WrapError t e) = error_status e"
    by (simp_all only: handleServiceError_def error_status_def as_NotFound.simps as_Validation.simps
        as_Conflict.simps as_Unauthorized.simps root_cause.simps)
  then show ?case using WrapError by simp
qed (simp_all add: handleServiceError_def error_status_def, (rule exI conjI refl | simp)+)

section \<open>Steps on the response\<close>

text \<open>
  The four ways in which handlers act on the writer they are given.  \<open>K\<close> says which headers may be
  set to what, or removed.
\<close>

inductive responds :: "(string \<Rightarrow> string option \<Rightarrow> bool) \<Rightarrow> responseWriter list \<times> 'f conn
    \<Rightarrow> responseWriter list \<times> 'f conn \<Rightarrow> bool" for K where
  responds_refl: "responds K p p"
| responds_header: "K k v \<Longrightarrow> responds K p (rws, c) \<Longrightarrow> responds K p (rws, c\<lparr>cnHeader := (cnHeader c)(k := v)\<rparr>)"
| responds_cookie: "responds K p (rws, c) \<Longrightarrow> responds K p (rws, c\<lparr>cnCookies := cnCookies c @ [ck]\<rparr>)"
| responds_status: "responds K p q \<Longrightarrow> responds K p (rw_WriteHeader code q)"
| responds_body: "responds K p q \<Longrightarrow> responds K p (rw_Write b q)"

lemma responds_trans: "responds K q r \<Longrightarrow> responds K p q \<Longrightarrow> responds K p r"
  by (induction rule: responds.induct) (auto intro: responds.intros)

definition world_responds :: "(string \<Rightarrow> string option \<Rightarrow> bool) \<Rightarrow> ('d, 'r, 'a, 'f) world \<Rightarrow> ('d, 'r, 'a, 'f) world \<Rightarrow> bool" where
  "world_responds K w w' \<longleftrightarrow> responds K (wWriters w, wConn w) (wWriters w', wConn w')"

lemma world_responds_refl [simp]: "world_responds K w w"
  by (simp add: world_responds_def responds_refl)

lemma world_responds_same: "wConn w' = wConn w \<Longrightarrow> wWriters w' = wWriters w \<Longrightarrow> world_responds K w w'"
  by (simp add: world_responds_def responds_refl)

lemma world_responds_trans: "world_responds K w1 w2 \<Longrightarrow> world_responds K w2 w3 \<Longrightarrow> world_responds K w1 w3"
  unfolding world_responds_def by (rule responds_trans)

lemma world_responds_header: "K k (Some v) \<Longrightarrow> world_responds K w (set_header k v w)"
  using responds_header [of K k "Some v", OF _ responds_refl, of "wWriters w" "wConn w"]
  by (simp add: world_responds_def set_header_def)

lemma world_responds_del: "K k None \<Longrightarrow> world_responds K w (del_header k w)"
  using responds_header [of K k None, OF _ responds_refl, of "wWriters w" "wConn w"]
  by (simp add: world_responds_def del_header_def)

lemma world_responds_cookie: "world_responds K w (set_cookie ck w)"
  using responds_cookie [OF responds_refl, of K "wWriters w" "wConn w" ck]
  by (simp add: world_responds_def set_cookie_def)

lemma world_responds_write:
  "world_responds K w (write_header code w)" "world_responds K w (write_body b w)"
  using responds_status [OF responds_refl, of K "(wWriters w, wConn w)" code]
    responds_body [OF responds_refl, of K "(wWriters w, wConn w)" b]
  by (simp_all add: world_responds_def write_eq rw_WriteHeader_eq rw_Write_eq)

text \<open>What every sequence of such steps keeps.\<close>

lemma responds_length: "responds K p q \<Longrightarrow> length (fst q) = length (fst p)"
  by (induction rule: responds.induct) (auto simp: rw_WriteHeader_eq rw_Write_eq split: prod.splits)

lemma in_step_conn: "cnSent d = cnSent c \<Longrightarrow> in_step (rws, d) = in_step (rws, c)"
  by (simp add: in_step_def final_status_def)

lemma responds_in_step: "responds K p q \<Longrightarrow> in_step p \<Longrightarrow> in_step q"
proof (induction rule: responds.induct)
  case (responds_header k v p rws c)
  then show ?case using in_step_conn [of "c\<lparr>cnHeader := (cnHeader c)(k := v)\<rparr>" c rws] by simp
next
  case (responds_cookie p rws c ck)
  then show ?case using in_step_conn [of "c\<lparr>cnCookies := cnCookies c @ [ck]\<rparr>" c rws] by simp
next
  case (responds_status p q code)
  then show ?case by (simp add: in_step_WriteHeader)
next
  case (responds_body p q b)
  then show ?case by (simp add: in_step_Write)
qed

text \<open>A header that no step may touch arrives as it was set.\<close>

definition carries :: "string \<Rightarrow> string \<Rightarrow> 'f conn \<Rightarrow> bool" where
  "carries k v c \<longleftrightarrow> cnHeader c k = Some v \<and> final_headers c k = Some v"

lemma carries_WriteHeader: "carries k v c \<Longrightarrow> carries k v (conn_WriteHeader code c)"
  by (cases "cnSent c") (simp_all add: carries_def final_headers_def)

lemma carries_Write: "carries k v c \<Longrightarrow> carries k v (conn_Write b c)"
  using carries_WriteHeader [of k v c 200]
  by (cases "cnSent (conn_WriteHeader 200 c)") (simp_all add: carries_def final_headers_def conn_Write_def Let_def)

lemma carries_cookie: "carries k v c \<Longrightarrow> carries k v (c\<lparr>cnCookies := cks\<rparr>)"
  by (cases "cnSent c") (simp_all add: carries_def final_headers_def)

lemma carries_header: "carries k v c \<Longrightarrow> k' = k \<longrightarrow> v' = Some v \<Longrightarrow> carries k v (c\<lparr>cnHeader := (cnHeader c)(k' := v')\<rparr>)"
  by (cases "cnSent c") (auto simp: carries_def final_headers_def)

lemma responds_carries:
  assumes "responds K p q" "carries k v (snd p)" "\<And>v'. K k v' \<Longrightarrow> v' = Some v"
  shows "carries k v (snd q)"
  using assms
proof (induction rule: responds.induct)
  case (responds_header k' v' p rws c)
  then have "k' = k \<longrightarrow> v' = Some v" "carries k v c" by auto
  then show ?case by (simp add: carries_header)
next
  case (responds_status p q code)
  then show ?case by (cases q) (simp add: rw_WriteHeader_eq carries_WriteHeader)
next
  case (responds_body p q b)
  then show ?case by (cases q) (simp add: rw_Write_eq carries_Write)
qed (simp_all add: carries_cookie)

end
