(* ===== verification/Pg_Reference.thy ===== *)
theory Pg_Reference
  imports Pg_Repos
begin

text \<open>
  A concrete engine that meets \<open>sql_engine\<close>: tables, open transactions and the four sequences,
  with every call's outcome decided by two parameters, \<open>fault\<close> (which call fails, with which
  message) and \<open>now\<close> (the instant of each call).  It shows that the hypotheses on the driver can
  hold, with every pattern of faults, and it is where the witnesses run.
\<close>

record seqs =
  seqUsers :: nat
  seqTasks :: nat
  seqAccounts :: nat
  seqTransfers :: nat

record pg =
  pgTables :: tables
  pgTx :: "nat \<Rightarrow> tables option"
  pgNextTx :: nat
  pgSeqs :: seqs
  pgCalls :: nat

definition max_seq :: nat where
  "max_seq = 9223372036854775807"

definition no_tables :: tables where
  "no_tables = \<lparr>tbUsers = Map.empty, tbTasks = Map.empty, tbAccounts = Map.empty, tbTransfers = Map.empty\<rparr>"

definition pg_empty :: pg where
  "pg_empty = \<lparr>pgTables = no_tables, pgTx = Map.empty, pgNextTx = 0,
     pgSeqs = \<lparr>seqUsers = 0, seqTasks = 0, seqAccounts = 0, seqTransfers = 0\<rparr>, pgCalls = 0\<rparr>"

section \<open>Running a statement\<close>

definition rows_upto :: "nat \<Rightarrow> (int64 \<rightharpoonup> 'r) \<Rightarrow> 'r list" where
  "rows_upto n m = concat (map (\<lambda>k. case m (of_nat k) of None \<Rightarrow> [] | Some r \<Rightarrow> [r]) [1..<Suc n])"

definition trim_varchar :: "nat \<Rightarrow> string \<Rightarrow> string option" where
  "trim_varchar n s =
     (if utf8_length s \<le> n then Some s
      else let extra = utf8_length s - n; stored = take (length s - extra) s in
        if s = stored @ replicate extra CHR '' '' then Some stored else None)"

definition listed :: "('r \<Rightarrow> sql_row) \<Rightarrow> ('r \<Rightarrow> gotime) \<Rightarrow> ('r \<Rightarrow> bool) \<Rightarrow> nat \<Rightarrow> (int64 \<rightharpoonup> 'r) \<Rightarrow> sql_row list" where
  "listed mk created P n m = map mk (sort_key (\<lambda>r. - created r) (filter P (rows_upto n m)))"

fun pg_run :: "gotime \<Rightarrow> sql_stmt \<Rightarrow> seqs \<Rightarrow> tables \<Rightarrow> seqs \<times> (string + tables \<times> sql_row list)" where
  "pg_run t (InsertUser email name pw) q T =
     (if seqUsers q \<ge> max_seq then (q, Inl ''nextval: reached maximum value of sequence'')
      else let n = Suc (seqUsers q); i = of_nat n; q' = q\<lparr>seqUsers := n\<rparr> in
        if find (\<lambda>u. uEmail u = email) (rows_upto (seqUsers q) (tbUsers T)) \<noteq> None
        then (q', Inl ''duplicate key value violates unique constraint'')
        else (q', Inr (T\<lparr>tbUsers := (tbUsers T)(i \<mapsto> \<lparr>uID = i, uEmail = email, uName = name,
               uPassword = pw, uCreatedAt = t, uUpdatedAt = t\<rparr>)\<rparr>, [KeyTimesRow i t t])))"
| "pg_run t (SelectUserByID i) q T =
     (q, Inr (T, case tbUsers T i of None \<Rightarrow> [] | Some u \<Rightarrow> [UserRow u]))"
| "pg_run t (SelectUserByEmail email) q T =
     (q, Inr (T, map UserRow (filter (\<lambda>u. uEmail u = email) (rows_upto (seqUsers q) (tbUsers T)))))"
| "pg_run t (UpdateUserRow email name pw i) q T =
     (case tbUsers T i of
        None \<Rightarrow> (q, Inr (T, []))
      | Some u \<Rightarrow>
          if find (\<lambda>v. uID v \<noteq> i \<and> uEmail v = email) (rows_upto (seqUsers q) (tbUsers T)) \<noteq> None
          then (q, Inl ''duplicate key value violates unique constraint'')
          else (q, Inr (T\<lparr>tbUsers := (tbUsers T)(i \<mapsto> u\<lparr>uEmail := email, uName := name, uPassword := pw,
                                                   uUpdatedAt := t\<rparr>)\<rparr>, [])))"
| "pg_run t (DeleteUserRow i) q T =
     (let accounts' = drop_rows (\<lambda>a. aUserID a = i) (tbAccounts T) in
        if find (\<lambda>tr. accounts' (trSenderAccountID tr) = None \<or> accounts' (trReceiverAccountID tr) = None)
             (rows_upto (seqTransfers q) (tbTransfers T)) \<noteq> None
        then (q, Inl ''update or delete violates foreign key constraint'')
        else (q, Inr (T\<lparr>tbUsers := (tbUsers T)(i := None),
               tbTasks := drop_rows (\<lambda>t. tUserID t = i) (tbTasks T), tbAccounts := accounts'\<rparr>, [])))"
| "pg_run t (InsertTask uid title descr status) q T =
     (if seqTasks q \<ge> max_seq then (q, Inl ''nextval: reached maximum value of sequence'')
      else let n = Suc (seqTasks q); i = of_nat n; q' = q\<lparr>seqTasks := n\<rparr> in
        if tbUsers T uid = None then (q', Inl ''insert violates foreign key constraint'')
        else (q', Inr (T\<lparr>tbTasks := (tbTasks T)(i \<mapsto> \<lparr>tID = i, tUserID = uid, tTitle = title,
               tDescription = descr, tStatus = status, tCreatedAt = t, tUpdatedAt = t\<rparr>)\<rparr>,
               [KeyTimesRow i t t])))"
| "pg_run t (SelectTaskByID i) q T =
     (q, Inr (T, case tbTasks T i of None \<Rightarrow> [] | Some r \<Rightarrow> [TaskRow r]))"
| "pg_run t (SelectTasksByUser uid) q T =
     (q, Inr (T, listed TaskRow tCreatedAt (\<lambda>r. tUserID r = uid) (seqTasks q) (tbTasks T)))"
| "pg_run t (UpdateTaskRow title descr status i) q T =
     (case tbTasks T i of
        None \<Rightarrow> (q, Inr (T, []))
      | Some r \<Rightarrow> (q, Inr (T\<lparr>tbTasks := (tbTasks T)(i \<mapsto> r\<lparr>tTitle := title, tDescription := descr,
                                                   tStatus := status, tUpdatedAt := t\<rparr>)\<rparr>, [])))"
| "pg_run t (DeleteTaskRow i) q T = (q, Inr (T\<lparr>tbTasks := (tbTasks T)(i := None)\<rparr>, []))"
| "pg_run t (InsertAccount uid cur bal) q T =
     (if seqAccounts q \<ge> max_seq then (q, Inl ''nextval: reached maximum value of sequence'')
      else let n = Suc (seqAccounts q); i = of_nat n; q' = q\<lparr>seqAccounts := n\<rparr> in
        if tbUsers T uid = None then (q', Inl ''insert violates foreign key constraint'')
        else case trim_varchar 3 cur of
               None \<Rightarrow> (q', Inl ''value too long for type character varying(3)'')
             | Some cur' \<Rightarrow> (q', Inr (T\<lparr>tbAccounts := (tbAccounts T)(i \<mapsto> \<lparr>aID = i, aUserID = uid,
                   aCurrency = cur', aBalance = bal, aCreatedAt = t, aUpdatedAt = t\<rparr>)\<rparr>,
                   [KeyTimesRow i t t])))"
| "pg_run t (SelectAccountByID i) q T =
     (q, Inr (T, case tbAccounts T i of None \<Rightarrow> [] | Some a \<Rightarrow> [AccountRow a]))"
| "pg_run t (SelectAccountsByUser uid) q T =
     (q, Inr (T, listed AccountRow aCreatedAt (\<lambda>a. aUserID a = uid) (seqAccounts q) (tbAccounts T)))"
| "pg_run t (AddToBalance amount i) q T =
     (case tbAccounts T i of
        None \<Rightarrow> (q, Inr (T, []))
      | Some a \<Rightarrow>
          if bigint_sum_ok (aBalance a) amount
          then (q, Inr (T\<lparr>tbAccounts := (tbAccounts T)(i \<mapsto> a\<lparr>aBalance := aBalance a + amount,
                                                        aUpdatedAt := t\<rparr>)\<rparr>, []))
          else (q, Inl ''bigint out of range''))"
| "pg_run t (InsertTransfer a b amount cur descr) q T =
     (if seqTransfers q \<ge> max_seq then (q, Inl ''nextval: reached maximum value of sequence'')
      else let n = Suc (seqTransfers q); i = of_nat n; q' = q\<lparr>seqTransfers := n\<rparr> in
        if tbAccounts T a = None \<or> tbAccounts T b = None then (q', Inl ''insert violates foreign key constraint'')
        else case trim_varchar 3 cur of
               None \<Rightarrow> (q', Inl ''value too long for type character varying(3)'')
             | Some cur' \<Rightarrow> (q', Inr (T\<lparr>tbTransfers := (tbTransfers T)(i \<mapsto> \<lparr>trID = i,
                   trSenderAccountID = a, trReceiverAccountID = b, trAmount = amount, trCurrency = cur',
                   trDescription = descr, trCreatedAt = t\<rparr>)\<rparr>, [KeyTimeRow i t])))"
| "pg_run t (SelectTransfersByAccount i) q T =
     (q, Inr (T, listed TransferRow trCreatedAt (\<lambda>r. trSenderAccountID r = i \<or> trReceiverAccountID r = i)
        (seqTransfers q) (tbTransfers T)))"

section \<open>The driver\<close>

text \<open>Every call counts, and fails when \<open>fault\<close> says so for its number.\<close>

definition pg_exec :: "(nat \<Rightarrow> string option) \<Rightarrow> (nat \<Rightarrow> gotime) \<Rightarrow> dbtx \<Rightarrow> sql_stmt \<Rightarrow> pg \<Rightarrow>
    pg \<times> (go_error + sql_row list)" where
  "pg_exec fault now h st d =
     (let n = pgCalls d; d = d\<lparr>pgCalls := Suc n\<rparr> in
      case fault n of
        Some m \<Rightarrow> (d, Inl (LibError m))
      | None \<Rightarrow>
          (case h of
             PoolConn \<Rightarrow>
               (case pg_run (now n) st (pgSeqs d) (pgTables d) of
                  (q, Inl m) \<Rightarrow> (d\<lparr>pgSeqs := q\<rparr>, Inl (LibError m))
                | (q, Inr (T, rows)) \<Rightarrow> (d\<lparr>pgSeqs := q, pgTables := T\<rparr>, Inr rows))
           | TxConn x \<Rightarrow>
               (case pgTx d x of
                  None \<Rightarrow> (d, Inl (LibError ''sql: transaction has already been committed or rolled back''))
                | Some T \<Rightarrow>
                    (case pg_run (now n) st (pgSeqs d) T of
                       (q, Inl m) \<Rightarrow> (d\<lparr>pgSeqs := q, pgTx := (pgTx d)(x := None)\<rparr>, Inl (LibError m))
                     | (q, Inr (T', rows)) \<Rightarrow> (d\<lparr>pgSeqs := q, pgTx := (pgTx d)(x \<mapsto> T')\<rparr>, Inr rows)))))"

text \<open>A query that fails half way delivers the rows before the fault: here, all but the last.\<close>

definition pg_query :: "(nat \<Rightarrow> string option) \<Rightarrow> (nat \<Rightarrow> gotime) \<Rightarrow> dbtx \<Rightarrow> sql_stmt \<Rightarrow> pg \<Rightarrow>
    pg \<times> (go_error + sql_row list \<times> go_error option)" where
  "pg_query fault now h st d =
     (case pg_exec fault now h st d of
        (d', Inl e) \<Rightarrow> (d', Inl e)
      | (d', Inr rows) \<Rightarrow>
          let n = pgCalls d'; d' = d'\<lparr>pgCalls := Suc n\<rparr> in
          case fault n of
            None \<Rightarrow> (d', Inr (rows, None))
          | Some m \<Rightarrow> (d', Inr (butlast rows, Some (LibError m))))"

definition pg_begin :: "(nat \<Rightarrow> string option) \<Rightarrow> pg \<Rightarrow> pg \<times> (go_error + nat)" where
  "pg_begin fault d =
     (let n = pgCalls d; d = d\<lparr>pgCalls := Suc n\<rparr>; x = pgNextTx d in
      case fault n of
        Some m \<Rightarrow> (d, Inl (LibError m))
      | None \<Rightarrow> (d\<lparr>pgTx := (pgTx d)(x \<mapsto> pgTables d), pgNextTx := Suc x\<rparr>, Inr x))"

definition pg_commit :: "(nat \<Rightarrow> string option) \<Rightarrow> nat \<Rightarrow> pg \<Rightarrow> pg \<times> (go_error + unit)" where
  "pg_commit fault x d =
     (let n = pgCalls d; d = d\<lparr>pgCalls := Suc n\<rparr> in
      case (fault n, pgTx d x) of
        (None, Some T) \<Rightarrow> (d\<lparr>pgTables := T, pgTx := (pgTx d)(x := None)\<rparr>, Inr ())
      | (Some m, _) \<Rightarrow> (d\<lparr>pgTx := (pgTx d)(x := None)\<rparr>, Inl (LibError m))
      | (None, None) \<Rightarrow> (d, Inl (LibError ''sql: transaction has already been committed or rolled back'')))"

definition pg_rollback :: "nat \<Rightarrow> pg \<Rightarrow> pg \<times> (go_error + unit)" where
  "pg_rollback x d = (d\<lparr>pgTx := (pgTx d)(x := None)\<rparr>, Inr ())"

definition pg_driver :: "(nat \<Rightarrow> string option) \<Rightarrow> (nat \<Rightarrow> gotime) \<Rightarrow> pg sql_driver" where
  "pg_driver fault now = \<lparr>dbBeginTx = pg_begin fault, dbExec = pg_exec fault now,
     dbQuery = pg_query fault now, dbCommit = pg_commit fault, dbRollback = pg_rollback\<rparr>"

lemma pg_driver_sel [simp]:
  "dbBeginTx (pg_driver fault now) = pg_begin fault"
  "dbExec (pg_driver fault now) = pg_exec fault now"
  "dbQuery (pg_driver fault now) = pg_query fault now"
  "dbCommit (pg_driver fault now) = pg_commit fault"
  "dbRollback (pg_driver fault now) = pg_rollback"
  by (simp_all add: pg_driver_def)

section \<open>The engine meets the contract\<close>

definition covered_by :: "nat \<Rightarrow> (int64 \<rightharpoonup> 'r) \<Rightarrow> bool" where
  "covered_by n m \<longleftrightarrow> (\<forall>k r. m k = Some r \<longrightarrow> 1 \<le> unat k \<and> unat k \<le> n)"

definition covered :: "seqs \<Rightarrow> tables \<Rightarrow> bool" where
  "covered q T \<longleftrightarrow> covered_by (seqUsers q) (tbUsers T) \<and> covered_by (seqTasks q) (tbTasks T)
     \<and> covered_by (seqAccounts q) (tbAccounts T) \<and> covered_by (seqTransfers q) (tbTransfers T)"

definition seqs_ok :: "seqs \<Rightarrow> bool" where
  "seqs_ok q \<longleftrightarrow> seqUsers q \<le> max_seq \<and> seqTasks q \<le> max_seq \<and> seqAccounts q \<le> max_seq
     \<and> seqTransfers q \<le> max_seq"

definition seqs_le :: "seqs \<Rightarrow> seqs \<Rightarrow> bool" where
  "seqs_le p q \<longleftrightarrow> seqUsers p \<le> seqUsers q \<and> seqTasks p \<le> seqTasks q
     \<and> seqAccounts p \<le> seqAccounts q \<and> seqTransfers p \<le> seqTransfers q"

lemma unat_of_nat_seq: "n \<le> max_seq \<Longrightarrow> unat (of_nat n :: int64) = n"
  by (simp add: unsigned_of_nat take_bit_nat_eq_self max_seq_def)

lemma sint_of_nat_seq: "n \<le> max_seq \<Longrightarrow> sint (of_nat n :: int64) = int n"
  using sint_of_int_int64 [of "int n"] by (simp add: max_seq_def)

lemma set_rows_upto:
  assumes "covered_by n m"
  shows "set (rows_upto n m) = ran m"
proof
  show "set (rows_upto n m) \<subseteq> ran m" by (auto simp: rows_upto_def ran_def split: option.splits)
  show "ran m \<subseteq> set (rows_upto n m)"
  proof
    fix r assume "r \<in> ran m"
    then obtain k where k: "m k = Some r" by (auto simp: ran_def)
    then have "unat k \<in> set [1..<Suc n]" using assms by (auto simp: covered_by_def)
    moreover have "m (of_nat (unat k)) = Some r" using k by simp
    ultimately show "r \<in> set (rows_upto n m)" unfolding rows_upto_def by force
  qed
qed

lemma distinct_rows_upto:
  assumes "n \<le> max_seq" and key: "\<And>k r. m k = Some r \<Longrightarrow> key r = k"
  shows "distinct (rows_upto n m)"
proof -
  have "map key (rows_upto n m) = map of_nat (filter (\<lambda>k. m (of_nat k) \<noteq> None) [1..<Suc n])"
    unfolding rows_upto_def by (induction n) (auto dest: key split: option.splits)
  moreover have "inj_on (of_nat :: nat \<Rightarrow> int64) (set (filter (\<lambda>k. m (of_nat k) \<noteq> None) [1..<Suc n]))"
    using assms(1) by (intro inj_on_inverseI [of _ unat]) (auto intro: unat_of_nat_seq)
  ultimately have "distinct (map key (rows_upto n m))" by (simp add: distinct_map)
  then show ?thesis by (simp add: distinct_map)
qed

lemma lists_rows_listed:
  assumes "covered_by n m" "n \<le> max_seq" "\<And>k r. m k = Some r \<Longrightarrow> key r = k"
  shows "lists_rows mk created P m (listed mk created P n m)"
  unfolding lists_rows_def listed_def
proof (intro exI conjI)
  let ?rs = "sort_key (\<lambda>r. - created r) (filter P (rows_upto n m))"
  show "distinct ?rs" using distinct_rows_upto [of n m key] assms(2,3) by simp
  show "set ?rs = {r \<in> ran m. P r}" using set_rows_upto [OF assms(1)] by auto
  have "sorted (map (\<lambda>r. - created r) ?rs)" by simp
  then show "newest_first created ?rs" by (simp add: newest_first_def sorted_wrt_map)
qed simp

lemma covered_by_mono: "covered_by n m \<Longrightarrow> n \<le> n' \<Longrightarrow> covered_by n' m"
  unfolding covered_by_def using order_trans by blast

lemma covered_mono: "covered p T \<Longrightarrow> seqs_le p q \<Longrightarrow> covered q T"
  by (auto simp: covered_def seqs_le_def intro: covered_by_mono)

lemma covered_by_fresh:
  "covered_by n m \<Longrightarrow> \<not> n \<ge> max_seq \<Longrightarrow> m (of_nat (Suc n)) = None"
  using unat_of_nat_seq [of "Suc n"] by (force simp: covered_by_def)

lemma covered_by_insert:
  "covered_by n m \<Longrightarrow> \<not> n \<ge> max_seq \<Longrightarrow> covered_by (Suc n) (m(of_nat (Suc n) \<mapsto> r))"
  using unat_of_nat_seq [of "Suc n"] by (fastforce simp: covered_by_def)

lemma covered_by_upd: "covered_by n m \<Longrightarrow> m k = Some r \<Longrightarrow> covered_by n (m(k \<mapsto> r'))"
  by (auto simp: covered_by_def)

lemma covered_by_drop: "covered_by n m \<Longrightarrow> covered_by n (drop_rows P m)"
  by (auto simp: covered_by_def drop_rows_Some)

lemma covered_by_del: "covered_by n m \<Longrightarrow> covered_by n (m(k := None))"
  by (auto simp: covered_by_def)

lemma find_rows_None:
  "covered_by n m \<Longrightarrow> find P (rows_upto n m) = None \<longleftrightarrow> (\<forall>r \<in> ran m. \<not> P r)"
  by (auto simp: find_None_iff set_rows_upto)

lemma utf8_length_append: "utf8_length (xs @ ys) = utf8_length xs + utf8_length ys"
  by (simp add: utf8_length_def)

lemma utf8_length_spaces [simp]: "utf8_length (replicate k CHR '' '') = k"
  by (simp add: utf8_length_def is_cont_def)

lemma trim_varchar_fits: "trim_varchar n s = Some s' \<Longrightarrow> fits_varchar n s s'"
proof (cases "utf8_length s \<le> n")
  case False
  assume "trim_varchar n s = Some s'"
  with False have s: "s = s' @ replicate (utf8_length s - n) CHR '' ''"
    by (auto simp: trim_varchar_def Let_def split: if_splits)
  then have "utf8_length s = utf8_length s' + (utf8_length s - n)"
    by (metis utf8_length_append utf8_length_spaces)
  with False s show ?thesis by (auto simp: fits_varchar_def)
qed (auto simp: trim_varchar_def fits_varchar_def)

lemma pg_run_seqs:
  assumes "pg_run t st q T = (q', r)" "seqs_ok q"
  shows "seqs_le q q' \<and> seqs_ok q'"
  using assms by (cases st) (auto simp: seqs_le_def seqs_ok_def Let_def split: if_splits option.splits)

lemma lists_rows_tables:
  assumes "schema_ok T" "covered q T" "seqs_ok q"
  shows "lists_rows mk1 created1 P1 (tbTasks T) (listed mk1 created1 P1 (seqTasks q) (tbTasks T))"
    and "lists_rows mk2 created2 P2 (tbAccounts T) (listed mk2 created2 P2 (seqAccounts q) (tbAccounts T))"
    and "lists_rows mk3 created3 P3 (tbTransfers T) (listed mk3 created3 P3 (seqTransfers q) (tbTransfers T))"
  using assms
  by (auto simp: covered_def seqs_ok_def schema_ok_def
      intro!: lists_rows_listed [where key = tID] lists_rows_listed [where key = aID]
        lists_rows_listed [where key = trID])

lemma pg_run_users:
  assumes "schema_ok T" "covered q T" "seqs_ok q"
  shows "pg_run t (InsertUser e n p) q T = (q', Inr (T', rows)) \<Longrightarrow>
      sql_effect (InsertUser e n p) T T' rows \<and> covered q' T'"
    and "pg_run t (SelectUserByEmail e) q T = (q', Inr (T', rows)) \<Longrightarrow>
      sql_effect (SelectUserByEmail e) T T' rows \<and> covered q' T'"
    and "pg_run t (UpdateUserRow e n p i) q T = (q', Inr (T', rows)) \<Longrightarrow>
      sql_effect (UpdateUserRow e n p i) T T' rows \<and> covered q' T'"
    and "pg_run t (DeleteUserRow i) q T = (q', Inr (T', rows)) \<Longrightarrow>
      sql_effect (DeleteUserRow i) T T' rows \<and> covered q' T'"
proof -
  note cov = assms(2) [unfolded covered_def]
  show "pg_run t (InsertUser e n p) q T = (q', Inr (T', rows)) \<Longrightarrow>
      sql_effect (InsertUser e n p) T T' rows \<and> covered q' T'"
    using cov covered_by_fresh [of "seqUsers q" "tbUsers T"] covered_by_insert [of "seqUsers q" "tbUsers T"]
      sint_of_nat_seq [of "Suc (seqUsers q)"]
    by (auto simp: Let_def covered_def find_rows_None split: if_splits)
  show "pg_run t (SelectUserByEmail e) q T = (q', Inr (T', rows)) \<Longrightarrow>
      sql_effect (SelectUserByEmail e) T T' rows \<and> covered q' T'"
    using assms cov distinct_rows_upto [of "seqUsers q" "tbUsers T" uID]
    by (auto simp: set_rows_upto seqs_ok_def schema_uID
        intro!: exI [of _ "filter (\<lambda>u. uEmail u = e) (rows_upto (seqUsers q) (tbUsers T))"])
  show "pg_run t (UpdateUserRow e n p i) q T = (q', Inr (T', rows)) \<Longrightarrow>
      sql_effect (UpdateUserRow e n p i) T T' rows \<and> covered q' T'"
    using assms(1) cov covered_by_upd [of "seqUsers q" "tbUsers T" i]
    by (auto simp: covered_def find_rows_None ran_def split: option.splits if_splits dest: schema_uID)
  show "pg_run t (DeleteUserRow i) q T = (q', Inr (T', rows)) \<Longrightarrow>
      sql_effect (DeleteUserRow i) T T' rows \<and> covered q' T'"
    using cov by (auto simp: covered_def find_rows_None Let_def covered_by_drop covered_by_del split: if_splits)
qed

lemma pg_run_tasks:
  assumes "schema_ok T" "covered q T" "seqs_ok q"
  shows "pg_run t (InsertTask u ti de s) q T = (q', Inr (T', rows)) \<Longrightarrow>
      sql_effect (InsertTask u ti de s) T T' rows \<and> covered q' T'"
    and "pg_run t (SelectTasksByUser u) q T = (q', Inr (T', rows)) \<Longrightarrow>
      sql_effect (SelectTasksByUser u) T T' rows \<and> covered q' T'"
    and "pg_run t (UpdateTaskRow ti de s i) q T = (q', Inr (T', rows)) \<Longrightarrow>
      sql_effect (UpdateTaskRow ti de s i) T T' rows \<and> covered q' T'"
    and "pg_run t (DeleteTaskRow i) q T = (q', Inr (T', rows)) \<Longrightarrow>
      sql_effect (DeleteTaskRow i) T T' rows \<and> covered q' T'"
proof -
  note cov = assms(2) [unfolded covered_def]
  show "pg_run t (InsertTask u ti de s) q T = (q', Inr (T', rows)) \<Longrightarrow>
      sql_effect (InsertTask u ti de s) T T' rows \<and> covered q' T'"
    using cov covered_by_fresh [of "seqTasks q" "tbTasks T"] covered_by_insert [of "seqTasks q" "tbTasks T"]
      sint_of_nat_seq [of "Suc (seqTasks q)"]
    by (auto simp: Let_def covered_def split: if_splits)
  show "pg_run t (SelectTasksByUser u) q T = (q', Inr (T', rows)) \<Longrightarrow>
      sql_effect (SelectTasksByUser u) T T' rows \<and> covered q' T'"
    using assms lists_rows_tables [OF assms] by auto
  show "pg_run t (UpdateTaskRow ti de s i) q T = (q', Inr (T', rows)) \<Longrightarrow>
      sql_effect (UpdateTaskRow ti de s i) T T' rows \<and> covered q' T'"
    using cov covered_by_upd [of "seqTasks q" "tbTasks T" i]
    by (auto simp: covered_def split: option.splits)
  show "pg_run t (DeleteTaskRow i) q T = (q', Inr (T', rows)) \<Longrightarrow>
      sql_effect (DeleteTaskRow i) T T' rows \<and> covered q' T'"
    using cov by (auto simp: covered_def covered_by_del)
qed

lemma pg_run_banking:
  assumes "schema_ok T" "covered q T" "seqs_ok q"
  shows "pg_run t (InsertAccount u c b) q T = (q', Inr (T', rows)) \<Longrightarrow>
      sql_effect (InsertAccount u c b) T T' rows \<and> covered q' T'"
    and "pg_run t (SelectAccountsByUser u) q T = (q', Inr (T', rows)) \<Longrightarrow>
      sql_effect (SelectAccountsByUser u) T T' rows \<and> covered q' T'"
    and "pg_run t (AddToBalance n i) q T = (q', Inr (T', rows)) \<Longrightarrow>
      sql_effect (AddToBalance n i) T T' rows \<and> covered q' T'"
    and "pg_run t (InsertTransfer x y n c de) q T = (q', Inr (T', rows)) \<Longrightarrow>
      sql_effect (InsertTransfer x y n c de) T T' rows \<and> covered q' T'"
    and "pg_run t (SelectTransfersByAccount i) q T = (q', Inr (T', rows)) \<Longrightarrow>
      sql_effect (SelectTransfersByAccount i) T T' rows \<and> covered q' T'"
proof -
  note cov = assms(2) [unfolded covered_def]
  show "pg_run t (InsertAccount u c b) q T = (q', Inr (T', rows)) \<Longrightarrow>
      sql_effect (InsertAccount u c b) T T' rows \<and> covered q' T'"
    using cov covered_by_fresh [of "seqAccounts q" "tbAccounts T"] covered_by_insert [of "seqAccounts q" "tbAccounts T"]
      sint_of_nat_seq [of "Suc (seqAccounts q)"] trim_varchar_fits [of 3 c]
    by (fastforce simp: Let_def covered_def split: if_splits option.splits)
  show "pg_run t (SelectAccountsByUser u) q T = (q', Inr (T', rows)) \<Longrightarrow>
      sql_effect (SelectAccountsByUser u) T T' rows \<and> covered q' T'"
    using assms lists_rows_tables [OF assms] by auto
  show "pg_run t (AddToBalance n i) q T = (q', Inr (T', rows)) \<Longrightarrow>
      sql_effect (AddToBalance n i) T T' rows \<and> covered q' T'"
    using cov covered_by_upd [of "seqAccounts q" "tbAccounts T" i]
    by (auto simp: covered_def split: option.splits if_splits)
  show "pg_run t (InsertTransfer x y n c de) q T = (q', Inr (T', rows)) \<Longrightarrow>
      sql_effect (InsertTransfer x y n c de) T T' rows \<and> covered q' T'"
    using cov covered_by_fresh [of "seqTransfers q" "tbTransfers T"] covered_by_insert [of "seqTransfers q" "tbTransfers T"]
      sint_of_nat_seq [of "Suc (seqTransfers q)"] trim_varchar_fits [of 3 c]
    by (fastforce simp: Let_def covered_def split: if_splits option.splits)
  show "pg_run t (SelectTransfersByAccount i) q T = (q', Inr (T', rows)) \<Longrightarrow>
      sql_effect (SelectTransfersByAccount i) T T' rows \<and> covered q' T'"
    using assms lists_rows_tables [OF assms] by auto
qed

lemma pg_run_by_id:
  assumes "covered q T"
  shows "pg_run t (SelectUserByID i) q T = (q', Inr (T', rows)) \<Longrightarrow> sql_effect (SelectUserByID i) T T' rows \<and> covered q' T'"
    and "pg_run t (SelectTaskByID i) q T = (q', Inr (T', rows)) \<Longrightarrow> sql_effect (SelectTaskByID i) T T' rows \<and> covered q' T'"
    and "pg_run t (SelectAccountByID i) q T = (q', Inr (T', rows)) \<Longrightarrow> sql_effect (SelectAccountByID i) T T' rows \<and> covered q' T'"
  using assms by auto

lemma pg_run_ok:
  assumes "schema_ok T" "covered q T" "seqs_ok q" "pg_run t st q T = (q', Inr (T', rows))"
  shows "sql_effect st T T' rows \<and> covered q' T'"
  by (insert assms(4), cases st; hypsubst;
      erule pg_run_by_id [OF assms(2)] pg_run_users [OF assms(1-3)] pg_run_tasks [OF assms(1-3)] pg_run_banking [OF assms(1-3)])

section \<open>The engine contract\<close>

definition pg_inv :: "pg \<Rightarrow> bool" where
  "pg_inv d \<longleftrightarrow> seqs_ok (pgSeqs d) \<and> schema_ok (pgTables d) \<and> covered (pgSeqs d) (pgTables d)
     \<and> (\<forall>x T. pgTx d x = Some T \<longrightarrow> schema_ok T \<and> covered (pgSeqs d) T)"

lemma pg_inv_calls [simp]: "pg_inv (d\<lparr>pgCalls := n\<rparr>) = pg_inv d"
  by (simp add: pg_inv_def)

lemma pg_inv_next [simp]: "pg_inv (d\<lparr>pgNextTx := n\<rparr>) = pg_inv d"
  by (simp add: pg_inv_def)

lemma pg_inv_tx:
  "pg_inv d \<Longrightarrow> schema_ok T \<Longrightarrow> covered (pgSeqs d) T \<Longrightarrow> pg_inv (d\<lparr>pgTx := (pgTx d)(x \<mapsto> T)\<rparr>)"
  "pg_inv d \<Longrightarrow> pg_inv (d\<lparr>pgTx := (pgTx d)(x := None)\<rparr>)"
  by (auto simp: pg_inv_def)

lemma pg_inv_seqs: "pg_inv d \<Longrightarrow> seqs_le (pgSeqs d) q \<Longrightarrow> seqs_ok q \<Longrightarrow> pg_inv (d\<lparr>pgSeqs := q\<rparr>)"
  by (auto simp: pg_inv_def intro: covered_mono)

lemma pg_inv_tables:
  "pg_inv d \<Longrightarrow> schema_ok T \<Longrightarrow> covered (pgSeqs d) T \<Longrightarrow> pg_inv (d\<lparr>pgTables := T\<rparr>)"
  by (auto simp: pg_inv_def)

text \<open>A statement through the pool and in a transaction, in one lemma each.\<close>

lemma pg_exec_pool:
  assumes "pg_inv d" "pg_exec fault now PoolConn st d = (d', r)"
  shows "pg_inv d' \<and> pgTx d' = pgTx d \<and>
    (case r of
       Inl e \<Rightarrow> pgTables d' = pgTables d \<and> (\<exists>m. e = LibError m)
     | Inr rows \<Rightarrow> sql_effect st (pgTables d) (pgTables d') rows)"
proof (cases "fault (pgCalls d)")
  case (Some m)
  then show ?thesis using assms by (auto simp: pg_exec_def Let_def)
next
  case None
  obtain q r1 where run: "pg_run (now (pgCalls d)) st (pgSeqs d) (pgTables d) = (q, r1)" by fastforce
  have ok: "schema_ok (pgTables d)" "covered (pgSeqs d) (pgTables d)" "seqs_ok (pgSeqs d)"
    using assms(1) by (simp_all add: pg_inv_def)
  have q: "seqs_le (pgSeqs d) q" "seqs_ok q" using pg_run_seqs [OF run ok(3)] by simp_all
  show ?thesis
  proof (cases r1)
    case (Inl m)
    then show ?thesis using assms(2) run None pg_inv_seqs [OF assms(1) q]
      by (auto simp: pg_exec_def Let_def pg_inv_def)
  next
    case (Inr p)
    then obtain T rows where p: "r1 = Inr (T, rows)" by (cases p) auto
    note eff = pg_run_ok [OF ok run [unfolded p]]
    have "schema_ok T" using eff sql_effect_schema ok(1) by blast
    then have "pg_inv (d\<lparr>pgSeqs := q, pgTables := T\<rparr>)"
      using pg_inv_seqs [OF assms(1) q] eff by (auto intro: pg_inv_tables)
    then show ?thesis using assms(2) run None p eff by (auto simp: pg_exec_def Let_def pg_inv_def)
  qed
qed

lemma pg_exec_tx:
  assumes "pg_inv d" "pg_exec fault now (TxConn x) st d = (d', r)"
  shows "pg_inv d' \<and> pgTables d' = pgTables d \<and>
    (case r of
       Inl e \<Rightarrow> \<exists>m. e = LibError m
     | Inr rows \<Rightarrow> \<exists>T T'. pgTx d x = Some T \<and> pgTx d' x = Some T' \<and> sql_effect st T T' rows)"
proof (cases "fault (pgCalls d) = None \<and> pgTx d x \<noteq> None")
  case False
  then show ?thesis using assms by (auto simp: pg_exec_def Let_def split: option.splits)
next
  case True
  then obtain T where T: "pgTx d x = Some T" and None: "fault (pgCalls d) = None" by auto
  obtain q r1 where run: "pg_run (now (pgCalls d)) st (pgSeqs d) T = (q, r1)" by fastforce
  have ok: "schema_ok T" "covered (pgSeqs d) T" "seqs_ok (pgSeqs d)"
    using assms(1) T by (auto simp: pg_inv_def)
  have q: "seqs_le (pgSeqs d) q" "seqs_ok q" using pg_run_seqs [OF run ok(3)] by simp_all
  note inv_q = pg_inv_seqs [OF assms(1) q]
  show ?thesis
  proof (cases r1)
    case (Inl m)
    then show ?thesis using assms(2) run None T pg_inv_tx(2) [OF inv_q, of x]
      by (auto simp: pg_exec_def Let_def pg_inv_def)
  next
    case (Inr p)
    then obtain T' rows where p: "r1 = Inr (T', rows)" by (cases p) auto
    note eff = pg_run_ok [OF ok run [unfolded p]]
    have "schema_ok T'" using eff sql_effect_schema ok(1) by blast
    then have "pg_inv (d\<lparr>pgSeqs := q, pgTx := (pgTx d)(x \<mapsto> T')\<rparr>)"
      using pg_inv_tx(1) [OF inv_q, of T' x] eff by simp
    then show ?thesis using assms(2) run None T p eff by (auto simp: pg_exec_def Let_def pg_inv_def)
  qed
qed

lemma pg_query_cases:
  assumes "pg_query fault now h st d = (d', r)"
  obtains (err) e where "pg_exec fault now h st d = (d', Inl e)" "r = Inl e"
  | (rows) d1 rows n where "pg_exec fault now h st d = (d1, Inr rows)" "d' = d1\<lparr>pgCalls := n\<rparr>"
      "r = Inr (rows, None) \<or> (\<exists>m. r = Inr (butlast rows, Some (LibError m)))"
  using assms by (auto simp: pg_query_def Let_def split: prod.splits sum.splits option.splits)

lemma pg_exec_inv: "pg_inv d \<Longrightarrow> pg_exec fault now h st d = (d', r) \<Longrightarrow> pg_inv d'"
  using pg_exec_pool pg_exec_tx by (cases h) blast+

lemma pg_exec_err: "pg_inv d \<Longrightarrow> pg_exec fault now h st d = (d', Inl e) \<Longrightarrow> \<exists>m. e = LibError m"
  using pg_exec_pool [of d fault now st d' "Inl e"] pg_exec_tx [of d fault now _ st d' "Inl e"]
  by (cases h) auto

lemma butlast_rest: "\<exists>rest. butlast xs @ rest = xs"
  by (cases xs rule: rev_cases) auto

lemma pg_begin_cases:
  assumes "pg_inv d" "pg_begin fault d = (d', r)"
  shows "pg_inv d' \<and> pgTables d' = pgTables d
    \<and> (case r of Inl e \<Rightarrow> \<exists>m. e = LibError m | Inr x \<Rightarrow> pgTx d' x = Some (pgTables d))"
  using assms by (auto simp: pg_begin_def Let_def pg_inv_def split: option.splits if_splits)

lemma pg_commit_cases:
  assumes "pg_inv d" "pg_commit fault x d = (d', r)" "pgTx d x = Some T"
  shows "pg_inv d' \<and> (case r of Inl e \<Rightarrow> pgTables d' = pgTables d \<and> (\<exists>m. e = LibError m) | Inr _ \<Rightarrow> pgTables d' = T)"
  using assms by (auto simp: pg_commit_def Let_def pg_inv_def split: option.splits if_splits)

lemma pg_rollback_cases:
  "pg_inv d \<Longrightarrow> pg_rollback x d = (d', r) \<Longrightarrow> pg_inv d' \<and> pgTables d' = pgTables d"
  by (auto simp: pg_rollback_def pg_inv_def split: if_splits)

interpretation pg_engine: sql_engine "pg_driver fault now" pg_inv pgTables pgTx for fault now
proof (unfold_locales, goal_cases)
  case (1 d)
  then show ?case by (simp add: pg_inv_def)
next
  case (2 d x T)
  then show ?case by (auto simp: pg_inv_def)
next
  case (3 d h st d' r)
  then show ?case using pg_exec_inv by simp
next
  case (4 d h st d' e)
  then show ?case using pg_exec_err by simp
next
  case (5 d st d' rows)
  then show ?case using pg_exec_pool [of d fault now st d' "Inr rows"] by simp
next
  case (6 d st d' e)
  then show ?case using pg_exec_pool [of d fault now st d' "Inl e"] by simp
next
  case (7 d x st d' r)
  then show ?case using pg_exec_tx by fastforce
next
  case (8 d x st d' rows T)
  then show ?case using pg_exec_tx [of d fault now x st d' "Inr rows"] by auto
next
  case (9 d h st d' qr)
  then show ?case using pg_exec_inv by (auto elim!: pg_query_cases)
next
  case (10 d h st d' e)
  then show ?case using pg_exec_err by (auto elim!: pg_query_cases)
next
  case (11 d h st d' rows e)
  then show ?case by (auto elim!: pg_query_cases)
next
  case (12 d st d' rows err)
  from 12(2) have "pg_query fault now PoolConn st d = (d', Inr (rows, err))" by simp
  then show ?case
  proof (cases rule: pg_query_cases)
    case (rows d1 rs n)
    then have "sql_effect st (pgTables d) (pgTables d') rs"
      using pg_exec_pool [OF 12(1) rows(1)] by simp
    moreover from this have "\<exists>rest. sql_effect st (pgTables d) (pgTables d') (butlast rs @ rest)"
      using butlast_rest [of rs] by metis
    ultimately show ?thesis using rows(3) by auto
  qed simp
next
  case (13 d st d' e)
  then show ?case using pg_exec_pool [of d fault now st d' "Inl e"] by (auto elim!: pg_query_cases)
next
  case (14 d d' x)
  then show ?case using pg_begin_cases [of d fault d' "Inr x"] by simp
next
  case (15 d d' e)
  then show ?case using pg_begin_cases [of d fault d' "Inl e"] by simp
next
  case (16 d x d' u T)
  then show ?case using pg_commit_cases [of d fault x d' "Inr u" T] by simp
next
  case (17 d x d' e T)
  then show ?case using pg_commit_cases [of d fault x d' "Inl e" T] by simp
next
  case (18 d x d' q)
  then show ?case using pg_rollback_cases by simp
qed

lemma pg_inv_empty [simp]: "pg_inv pg_empty"
  by (simp add: pg_inv_def pg_empty_def no_tables_def seqs_ok_def schema_ok_def covered_def covered_by_def)

end
