(* ===== verification/Pg_Services.thy ===== *)
theory Pg_Services
  imports Pg_Reference User_Service Task_Service Banking_Service
begin

text \<open>
  The services on the PostgreSQL repositories: what a registration, a login, the task operations
  and a transfer do to the committed tables of any engine that meets \<open>sql_engine\<close>, with every
  pattern of faults.  The witnesses run on \<open>pg_driver\<close>.
\<close>

section \<open>A store to run on\<close>

definition pg_demo :: pg where
  "pg_demo = pg_empty\<lparr>
     pgTables := no_tables\<lparr>
       tbUsers := [1 \<mapsto> \<lparr>uID = 1, uEmail = ''a@x.io'', uName = ''Ann'', uPassword = ''#secret-1'', uCreatedAt = 0, uUpdatedAt = 0\<rparr>,
                   2 \<mapsto> \<lparr>uID = 2, uEmail = ''b@x.io'', uName = ''Bob'', uPassword = ''#secret-2'', uCreatedAt = 0, uUpdatedAt = 0\<rparr>],
       tbTasks := [1 \<mapsto> \<lparr>tID = 1, tUserID = 1, tTitle = ''write'', tDescription = [], tStatus = TaskStatusTodo,
                         tCreatedAt = 0, tUpdatedAt = 0\<rparr>],
       tbAccounts := [1 \<mapsto> \<lparr>aID = 1, aUserID = 1, aCurrency = ''USD'', aBalance = 100, aCreatedAt = 0, aUpdatedAt = 0\<rparr>,
                      2 \<mapsto> \<lparr>aID = 2, aUserID = 2, aCurrency = ''USD'', aBalance = - 100, aCreatedAt = 0, aUpdatedAt = 0\<rparr>],
       tbTransfers := [1 \<mapsto> \<lparr>trID = 1, trSenderAccountID = 2, trReceiverAccountID = 1, trAmount = 100,
                             trCurrency = ''USD'', trDescription = [], trCreatedAt = 0\<rparr>]\<rparr>,
     pgSeqs := \<lparr>seqUsers = 2, seqTasks = 1, seqAccounts = 2, seqTransfers = 1\<rparr>\<rparr>"

lemma pg_demo_inv [simp]: "pg_inv pg_demo"
  by (auto simp: pg_inv_def pg_demo_def pg_empty_def no_tables_def seqs_ok_def max_seq_def schema_ok_def
      covered_def covered_by_def split: if_splits)

abbreviation no_fault :: "nat \<Rightarrow> string option" where
  "no_fault \<equiv> \<lambda>_. None"

abbreviation demo_driver :: "pg sql_driver" where
  "demo_driver \<equiv> pg_driver no_fault int"

lemma pg_demo_sel [simp]:
  "pgCalls pg_demo = 0" "pgTx pg_demo = Map.empty" "pgNextTx pg_demo = 0"
  by (simp_all add: pg_demo_def pg_empty_def)

lemma rows_upto_eval:
  "rows_upto 0 m = []"
  "rows_upto (Suc n) m = rows_upto n m @ (case m (of_nat (Suc n)) of None \<Rightarrow> [] | Some r \<Rightarrow> [r])"
  "rows_upto (numeral k) m =
     rows_upto (pred_numeral k) m @ (case m (numeral k) of None \<Rightarrow> [] | Some r \<Rightarrow> [r])"
proof -
  show step: "rows_upto (Suc n) m = rows_upto n m @ (case m (of_nat (Suc n)) of None \<Rightarrow> [] | Some r \<Rightarrow> [r])" for n
    by (simp add: rows_upto_def)
  show "rows_upto (numeral k) m =
     rows_upto (pred_numeral k) m @ (case m (numeral k) of None \<Rightarrow> [] | Some r \<Rightarrow> [r])"
    unfolding numeral_eq_Suc [of k] step by (simp flip: numeral_eq_Suc)
qed (simp add: rows_upto_def)

lemmas pg_eval = RunInTx_def pg_begin_def pg_exec_def pg_query_def pg_commit_def pg_rollback_def Let_def
  query_row_def max_seq_def rows_upto_eval trim_varchar_def listed_def utf8_length_def is_cont_def
  bigint_sum_ok_def PgAccountRepo_GetByID_def PgAccountRepo_UpdateBalance_def PgTransferRepo_Create_def
  PgUserRepo_Create_def PgUserRepo_GetByID_def PgUserRepo_GetByEmail_def scan_user_def
  PgTaskRepo_Create_def PgTaskRepo_GetByID_def PgTaskRepo_ListByUser_def PgTaskRepo_Update_def
  PgTaskRepo_Delete_def PgAccountRepo_Create_def
  pg_demo_def pg_empty_def no_tables_def

lemmas transfer_eval = BankingService_Transfer_def transfer_body_def loadAndValidateTransferAccounts_def
  applyTransferBalances_def

section \<open>Transfers\<close>

abbreviation pg_transfer where
  "pg_transfer D \<equiv> BankingService_Transfer D (PgAccountRepo D) (PgTransferRepo D)"

definition demo_request :: "int64 \<Rightarrow> create_transfer_request" where
  "demo_request n = \<lparr>rqReceiverAccountID = 2, rqAmount = n, rqCurrency = ''USD'', rqDescription = ''rent''\<rparr>"

text \<open>C1: A transfer happens entirely or not at all.  When it reports success the guards held (the
  sender owns the account, the balance covers the amount, the currencies agree), both balances moved
  and the transfer is recorded; when it reports an error the committed tables are as before, or the
  commit itself failed and the whole transfer took effect.\<close>

theorem transfer_all_or_nothing:
  assumes "sql_engine D ok committed tx_view" "ok d"
    and "pg_transfer D ctx uid req i d = (d', r)"
  shows "case r of
      Inr tr \<Rightarrow> transfer_done uid req i (committed d) (committed d') tr
    | Inl e \<Rightarrow> committed d' = committed d
        \<or> (\<exists>tr m. transfer_done uid req i (committed d) (committed d') tr
               \<and> e = WrapError ''commit tx'' (LibError m))"
  using sql_engine.Transfer_cases [OF assms] by (cases r) auto

lemma transfer_demo_run:
  "snd (pg_transfer demo_driver background 1 (demo_request 30) 1 pg_demo)
   = Inr \<lparr>trID = 2, trSenderAccountID = 1, trReceiverAccountID = 2, trAmount = 30, trCurrency = ''USD'',
          trDescription = ''rent'', trCreatedAt = 5\<rparr>"
  by (simp add: pg_eval transfer_eval demo_request_def)

lemma transfer_all_or_nothing_witness:
  "transfer_done 1 (demo_request 30) 1 (pgTables pg_demo)
     (pgTables (fst (pg_transfer demo_driver background 1 (demo_request 30) 1 pg_demo)))
     \<lparr>trID = 2, trSenderAccountID = 1, trReceiverAccountID = 2, trAmount = 30, trCurrency = ''USD'',
      trDescription = ''rent'', trCreatedAt = 5\<rparr>"
  using transfer_all_or_nothing [OF pg_engine.sql_engine_axioms pg_demo_inv,
      of no_fault int background 1 "demo_request 30" 1, OF surjective_pairing]
  by (simp only: transfer_demo_run sum.case)

text \<open>A transfer creates no money and loses none, in any currency, whether it succeeds or fails,
  unless the amount is the one 64-bit number that has no negation.\<close>

theorem transfer_conserves_money:
  assumes "sql_engine D ok committed tx_view" "ok d"
    and "pg_transfer D ctx uid req i d = (d', r)"
    and "sint (rqAmount req) \<noteq> - (2 ^ 63)"
  shows "money_in cur (committed d') = money_in cur (committed d)"
proof -
  have "finite (dom (tbAccounts (committed d)))"
    using sql_engine.committed_schema [OF assms(1,2)] by (simp add: schema_ok_def)
  then show ?thesis
    using sql_engine.Transfer_cases [OF assms(1-3)] transfer_done_money assms(4) by (cases r) force+
qed

lemma transfer_conserves_money_witness:
  "money_in ''USD'' (pgTables (fst (pg_transfer demo_driver background 1 (demo_request 30) 1 pg_demo)))
   = money_in ''USD'' (pgTables pg_demo)"
  by (rule transfer_conserves_money [OF pg_engine.sql_engine_axioms pg_demo_inv surjective_pairing])
    (simp add: demo_request_def)

text \<open>C7: With amounts that are not negative, no transfer drives any balance below zero.\<close>

theorem transfer_keeps_solvent:
  assumes "sql_engine D ok committed tx_view" "ok d"
    and "pg_transfer D ctx uid req i d = (d', r)"
    and "0 \<le> sint (rqAmount req)" "solvent (committed d)"
  shows "solvent (committed d')"
  using sql_engine.Transfer_cases [OF assms(1-3)] transfer_done_solvent assms(4,5)
  by (cases r) (fastforce)+

definition pg_solvent :: pg where
  "pg_solvent = pg_demo\<lparr>pgTables := (pgTables pg_demo)\<lparr>tbAccounts :=
     (tbAccounts (pgTables pg_demo))(2 \<mapsto> \<lparr>aID = 2, aUserID = 2, aCurrency = ''USD'', aBalance = 7,
                                           aCreatedAt = 0, aUpdatedAt = 0\<rparr>)\<rparr>\<rparr>"

lemma pg_solvent_inv: "pg_inv pg_solvent"
  by (auto simp: pg_solvent_def pg_inv_def pg_demo_def pg_empty_def no_tables_def seqs_ok_def max_seq_def
      schema_ok_def covered_def covered_by_def split: if_splits)

lemma transfer_keeps_solvent_witness:
  "solvent (pgTables (fst (pg_transfer demo_driver background 1 (demo_request 100) 1 pg_solvent)))
   \<and> balances (pgTables (fst (pg_transfer demo_driver background 1 (demo_request 100) 1 pg_solvent))) 1 = Some 0"
proof
  show "solvent (pgTables (fst (pg_transfer demo_driver background 1 (demo_request 100) 1 pg_solvent)))"
    by (rule transfer_keeps_solvent [OF pg_engine.sql_engine_axioms pg_solvent_inv surjective_pairing])
      (auto simp: demo_request_def solvent_def pg_solvent_def pg_demo_def split: if_splits)
  show "balances (pgTables (fst (pg_transfer demo_driver background 1 (demo_request 100) 1 pg_solvent))) 1 = Some 0"
    by (simp add: pg_solvent_def pg_eval transfer_eval demo_request_def balances_def)
qed

text \<open>The books stay balanced: if every balance is the sum of the account's transfers before a
  transfer, it is so after it.\<close>

theorem transfer_keeps_ledger:
  assumes "sql_engine D ok committed tx_view" "ok d"
    and "pg_transfer D ctx uid req i d = (d', r)"
    and "sint (rqAmount req) \<noteq> - (2 ^ 63)" "ledger_ok (committed d)"
  shows "ledger_ok (committed d')"
proof -
  have "finite (dom (tbTransfers (committed d)))"
    using sql_engine.committed_schema [OF assms(1,2)] by (simp add: schema_ok_def)
  then show ?thesis
    using sql_engine.Transfer_cases [OF assms(1-3)] transfer_done_ledger assms(4,5) by (cases r) fastforce+
qed

lemma transfer_keeps_ledger_witness:
  "ledger_ok (pgTables (fst (pg_transfer demo_driver background 1 (demo_request 30) 1 pg_demo)))"
proof (rule transfer_keeps_ledger [OF pg_engine.sql_engine_axioms pg_demo_inv surjective_pairing])
  show "ledger_ok (pgTables pg_demo)"
    by (auto simp: ledger_ok_def net_flow_def flow_def pg_demo_def split: if_splits)
qed (simp add: demo_request_def)

text \<open>C17: The guards do not look at the sign.  A transfer of a negative amount between two accounts of the same currency, asked
  for by the owner of the first with at least that (negative) balance, is refused by nothing but an error of the database itself, and
  when it is done the receiver loses \<open>\<bar>amount\<bar>\<close> and the sender gains it.  The one amount that has no negation, \<open>-(2 ^ 63)\<close>,
  passes the guards too: then both lose it, and \<open>2 ^ 64\<close> units of money are gone.\<close>

theorem transfer_negative_takes:
  assumes "sql_engine D ok committed tx_view" "ok d"
    and "pg_transfer D ctx uid req i d = (d', r)"
    and "tbAccounts (committed d) i = Some sa" "aUserID sa = uid" "aCurrency sa = rqCurrency req"
    and "tbAccounts (committed d) (rqReceiverAccountID req) = Some ra" "aCurrency ra = rqCurrency req"
    and "sint (rqAmount req) < 0" "sint (rqAmount req) \<le> sint (aBalance sa)" "i \<noteq> rqReceiverAccountID req"
  shows "case r of
      Inl e \<Rightarrow> driver_error e
    | Inr tr \<Rightarrow>
        account_amount (tbAccounts (committed d') (rqReceiverAccountID req)) = sint (aBalance ra) - \<bar>sint (rqAmount req)\<bar>
        \<and> account_amount (tbAccounts (committed d') i)
            = sint (aBalance sa) + (if sint (rqAmount req) = - (2 ^ 63) then - (2 ^ 63) else \<bar>sint (rqAmount req)\<bar>)
        \<and> money_in cur (committed d') = money_in cur (committed d)
            - (if cur = rqCurrency req \<and> sint (rqAmount req) = - (2 ^ 63) then 2 ^ 64 else 0)"
proof (cases r)
  case (Inl e)
  have "transfer_allowed (committed d) uid req i" using assms(4-8,10) by (auto simp: transfer_allowed_def)
  then show ?thesis using sql_engine.Transfer_allowed_error [OF assms(1,2) _ assms(3) [unfolded Inl]] Inl by simp
next
  case (Inr tr)
  have fin: "finite (dom (tbAccounts (committed d)))"
    using sql_engine.committed_schema [OF assms(1,2)] by (simp add: schema_ok_def)
  have moved: "transfer_done uid req i (committed d) (committed d') tr"
    using sql_engine.Transfer_cases [OF assms(1-3)] Inr by simp
  show ?thesis unfolding Inr sum.case
    using transfer_done_balances(1,2) [OF moved assms(11)] transfer_done_money [OF moved fin, of cur] assms(4,7,9)
    by (auto simp: account_amount_def sint_uminus_int64)
qed

text \<open>Both cases happen on the reference server: 40 units are taken, and \<open>2 ^ 64\<close> units disappear.\<close>

lemma transfer_negative_takes_witness:
  "account_amount (tbAccounts (pgTables (fst (pg_transfer demo_driver background 1 (demo_request (- 40)) 1 pg_solvent))) 1) = 140
   \<and> money_in ''USD'' (pgTables (fst (pg_transfer demo_driver background 1 (demo_request (- (2 ^ 63))) 1 pg_solvent)))
       = money_in ''USD'' (pgTables pg_solvent) - 2 ^ 64"
proof
  have taken: "snd (pg_transfer demo_driver background 1 (demo_request (- 40)) 1 pg_solvent)
     = Inr \<lparr>trID = 2, trSenderAccountID = 1, trReceiverAccountID = 2, trAmount = - 40, trCurrency = ''USD'',
          trDescription = ''rent'', trCreatedAt = 5\<rparr>"
    by (simp add: pg_solvent_def pg_eval transfer_eval demo_request_def)
  show "account_amount (tbAccounts (pgTables (fst (pg_transfer demo_driver background 1 (demo_request (- 40)) 1 pg_solvent))) 1) = 140"
    using transfer_negative_takes [OF pg_engine.sql_engine_axioms pg_solvent_inv,
        of no_fault int background 1 "demo_request (- 40)" 1, OF surjective_pairing] unfolding taken
    by (simp add: pg_solvent_def pg_demo_def demo_request_def)
  have lost: "snd (pg_transfer demo_driver background 1 (demo_request (- (2 ^ 63))) 1 pg_solvent)
     = Inr \<lparr>trID = 2, trSenderAccountID = 1, trReceiverAccountID = 2, trAmount = - (2 ^ 63), trCurrency = ''USD'',
          trDescription = ''rent'', trCreatedAt = 5\<rparr>"
    by (simp add: pg_solvent_def pg_eval transfer_eval demo_request_def)
  show "money_in ''USD'' (pgTables (fst (pg_transfer demo_driver background 1 (demo_request (- (2 ^ 63))) 1 pg_solvent)))
       = money_in ''USD'' (pgTables pg_solvent) - 2 ^ 64"
    using transfer_negative_takes [OF pg_engine.sql_engine_axioms pg_solvent_inv,
        of no_fault int background 1 "demo_request (- (2 ^ 63))" 1, OF surjective_pairing] unfolding lost
    by (simp add: pg_solvent_def pg_demo_def demo_request_def)
qed

section \<open>Registration and login\<close>

text \<open>A hash to run on: it keeps the password, and refuses what \<^verbatim>\<open>bcrypt\<close> refuses,
  passwords over 72 bytes.\<close>

definition demo_bcrypt :: bcrypt where
  "demo_bcrypt = \<lparr>
     GenerateFromPassword = (\<lambda>salt pw. if 72 < length pw
       then Inl (LibError ''bcrypt: password length exceeds 72 bytes'') else Inr (CHR ''#'' # pw)),
     CompareHashAndPassword = (\<lambda>hash pw. if hash = CHR ''#'' # pw then None
       else Some (LibError ''crypto/bcrypt: hashedPassword is not the hash of the given password''))\<rparr>"

lemma demo_bcrypt_ok [simp]: "bcrypt_ok demo_bcrypt"
  by (simp add: bcrypt_ok_def demo_bcrypt_def)

definition demo_user :: user where
  "demo_user = \<lparr>uID = 0, uEmail = '' c@x.io'', uName = ''Cid '', uPassword = ''open-sesame'',
     uCreatedAt = zero_time, uUpdatedAt = zero_time\<rparr>"

abbreviation pg_register where
  "pg_register B D salt \<equiv> UserService_Register B (PgUserRepo D) salt background"

abbreviation pg_login where
  "pg_login B D \<equiv> UserService_Authenticate B (PgUserRepo D) background"

text \<open>C8: Registration.  On success one new row exists, with a new positive key, the trimmed email
  and name, and a hash the password matches; no other user has the email.  A validation error changes
  nothing at all, a conflict leaves the users as they were and means the email is taken, and any other
  error is a fault, after which at most that one row was added.\<close>

theorem register_outcome:
  assumes "bcrypt_ok B" "sql_engine D ok committed tx_view" "ok d"
    and "pg_register B D salt u d = (d', r)"
  shows "case r of
      Inr u' \<Rightarrow> valid_user u' \<and> uEmail u' = TrimSpace (uEmail u) \<and> uName u' = TrimSpace (uName u)
        \<and> CompareHashAndPassword B (uPassword u') (uPassword u) = None \<and> 8 \<le> length (uPassword u)
        \<and> 0 < sint (uID u') \<and> tbUsers (committed d) (uID u') = None
        \<and> tbUsers (committed d') = (tbUsers (committed d))(uID u' \<mapsto> u')
        \<and> (\<forall>v \<in> ran (tbUsers (committed d')). uEmail v = uEmail u' \<longrightarrow> v = u')
    | Inl e \<Rightarrow>
        (as_Validation e \<noteq> None \<and> d' = d \<and> (\<not> valid_user (clean_user u) \<or> length (uPassword u) < 8))
        \<or> (as_Conflict e \<noteq> None \<and> tbUsers (committed d') = tbUsers (committed d)
            \<and> (\<exists>v \<in> ran (tbUsers (committed d)). uEmail v = TrimSpace (uEmail u)))
        \<or> (untyped e \<and> (tbUsers (committed d') = tbUsers (committed d)
            \<or> (\<exists>u'. tbUsers (committed d) (uID u') = None
                  \<and> tbUsers (committed d') = (tbUsers (committed d))(uID u' \<mapsto> u'))))"
proof -
  note cases = user_store.Register_cases [OF sql_engine.pg_user_store [OF assms(2)] assms(1,3,4)]
  show ?thesis
  proof (cases r)
    case (Inl e)
    then show ?thesis using cases by simp
  next
    case (Inr u')
    have "schema_ok (committed d')" using cases sql_engine.committed_schema [OF assms(2)] by simp
    then have "v = u'" if "v \<in> ran (tbUsers (committed d'))" "uEmail v = uEmail u'" for v
      using that Inr cases by (auto simp: ran_def dest: schema_email_unique schema_uID split: if_splits)
    then show ?thesis using Inr cases by simp
  qed
qed

definition demo_registered :: user where
  "demo_registered = \<lparr>uID = 3, uEmail = ''c@x.io'', uName = ''Cid'', uPassword = ''#open-sesame'',
     uCreatedAt = 1, uUpdatedAt = 1\<rparr>"

lemma register_demo_run:
  "snd (pg_register demo_bcrypt demo_driver [] demo_user pg_demo) = Inr demo_registered"
proof -
  have trim: "TrimSpace '' c@x.io'' = ''c@x.io''" "TrimSpace ''Cid '' = ''Cid''" by (simp_all add: trim_eval)
  then have "TrimSpace ''c@x.io'' = ''c@x.io''" "TrimSpace ''Cid'' = ''Cid''" by (metis TrimSpace_idem)+
  with trim show ?thesis
    by (simp add: UserService_Register_def validateRegistration_def validateUser_def UserService_Create_def
      demo_user_def demo_bcrypt_def demo_registered_def Contains_char_def pg_eval)
qed

lemma register_outcome_witness:
  "valid_user demo_registered
   \<and> tbUsers (pgTables (fst (pg_register demo_bcrypt demo_driver [] demo_user pg_demo))) 3 = Some demo_registered"
  using register_outcome [OF demo_bcrypt_ok pg_engine.sql_engine_axioms pg_demo_inv,
      of no_fault int "[]" demo_user, OF surjective_pairing]
  unfolding register_demo_run sum.case by (simp del: fun_upd_apply) (simp add: demo_registered_def)

text \<open>C13: Whoever registered can log in with the same password, whatever white space surrounds the
  email they type: the login returns the registered user, unless the lookup itself fails.\<close>

theorem register_then_login:
  assumes "bcrypt_ok B" "sql_engine D ok committed tx_view" "ok d"
    and "pg_register B D salt u d = (d', Inr u')"
    and "pg_login B D email (uPassword u) d' = (d'', r)" "TrimSpace email = TrimSpace (uEmail u)"
  shows "r = Inr u' \<or> (r = Inl (UnauthorizedError invalidCredentialsMessage)
      \<and> (\<exists>d3 e. PgUserRepo_GetByEmail D background (TrimSpace email) d' = (d3, Inl e) \<and> is_fault e))"
proof -
  note store = sql_engine.pg_user_store [OF assms(2)]
  from user_store.Register_cases [OF store assms(1,3,4)]
  have ok': "ok d'" and u': "valid_user u'" "uEmail u' = TrimSpace (uEmail u)"
      "CompareHashAndPassword B (uPassword u') (uPassword u) = None" "8 \<le> length (uPassword u)"
    and row: "tbUsers (committed d') (uID u') = Some u'" by auto
  have mail: "TrimSpace email = uEmail u'" "uEmail u' \<noteq> []" "uPassword u \<noteq> []"
    using u' assms(6) by (auto simp: valid_user_def Contains_char_def)
  obtain d3 q where q: "PgUserRepo_GetByEmail D background (uEmail u') d' = (d3, q)" by fastforce
  note look = sql_engine.pg_getByEmail [OF assms(2) ok' q]
  show ?thesis
  proof (cases q)
    case (Inl e)
    have "u' \<in> ran (tbUsers (committed d'))" using row by (rule ranI)
    with look Inl have "is_fault e" by auto
    then show ?thesis using Inl q mail assms(5) by (auto simp: UserService_Authenticate_def)
  next
    case (Inr v)
    with look have v: "tbUsers (committed d') (uID v) = Some v" "uEmail v = uEmail u'" by auto
    have "uID v = uID u'"
      by (rule schema_email_unique [OF sql_engine.committed_schema [OF assms(2) ok'] v(1) row v(2)])
    with v(1) row have "v = u'" by (metis option.inject)
    then show ?thesis using Inr q mail u'(3) assms(5) by (auto simp: UserService_Authenticate_def)
  qed
qed

lemma register_then_login_witness:
  "snd (pg_login demo_bcrypt demo_driver ''c@x.io '' ''open-sesame''
     (fst (pg_register demo_bcrypt demo_driver [] demo_user pg_demo))) = Inr demo_registered
   \<or> (\<exists>d3 e. PgUserRepo_GetByEmail demo_driver background (TrimSpace ''c@x.io '')
        (fst (pg_register demo_bcrypt demo_driver [] demo_user pg_demo)) = (d3, Inl e) \<and> is_fault e)"
proof -
  have "pg_register demo_bcrypt demo_driver [] demo_user pg_demo
      = (fst (pg_register demo_bcrypt demo_driver [] demo_user pg_demo), Inr demo_registered)"
    using register_demo_run by (metis prod.collapse)
  from register_then_login [OF demo_bcrypt_ok pg_engine.sql_engine_axioms pg_demo_inv this,
      of "''c@x.io ''", OF surjective_pairing]
  show ?thesis by (simp add: demo_user_def trim_eval) blast
qed

text \<open>A login changes nothing, returns only a stored user that has the given email and whose hash
  the password matches, and refuses with one and the same error in every other case.\<close>

theorem login_sound:
  assumes "sql_engine D ok committed tx_view" "ok d"
    and "pg_login B D email pw d = (d', r)"
  shows "ok d' \<and> tbUsers (committed d') = tbUsers (committed d)
    \<and> (case r of
         Inl e \<Rightarrow> e = UnauthorizedError invalidCredentialsMessage
       | Inr u \<Rightarrow> tbUsers (committed d) (uID u) = Some u \<and> uEmail u = TrimSpace email
           \<and> CompareHashAndPassword B (uPassword u) pw = None \<and> pw \<noteq> [])"
  using user_store.Authenticate_cases [OF sql_engine.pg_user_store [OF assms(1)] assms(2,3)] by simp

lemma login_sound_witness:
  "case snd (pg_login demo_bcrypt demo_driver ''a@x.io'' ''guess'' pg_demo) of
      Inl e \<Rightarrow> e = UnauthorizedError invalidCredentialsMessage
    | Inr u \<Rightarrow> uEmail u = TrimSpace ''a@x.io''"
  using login_sound [OF pg_engine.sql_engine_axioms pg_demo_inv,
      of demo_bcrypt no_fault int "''a@x.io''" "''guess''", OF surjective_pairing]
  by (simp split: sum.splits)

section \<open>Tasks\<close>

abbreviation pg_tasks_run where
  "pg_tasks_run D \<equiv> task_calls_run (PgTaskRepo D) (PgUserRepo D) background"

text \<open>C16: No sequence of task operations, with whatever faults between them, brings a task into the
  store that has no title, no owner or an unknown status, or whose title or description is not
  trimmed.\<close>

theorem tasks_stay_valid:
  assumes "sql_engine D ok committed tx_view" "ok d"
    and "valid_rows (tbTasks (committed d))"
  shows "ok (pg_tasks_run D calls d) \<and> valid_rows (tbTasks (committed (pg_tasks_run D calls d)))"
  using task_store.task_calls_valid [OF sql_engine.pg_task_store [OF assms(1)] assms(2,3)] by simp

definition demo_task :: task where
  "demo_task = \<lparr>tID = 0, tUserID = 1, tTitle = '' read '', tDescription = [], tStatus = [],
     tCreatedAt = zero_time, tUpdatedAt = zero_time\<rparr>"

lemma pg_demo_tasks_valid: "valid_rows (tbTasks (pgTables pg_demo))"
proof -
  have "TrimSpace ''write'' = ''write''" by (simp add: trim_eval)
  then show ?thesis by (simp add: valid_rows_def pg_demo_def no_tables_def valid_task_def isValidStatus_def)
qed

lemma tasks_stay_valid_witness:
  "valid_rows (tbTasks (pgTables (pg_tasks_run demo_driver
     [CallCreate demo_task, CallUpdate (demo_task\<lparr>tID := 1, tStatus := ''bogus''\<rparr>), CallDelete 1] pg_demo)))"
  using tasks_stay_valid [OF pg_engine.sql_engine_axioms pg_demo_inv pg_demo_tasks_valid] by blast

text \<open>A task that was created is there: it is read back as it was returned, or the read fails,
  which the service reports as not found.\<close>

theorem create_then_get_task:
  assumes "sql_engine D ok committed tx_view" "ok d"
    and "TaskService_Create (PgTaskRepo D) (PgUserRepo D) background t d = (d', Inr t')"
    and "TaskService_GetByID (PgTaskRepo D) background (tID t') d' = (d'', r)"
  shows "same_task_input (clean_task t) t' \<and> valid_task t' \<and> 0 < sint (tID t')
    \<and> tbTasks (committed d) (tID t') = None
    \<and> (r = Inr t' \<or> (r = Inl (NotFoundError ''task'' (''id='' @ FormatInt (tID t')))
        \<and> (\<exists>d3 e. PgTaskRepo_GetByID D background (tID t') d' = (d3, Inl e) \<and> is_fault e)))"
proof -
  note store = sql_engine.pg_task_store [OF assms(1)]
  note made = task_store.TaskCreate_cases [OF store assms(2,3), unfolded sum.case]
  then have row: "tbTasks (committed d') (tID t') = Some t'" and ok': "ok d'" by auto
  obtain d3 q where q: "PgTaskRepo_GetByID D background (tID t') d' = (d3, q)" by fastforce
  note look = sql_engine.pg_getTask [OF assms(1) ok' q]
  show ?thesis
    using made look q assms(4) row
    by (cases q) (auto simp: TaskService_GetByID_def untyped_as_None)
qed

lemma create_then_get_task_witness:
  "\<exists>t'. snd (TaskService_Create (PgTaskRepo demo_driver) (PgUserRepo demo_driver) background demo_task pg_demo) = Inr t'
     \<and> valid_task t' \<and> same_task_input (clean_task demo_task) t'"
proof -
  let ?run = "TaskService_Create (PgTaskRepo demo_driver) (PgUserRepo demo_driver) background demo_task pg_demo"
  have trim: "TrimSpace '' read '' = ''read''" by (simp add: trim_eval)
  then have "TrimSpace ''read'' = ''read''" by (metis TrimSpace_idem)
  with trim have run: "snd ?run = Inr \<lparr>tID = 2, tUserID = 1, tTitle = ''read'', tDescription = [], tStatus = TaskStatusTodo,
      tCreatedAt = 1, tUpdatedAt = 1\<rparr>" (is "_ = Inr ?t")
    by (simp add: TaskService_Create_def validateTask_def isValidStatus_def demo_task_def pg_eval)
  then have "?run = (fst ?run, Inr ?t)" by (metis prod.collapse)
  from create_then_get_task [OF pg_engine.sql_engine_axioms pg_demo_inv this surjective_pairing] run
  show ?thesis by blast
qed

text \<open>The list of a user's tasks is exactly the stored tasks that the user owns, each once, newest
  first; a user that is not there is reported as such, and nothing changes.\<close>

theorem list_tasks_exact:
  assumes "sql_engine D ok committed tx_view" "ok d"
    and "TaskService_ListByUser (PgTaskRepo D) (PgUserRepo D) background uid d = (d', r)"
  shows "tbTasks (committed d') = tbTasks (committed d) \<and> tbUsers (committed d') = tbUsers (committed d)
    \<and> (case r of
         Inl e \<Rightarrow> e = NotFoundError ''user'' (''id='' @ FormatInt uid) \<or> untyped e
       | Inr ts \<Rightarrow> tbUsers (committed d) uid \<noteq> None \<and> distinct ts \<and> newest_first tCreatedAt ts
           \<and> set ts = {t \<in> ran (tbTasks (committed d)). tUserID t = uid})"
proof -
  obtain d1 q where q: "PgUserRepo_GetByID D background uid d = (d1, q)" by fastforce
  note user = sql_engine.pg_getByID [OF assms(1,2) q]
  obtain d2 p where p: "PgTaskRepo_ListByUser D background uid d1 = (d2, p)" by fastforce
  from user have "ok d1" by simp
  from user sql_engine.pg_listTasks [OF assms(1) this p] q p assms(3) show ?thesis
    by (cases q; cases p) (auto simp: TaskService_ListByUser_def)
qed

lemma list_tasks_exact_witness:
  "case snd (TaskService_ListByUser (PgTaskRepo demo_driver) (PgUserRepo demo_driver) background 1 pg_demo) of
     Inl e \<Rightarrow> e = NotFoundError ''user'' (''id='' @ FormatInt 1) \<or> untyped e
   | Inr ts \<Rightarrow> set ts = {t \<in> ran (tbTasks (pgTables pg_demo)). tUserID t = 1}"
  using list_tasks_exact [OF pg_engine.sql_engine_axioms pg_demo_inv, of no_fault int 1, OF surjective_pairing]
  by (simp split: sum.splits)

end
