(* ===== verification/Demo_App.thy ===== *)
theory Demo_App
  imports Pg_Services Handlers
begin

text \<open>
  An application to run on: the PostgreSQL repositories over \<open>pg_driver\<close>, sessions in a Redis, an
  audit trail in a list.  Ann, user 1, has an open session under the id \<^verbatim>\<open>abc\<close>.
\<close>

definition demo_app :: "(pg, rd, audit_record list, int) app" where
  "demo_app = \<lparr>appUsers = PgUserRepo demo_driver, appTasks = PgTaskRepo demo_driver,
     appAccounts = PgAccountRepo demo_driver, appTransfers = PgTransferRepo demo_driver, appDriver = demo_driver,
     appAuth = redis_manager ''k'' (3600 * nanos_per_second) no_fault, appRateLimit = 2,
     appAudit = Some (\<lambda>rec a. (a @ [rec], Inr ())), appBcrypt = demo_bcrypt, appCount = countStatuses_generic,
     appFloat = \<lparr>float64 = sint, fdiv = (div), fmul = (*)\<rparr>, appFinite = (\<lambda>_. True), appClock = int,
     appRandom = (\<lambda>n. Inr (replicate 24 (char_of n))), appSalt = (\<lambda>_. []), appIsPrint = (\<lambda>n. 32 \<le> n),
     appParseTime = (\<lambda>_. None), appJsonText = (\<lambda>_. ''invalid body''), appRedirect = 301\<rparr>"

definition demo_world :: "(pg, rd, audit_record list, int) world" where
  "demo_world = \<lparr>wDb = pg_demo, wRedis = rd_put (sessionRedisKey ''abc'') (Some (FormatInt 1, None)) rd_empty,
     wAudit = [], wConn = fresh_conn, wWriters = [], wLog = [], wTick = 0, wDraw = 0\<rparr>"

definition demo_http :: "string \<Rightarrow> string \<Rightarrow> string option \<Rightarrow> (json_error + jval) \<Rightarrow> request" where
  "demo_http m path ck body = \<lparr>rqMethod = m, rqPath = path, rqEscapedPath = path, rqRemoteAddr = ''10.0.0.1:80'',
     rqContentType = [], rqCookie = ck, rqBody = body, rqForm = Inr (\<lambda>_. []), rqUser = None, rqPathValue = (\<lambda>_. [])\<rparr>"

lemma demo_sel [simp]:
  "appAuth demo_app = redis_manager ''k'' (3600 * nanos_per_second) no_fault" "appClock demo_app = int"
  "appUsers demo_app = PgUserRepo demo_driver" "appTasks demo_app = PgTaskRepo demo_driver"
  "appBcrypt demo_app = demo_bcrypt"
  "wDb demo_world = pg_demo" "wConn demo_world = fresh_conn" "wWriters demo_world = []" "wTick demo_world = 0"
  "wDraw demo_world = 0" "wRedis demo_world = rd_put (sessionRedisKey ''abc'') (Some (FormatInt 1, None)) rd_empty"
  "rqCookie (demo_http m path ck body) = ck" "rqBody (demo_http m path ck body) = body"
  "rqMethod (demo_http m path ck body) = m" "rqPath (demo_http m path ck body) = path"
  "rqEscapedPath (demo_http m path ck body) = path" "rqRemoteAddr (demo_http m path ck body) = ''10.0.0.1:80''"
  by (simp_all add: demo_app_def demo_world_def demo_http_def)

end
