(* ===== verification/Sharing.thy ===== *)
theory Sharing
  imports Pg_Repos User_Service Task_Service Banking_Service
begin

text \<open>
  A request whose statements others' statements run between.  The locale \<open>shared_engine\<close> says what every
  statement through the pool does when others may act before and after it; the repositories and
  services are run over it as they are, and each is shown to do at most one write, at one moment.
  A server that a request has to itself is the special case where the others do nothing.
\<close>

section \<open>Moments\<close>

text \<open>The committed tables at an instant, to whom each task id has been given, and the log of our own writes: for every
  one that the server has carried out, the tables before and after it.\<close>

record moment =
  mTables :: tables
  mOwner :: "int64 \<rightharpoonup> int64"
  mLog :: "(tables \<times> tables) list"

definition task_owners :: "tables \<Rightarrow> (int64 \<rightharpoonup> int64)" where
  "task_owners T = (\<lambda>i. map_option tUserID (tbTasks T i))"

definition moment_ok :: "moment \<Rightarrow> bool" where
  "moment_ok a \<longleftrightarrow> schema_ok (mTables a) \<and> task_owners (mTables a) \<subseteq>\<^sub>m mOwner a"

text \<open>\<open>P\<close> relates two moments that our own step leads from one to the other, while others act before and after it.\<close>

definition during :: "('m \<Rightarrow> 'm \<Rightarrow> bool) \<Rightarrow> ('m \<Rightarrow> 'm \<Rightarrow> bool) \<Rightarrow> 'm \<Rightarrow> 'm \<Rightarrow> ('m \<Rightarrow> 'm \<Rightarrow> bool) \<Rightarrow> bool" where
  "during rely own m m' P \<longleftrightarrow> (\<exists>a b. rely m a \<and> (b = a \<or> own a b) \<and> rely b m' \<and> P a b)"

lemma during_mono: "during rely own m m' P \<Longrightarrow> (\<And>a b. P a b \<Longrightarrow> Q a b) \<Longrightarrow> during rely own m m' Q"
  unfolding during_def by blast

lemma during_alone: "during (=) own m m' P \<longleftrightarrow> (m' = m \<or> own m m') \<and> P m m'"
  unfolding during_def by blast

section \<open>One statement, and what was said of it\<close>

text \<open>A write that succeeded was done; one that failed was not done, or it failed with an untyped error and may have
  been done.\<close>

definition write_outcome :: "sql_stmt \<Rightarrow> go_error + 'a \<Rightarrow> tables \<Rightarrow> tables \<Rightarrow> bool" where
  "write_outcome st r T T' \<longleftrightarrow>
     (case r of
        Inr _ \<Rightarrow> \<exists>rows. sql_effect st T T' rows
      | Inl e \<Rightarrow> T' = T \<or> (untyped e \<and> (\<exists>rows. sql_effect st T T' rows)))"

lemma write_outcome_simps [simp]:
  "write_outcome st (Inr x) T T' \<longleftrightarrow> (\<exists>rows. sql_effect st T T' rows)"
  "write_outcome st (Inl e) T T' \<longleftrightarrow> T' = T \<or> (untyped e \<and> (\<exists>rows. sql_effect st T T' rows))"
  by (simp_all add: write_outcome_def)

text \<open>The same between two moments: what was done was a step of our own.\<close>

definition carried_out :: "(moment \<Rightarrow> moment \<Rightarrow> bool) \<Rightarrow> sql_stmt \<Rightarrow> go_error + 'a \<Rightarrow> moment \<Rightarrow> moment \<Rightarrow> bool" where
  "carried_out own st r a b \<longleftrightarrow>
     (case r of
        Inr _ \<Rightarrow> own a b \<and> (\<exists>rows. sql_effect st (mTables a) (mTables b) rows)
      | Inl e \<Rightarrow> b = a \<or> (untyped e \<and> own a b \<and> (\<exists>rows. sql_effect st (mTables a) (mTables b) rows)))"

lemma carried_out_simps [simp]:
  "carried_out own st (Inr x) a b \<longleftrightarrow> own a b \<and> (\<exists>rows. sql_effect st (mTables a) (mTables b) rows)"
  "carried_out own st (Inl e) a b \<longleftrightarrow> b = a \<or> (untyped e \<and> own a b \<and> (\<exists>rows. sql_effect st (mTables a) (mTables b) rows))"
  by (simp_all add: carried_out_def)

fun is_read :: "sql_stmt \<Rightarrow> bool" where
  "is_read (SelectUserByID i) = True"
| "is_read (SelectUserByEmail e) = True"
| "is_read (SelectTaskByID i) = True"
| "is_read (SelectTasksByUser i) = True"
| "is_read (SelectAccountByID i) = True"
| "is_read (SelectAccountsByUser i) = True"
| "is_read (SelectTransfersByAccount i) = True"
| "is_read st = False"

lemma is_read_effect: "is_read st \<Longrightarrow> sql_effect st T T' rows \<Longrightarrow> T' = T"
  by (cases st) simp_all

section \<open>What the program relies on\<close>

locale shared_engine =
  fixes D :: "'d sql_driver"
    and inv :: "'d \<Rightarrow> bool"
    and at :: "'d \<Rightarrow> moment"
    and rely own :: "moment \<Rightarrow> moment \<Rightarrow> bool"
  assumes rely_refl: "inv d \<Longrightarrow> rely (at d) (at d)"
    and rely_trans: "rely a b \<Longrightarrow> rely b c \<Longrightarrow> rely a c"
    and rely_ok: "inv d \<Longrightarrow> rely (at d) a \<Longrightarrow> moment_ok a"
    and rely_owner: "rely a b \<Longrightarrow> mOwner a \<subseteq>\<^sub>m mOwner b"
    and exec_lib_error: "inv d \<Longrightarrow> dbExec D PoolConn st d = (d', Inl e) \<Longrightarrow> \<exists>m. e = LibError m"
    and shared_exec: "inv d \<Longrightarrow> dbExec D PoolConn st d = (d', r) \<Longrightarrow> inv d' \<and> during rely own (at d) (at d')
          (\<lambda>a b. (\<forall>rows. r = Inr rows \<longrightarrow> sql_effect st (mTables a) (mTables b) rows)
             \<and> (if is_read st then b = a else carried_out own st r a b))"
    and shared_query: "inv d \<Longrightarrow> dbQuery D PoolConn st d = (d', q) \<Longrightarrow> inv d' \<and> during rely own (at d) (at d')
          (\<lambda>a b. if is_read st then b = a else carried_out own st q a b)"
begin

text \<open>Nothing of ours happened; one write of ours happened.\<close>

definition calm :: "'d \<Rightarrow> 'd \<Rightarrow> bool" where
  "calm d d' \<longleftrightarrow> inv d' \<and> rely (at d) (at d')"

definition wrote :: "sql_stmt \<Rightarrow> go_error + 'a \<Rightarrow> 'd \<Rightarrow> 'd \<Rightarrow> bool" where
  "wrote st r d d' \<longleftrightarrow> inv d' \<and> during rely own (at d) (at d') (carried_out own st r)"

lemma calm_refl: "inv d \<Longrightarrow> calm d d"
  by (simp add: calm_def rely_refl)

lemma calm_trans: "calm d1 d2 \<Longrightarrow> calm d2 d3 \<Longrightarrow> calm d1 d3"
  unfolding calm_def using rely_trans by blast

lemma calm_inv: "calm d d' \<Longrightarrow> inv d'"
  by (simp add: calm_def)

lemma calm_owner: "calm d d' \<Longrightarrow> mOwner (at d) i = Some uid \<Longrightarrow> mOwner (at d') i = Some uid"
  unfolding calm_def using rely_owner [of "at d" "at d'"] by (auto simp: map_le_def dom_def)

lemma during_before: "calm d d1 \<Longrightarrow> during rely own (at d1) m' P \<Longrightarrow> during rely own (at d) m' P"
  unfolding calm_def during_def using rely_trans by blast

lemma calm_during:
  assumes "calm d d'" "\<And>a. P a a"
  shows "during rely own (at d) (at d') P"
  using assms rely_refl [of d'] unfolding calm_def during_def by blast

lemma calm_wrote:
  assumes "calm d d1" "wrote st r d1 d'"
  shows "wrote st r d d'"
  using during_before [OF assms(1)] assms(2) by (simp add: wrote_def)

lemma refused_wrote: "calm d d' \<Longrightarrow> wrote st (Inl e) d d'"
  by (simp add: wrote_def calm_inv calm_during)

text \<open>A read sees a moment, and leaves only what the others do.\<close>

lemma exec_read:
  assumes "inv d" "dbExec D PoolConn st d = (d', r)" "is_read st"
  shows "\<exists>a. calm d d' \<and> rely (at d) a \<and> rely a (at d') \<and> (\<forall>rows. r = Inr rows \<longrightarrow> sql_effect st (mTables a) (mTables a) rows)"
proof -
  obtain a :: moment where "inv d'" "rely (at d) a" "rely a (at d')"
    "\<forall>rows. r = Inr rows \<longrightarrow> sql_effect st (mTables a) (mTables a) rows"
    using shared_exec [OF assms(1,2)] assms(3) unfolding during_def by auto
  then show ?thesis using rely_trans by (auto simp: calm_def)
qed

lemma row_read:
  assumes "inv d" "query_row D background st d = (d', r)" "is_read st"
  shows "\<exists>a. calm d d' \<and> rely (at d) a \<and> rely a (at d')
    \<and> (\<forall>row. r = Inr row \<longrightarrow> (\<exists>rest. sql_effect st (mTables a) (mTables a) (row # rest)))"
proof -
  obtain d1 q where q: "dbExec D PoolConn st d = (d1, q)" by fastforce
  have d': "d' = d1" and r: "r = Inr row \<Longrightarrow> \<exists>rest. q = Inr (row # rest)" for row
    using assms(2) q by (auto simp: query_row_def split: sum.splits list.splits)
  obtain a where a: "calm d d1" "rely (at d) a" "rely a (at d1)"
    "\<forall>rows. q = Inr rows \<longrightarrow> sql_effect st (mTables a) (mTables a) rows" using exec_read [OF assms(1) q assms(3)] by (elim exE conjE)
  have "\<exists>rest. sql_effect st (mTables a) (mTables a) (row # rest)" if "r = Inr row" for row
    using r [OF that] a(4) by (elim exE) (intro exI, simp)
  then show ?thesis using d' a(1-3) by (intro exI [of _ a]) simp
qed

lemma query_read:
  assumes "inv d" "dbQuery D PoolConn st d = (d', q)" "is_read st"
  shows "calm d d'"
  using shared_query [OF assms(1,2)] assms(3) rely_trans unfolding during_def calm_def by auto

text \<open>A write through the pool.\<close>

lemma exec_wrote:
  assumes "inv d" "dbExec D PoolConn st d = (d', r)" "\<not> is_read st"
  shows "wrote st r d d'"
proof -
  have "inv d'" and P: "during rely own (at d) (at d') (\<lambda>a b. (\<forall>rows. r = Inr rows \<longrightarrow> sql_effect st (mTables a) (mTables b) rows)
      \<and> (if is_read st then b = a else carried_out own st r a b))" using shared_exec [OF assms(1,2)] by simp_all
  then show ?thesis unfolding wrote_def using assms(3) by (intro conjI during_mono [OF P]) simp_all
qed

lemma wrote_same:
  assumes "wrote st q d d'" "\<And>a b. carried_out own st q a b \<Longrightarrow> carried_out own st r a b"
  shows "wrote st r d d'"
  using assms(1) unfolding wrote_def by (blast intro: during_mono assms(2))

lemma row_wrote:
  assumes "inv d" "query_row D background st d = (d', r)" "\<not> is_read st"
  shows "wrote st r d d'"
proof -
  obtain d1 q where q: "dbExec D PoolConn st d = (d1, q)" by fastforce
  have d': "d' = d1" and out: "\<And>a b. carried_out own st q a b \<Longrightarrow> carried_out own st r a b"
    using assms(2) q by (auto simp: query_row_def simp del: sql_effect.simps split: sum.splits list.splits)
  show ?thesis unfolding d' by (rule wrote_same [OF exec_wrote [OF assms(1) q assms(3)] out])
qed

section \<open>The repositories\<close>

text \<open>A repository passes the outcome on, or reports a row that it cannot scan.\<close>

lemma wrote_createUser:
  assumes "inv d" "PgUserRepo_Create D background u d = (d', r)"
  shows "wrote (InsertUser (uEmail u) (uName u) (uPassword u)) r d d'"
proof -
  obtain d1 q where q: "query_row D background (InsertUser (uEmail u) (uName u) (uPassword u)) d = (d1, q)" by fastforce
  have d: "d' = d1" and out: "\<And>st a b. carried_out own st q a b \<Longrightarrow> carried_out own st r a b" using q assms(2)
    by (auto simp: PgUserRepo_Create_def scan_error_def simp del: sql_effect.simps split: sum.splits sql_row.splits)
  show ?thesis unfolding d by (rule wrote_same [OF row_wrote [OF assms(1) q] out]) simp
qed

lemma wrote_createTask:
  assumes "inv d" "PgTaskRepo_Create D background t d = (d', r)"
  shows "wrote (InsertTask (tUserID t) (tTitle t) (tDescription t) (tStatus t)) r d d'"
proof -
  obtain d1 q where q:
    "query_row D background (InsertTask (tUserID t) (tTitle t) (tDescription t) (tStatus t)) d = (d1, q)" by fastforce
  have d: "d' = d1" and out: "\<And>st a b. carried_out own st q a b \<Longrightarrow> carried_out own st r a b" using q assms(2)
    by (auto simp: PgTaskRepo_Create_def scan_error_def simp del: sql_effect.simps split: sum.splits sql_row.splits)
  show ?thesis unfolding d by (rule wrote_same [OF row_wrote [OF assms(1) q] out]) simp
qed

lemma wrote_updateTask:
  assumes "inv d" "PgTaskRepo_Update D background t d = (d', r)"
  shows "wrote (UpdateTaskRow (tTitle t) (tDescription t) (tStatus t) (tID t)) r d d'"
proof -
  obtain d1 q where q:
    "dbExec D PoolConn (UpdateTaskRow (tTitle t) (tDescription t) (tStatus t) (tID t)) d = (d1, q)" by fastforce
  have d: "d' = d1" and out: "\<And>st a b. carried_out own st q a b \<Longrightarrow> carried_out own st r a b" using q assms(2)
    by (auto simp: PgTaskRepo_Update_def simp del: sql_effect.simps split: sum.splits)
  show ?thesis unfolding d by (rule wrote_same [OF exec_wrote [OF assms(1) q] out]) simp
qed

lemma wrote_deleteTask:
  assumes "inv d" "PgTaskRepo_Delete D background i d = (d', r)"
  shows "wrote (DeleteTaskRow i) r d d'"
proof -
  obtain d1 q where q: "dbExec D PoolConn (DeleteTaskRow i) d = (d1, q)" by fastforce
  have d: "d' = d1" and out: "\<And>st a b. carried_out own st q a b \<Longrightarrow> carried_out own st r a b" using q assms(2)
    by (auto simp: PgTaskRepo_Delete_def simp del: sql_effect.simps split: sum.splits)
  show ?thesis unfolding d by (rule wrote_same [OF exec_wrote [OF assms(1) q] out]) simp
qed

lemma wrote_createAccount:
  assumes "inv d" "BankingService_CreateAccount (PgAccountRepo D) background uid cur d = (d', r)"
  shows "wrote (InsertAccount uid cur 0) r d d'"
proof -
  obtain d1 q where q: "query_row D background (InsertAccount uid cur 0) d = (d1, q)" by fastforce
  have d: "d' = d1" and out: "\<And>st a b. carried_out own st q a b \<Longrightarrow> carried_out own st r a b" using q assms(2)
    by (auto simp: BankingService_CreateAccount_def PgAccountRepo_Create_def scan_error_def simp del: sql_effect.simps
        split: sum.splits sql_row.splits)
  show ?thesis unfolding d by (rule wrote_same [OF row_wrote [OF assms(1) q] out]) simp
qed

lemma calm_accounts:
  assumes "inv d" "BankingService_GetUserAccounts (PgAccountRepo D) background uid d = (d', r)"
  shows "calm d d'"
proof -
  obtain d1 q where q: "dbQuery D PoolConn (SelectAccountsByUser uid) d = (d1, q)" by fastforce
  have "d' = d1" using q assms(2)
    by (auto simp: BankingService_GetUserAccounts_def PgAccountRepo_GetByUserID_def split: sum.splits)
  moreover have "calm d d1" by (rule query_read [OF assms(1) q]) simp
  ultimately show ?thesis by simp
qed

lemma calm_getByID:
  assumes "inv d" "PgUserRepo_GetByID D background i d = (d', r)"
  shows "calm d d' \<and> (\<forall>u. r = Inr u \<longrightarrow> uID u = i)"
proof -
  obtain d1 q where q: "query_row D background (SelectUserByID i) d = (d1, q)" by fastforce
  have "\<exists>a. calm d d1 \<and> rely (at d) a \<and> rely a (at d1)
    \<and> (\<forall>row. q = Inr row \<longrightarrow> (\<exists>rest. sql_effect (SelectUserByID i) (mTables a) (mTables a) (row # rest)))"
    by (rule row_read [OF assms(1) q]) simp
  then obtain a where a: "calm d d1" "rely (at d) a"
    "\<forall>row. q = Inr row \<longrightarrow> (\<exists>rest. sql_effect (SelectUserByID i) (mTables a) (mTables a) (row # rest))" by (elim exE conjE)
  have "uID u = i" if "q = Inr (UserRow u)" for u
    using a(3) that rely_ok [OF assms(1) a(2)] by (auto simp: moment_ok_def dest: schema_uID split: option.splits)
  then show ?thesis using a(1) q assms(2)
    by (auto simp: PgUserRepo_GetByID_def scan_user_def split: sum.splits sql_row.splits)
qed

lemma calm_getByEmail:
  assumes "inv d" "PgUserRepo_GetByEmail D background email d = (d', r)"
  shows "calm d d'"
proof -
  obtain d1 q where q: "query_row D background (SelectUserByEmail email) d = (d1, q)" by fastforce
  have "\<exists>a. calm d d1 \<and> rely (at d) a \<and> rely a (at d1)
    \<and> (\<forall>row. q = Inr row \<longrightarrow> (\<exists>rest. sql_effect (SelectUserByEmail email) (mTables a) (mTables a) (row # rest)))"
    by (rule row_read [OF assms(1) q]) simp
  moreover have "d' = d1" using q assms(2)
    by (auto simp: PgUserRepo_GetByEmail_def scan_user_def split: sum.splits sql_row.splits)
  ultimately show ?thesis by blast
qed

text \<open>Whose task it was when it was read is whose task it is, if it is still there.\<close>

lemma calm_getTask:
  assumes "inv d" "PgTaskRepo_GetByID D background i d = (d', r)"
  shows "calm d d' \<and> (\<forall>t. r = Inr t \<longrightarrow> mOwner (at d') i = Some (tUserID t) \<and> tID t = i)"
proof -
  obtain d1 q where q: "query_row D background (SelectTaskByID i) d = (d1, q)" by fastforce
  have "\<exists>a. calm d d1 \<and> rely (at d) a \<and> rely a (at d1)
    \<and> (\<forall>row. q = Inr row \<longrightarrow> (\<exists>rest. sql_effect (SelectTaskByID i) (mTables a) (mTables a) (row # rest)))"
    by (rule row_read [OF assms(1) q]) simp
  then obtain a where a: "calm d d1" "rely (at d) a" "rely a (at d1)"
    "\<forall>row. q = Inr row \<longrightarrow> (\<exists>rest. sql_effect (SelectTaskByID i) (mTables a) (mTables a) (row # rest))" by (elim exE conjE)
  have "mOwner (at d1) i = Some (tUserID t) \<and> tID t = i" if "q = Inr (TaskRow t)" for t
  proof -
    have t: "tbTasks (mTables a) i = Some t" using a(4) that by (auto split: option.splits)
    have ok: "moment_ok a" by (rule rely_ok [OF assms(1) a(2)])
    have "task_owners (mTables a) i = Some (tUserID t)" using t by (simp add: task_owners_def)
    then have "mOwner a i = Some (tUserID t)" using ok by (force simp: moment_ok_def map_le_def)
    then have "mOwner (at d1) i = Some (tUserID t)" using rely_owner [OF a(3)] by (force simp: map_le_def)
    then show ?thesis using t ok by (auto simp: moment_ok_def dest: schema_tID)
  qed
  then show ?thesis using a(1) q assms(2)
    by (auto simp: PgTaskRepo_GetByID_def split: sum.splits sql_row.splits)
qed

lemma calm_listTasks:
  assumes "inv d" "PgTaskRepo_ListByUser D background uid d = (d', r)"
  shows "calm d d'"
proof -
  obtain d1 q where q: "dbQuery D PoolConn (SelectTasksByUser uid) d = (d1, q)" by fastforce
  have "d' = d1" using q assms(2) by (auto simp: PgTaskRepo_ListByUser_def split: sum.splits option.splits)
  moreover have "calm d d1" by (rule query_read [OF assms(1) q]) simp
  ultimately show ?thesis by simp
qed

section \<open>The services, with their guards\<close>

lemma calm_getUser:
  assumes "inv d" "UserService_GetByID (PgUserRepo D) background i d = (d', r)"
  shows "calm d d' \<and> (\<forall>u. r = Inr u \<longrightarrow> uID u = i)"
proof -
  obtain d1 q where q: "PgUserRepo_GetByID D background i d = (d1, q)" by fastforce
  then show ?thesis using calm_getByID [OF assms(1) q] assms(2)
    by (auto simp: UserService_GetByID_def split: sum.splits option.splits)
qed

lemma calm_login:
  assumes "inv d" "UserService_Authenticate B (PgUserRepo D) background email pw d = (d', r)"
  shows "calm d d'"
proof -
  obtain d1 q where q: "PgUserRepo_GetByEmail D background (TrimSpace email) d = (d1, q)" by fastforce
  show ?thesis using calm_getByEmail [OF assms(1) q] q assms calm_refl
    by (auto simp: UserService_Authenticate_def Let_def split: sum.splits option.splits if_splits)
qed

lemma service_createUser:
  assumes "inv d" "UserService_Create (PgUserRepo D) background v d = (d', r)"
  shows "wrote (InsertUser (TrimSpace (uEmail v)) (TrimSpace (uName v)) (uPassword v)) r d d'"
proof (cases v rule: validateUser_cases)
  case (bad f m)
  then show ?thesis using assms by (auto simp: UserService_Create_def intro!: refused_wrote calm_refl)
next
  case good
  obtain d1 a where a: "PgUserRepo_GetByEmail D background (TrimSpace (uEmail v)) d = (d1, a)" by fastforce
  obtain d2 b where b: "PgUserRepo_Create D background (clean_user v) d1 = (d2, b)" by fastforce
  have d1: "calm d d1" by (rule calm_getByEmail [OF assms(1) a])
  have w: "wrote (InsertUser (TrimSpace (uEmail v)) (TrimSpace (uName v)) (uPassword v)) b d d2"
    using calm_wrote [OF d1 wrote_createUser [OF calm_inv [OF d1] b]] by simp
  show ?thesis
  proof (cases a)
    case (Inr u)
    then show ?thesis using good a assms(2) d1 by (auto simp: UserService_Create_def intro!: refused_wrote)
  next
    case (Inl e)
    have d': "d' = d2" and out: "\<And>st x y. carried_out own st b x y \<Longrightarrow> carried_out own st r x y"
      using Inl good a b assms(2) by (auto simp: UserService_Create_def simp del: sql_effect.simps split: sum.splits)
    show ?thesis unfolding d' by (rule wrote_same [OF w out])
  qed
qed

lemma service_register:
  assumes "inv d" "UserService_Register B (PgUserRepo D) salt background u d = (d', r)"
  shows "\<exists>p. wrote (InsertUser (TrimSpace (uEmail u)) (TrimSpace (uName u)) p) r d d'"
proof (cases u rule: validateRegistration_cases)
  case (bad f m)
  then show ?thesis using assms by (auto simp: UserService_Register_def intro!: refused_wrote calm_refl)
next
  case good
  then have trimmed: "TrimSpace (TrimSpace (uEmail u)) = TrimSpace (uEmail u)" "TrimSpace (TrimSpace (uName u)) = TrimSpace (uName u)"
    by (simp_all add: valid_user_def)
  show ?thesis
  proof (cases "GenerateFromPassword B salt (uPassword u)")
    case (Inl err)
    then show ?thesis using good(1) assms by (auto simp: UserService_Register_def intro!: refused_wrote calm_refl)
  next
    case (Inr hash)
    then have "UserService_Create (PgUserRepo D) background ((clean_user u)\<lparr>uPassword := hash\<rparr>) d = (d', r)"
      using good(1) assms(2) by (simp add: UserService_Register_def)
    from service_createUser [OF assms(1) this] show ?thesis using trimmed by auto
  qed
qed

lemma service_getTask:
  assumes "inv d" "TaskService_GetByID (PgTaskRepo D) background i d = (d', r)"
  shows "calm d d' \<and> (\<forall>t. r = Inr t \<longrightarrow> mOwner (at d') i = Some (tUserID t) \<and> tID t = i)"
proof -
  obtain d1 q where q: "PgTaskRepo_GetByID D background i d = (d1, q)" by fastforce
  then show ?thesis using calm_getTask [OF assms(1) q] assms(2)
    by (auto simp: TaskService_GetByID_def split: sum.splits option.splits)
qed

lemma calm_listByUser:
  assumes "inv d" "TaskService_ListByUser (PgTaskRepo D) (PgUserRepo D) background uid d = (d', r)"
  shows "calm d d'"
proof -
  obtain d1 q where q: "PgUserRepo_GetByID D background uid d = (d1, q)" by fastforce
  obtain d2 p where p: "PgTaskRepo_ListByUser D background uid d1 = (d2, p)" by fastforce
  have d1: "calm d d1" using calm_getByID [OF assms(1) q] by simp
  have d2: "calm d d2" using calm_trans [OF d1 calm_listTasks [OF calm_inv [OF d1] p]] .
  have "d' = d1 \<or> d' = d2" using q p assms(2)
    by (auto simp: TaskService_ListByUser_def split: sum.splits)
  then show ?thesis using d1 d2 by auto
qed

lemma calm_stats:
  assumes "inv d"
    and "TaskService_StatsByUser fo count (PgTaskRepo D) (PgUserRepo D) background uid d = (d', r)"
  shows "calm d d'"
proof -
  obtain d1 q where q: "TaskService_ListByUser (PgTaskRepo D) (PgUserRepo D) background uid d = (d1, q)" by fastforce
  have "d' = d1" using q assms(2) by (auto simp: TaskService_StatsByUser_def split: sum.splits)
  then show ?thesis using calm_listByUser [OF assms(1) q] by simp
qed

lemma service_createTask:
  assumes "inv d" "TaskService_Create (PgTaskRepo D) (PgUserRepo D) background t d = (d', r)"
  shows "if valid_task (clean_task t)
    then wrote (InsertTask (tUserID t) (tTitle (clean_task t)) (tDescription (clean_task t)) (tStatus (clean_task t))) r d d'
    else calm d d' \<and> (\<exists>e. r = Inl e)"
proof (cases t rule: validateTask_cases)
  case (bad t' f m)
  then show ?thesis using assms by (auto simp: TaskService_Create_def intro: calm_refl)
next
  case good
  obtain d1 q where q: "PgUserRepo_GetByID D background (tUserID t) d = (d1, q)" by fastforce
  have d1: "calm d d1" using calm_getByID [OF assms(1) q] by simp
  obtain d2 p where p: "PgTaskRepo_Create D background (clean_task t) d1 = (d2, p)" by fastforce
  have w: "wrote (InsertTask (tUserID t) (tTitle (clean_task t)) (tDescription (clean_task t)) (tStatus (clean_task t))) p d d2"
    using calm_wrote [OF d1 wrote_createTask [OF calm_inv [OF d1] p]] by simp
  show ?thesis
  proof (cases q)
    case (Inl e)
    then show ?thesis using good q assms(2) refused_wrote [OF d1] by (auto simp: TaskService_Create_def)
  next
    case (Inr u)
    have d': "d' = d2" and out: "\<And>st a b. carried_out own st p a b \<Longrightarrow> carried_out own st r a b"
      using Inr good q p assms(2) by (auto simp: TaskService_Create_def simp del: sql_effect.simps split: sum.splits)
    show ?thesis unfolding d' using good wrote_same [OF w out] by simp
  qed
qed

lemma service_updateTask:
  assumes "inv d" "TaskService_Update (PgTaskRepo D) background t d = (d', r)"
  shows "if valid_task (clean_task t)
    then wrote (UpdateTaskRow (tTitle (clean_task t)) (tDescription (clean_task t)) (tStatus (clean_task t)) (tID t)) r d d'
    else calm d d' \<and> (\<exists>e. r = Inl e)"
proof (cases "tID t = 0")
  case True
  then show ?thesis using assms by (auto simp: TaskService_Update_def intro: refused_wrote calm_refl)
next
  case False
  show ?thesis
  proof (cases t rule: validateTask_cases)
    case (bad t' f m)
    then show ?thesis using False assms by (auto simp: TaskService_Update_def intro: calm_refl)
  next
    case good
    obtain d1 q where q: "TaskService_GetByID (PgTaskRepo D) background (tID t) d = (d1, q)" by fastforce
    have d1: "calm d d1" using service_getTask [OF assms(1) q] by simp
    obtain d2 p where p: "PgTaskRepo_Update D background (clean_task t) d1 = (d2, p)" by fastforce
    have w: "wrote (UpdateTaskRow (tTitle (clean_task t)) (tDescription (clean_task t)) (tStatus (clean_task t)) (tID t)) p d d2"
      using calm_wrote [OF d1 wrote_updateTask [OF calm_inv [OF d1] p]] by simp
    show ?thesis
    proof (cases q)
      case (Inl e)
      then show ?thesis using False good q assms(2) refused_wrote [OF d1] by (auto simp: TaskService_Update_def)
    next
      case (Inr u)
      have d': "d' = d2" and out: "\<And>st a b. carried_out own st p a b \<Longrightarrow> carried_out own st r a b"
        using Inr False good q p assms(2) by (auto simp: TaskService_Update_def simp del: sql_effect.simps split: sum.splits)
      show ?thesis unfolding d' using good wrote_same [OF w out] by simp
    qed
  qed
qed

lemma service_deleteTask:
  assumes "inv d" "TaskService_Delete (PgTaskRepo D) background i d = (d', r)"
  shows "wrote (DeleteTaskRow i) r d d'"
proof -
  obtain d1 q where q: "TaskService_GetByID (PgTaskRepo D) background i d = (d1, q)" by fastforce
  have d1: "calm d d1" using service_getTask [OF assms(1) q] by simp
  obtain d2 p where p: "PgTaskRepo_Delete D background i d1 = (d2, p)" by fastforce
  note w = calm_wrote [OF d1 wrote_deleteTask [OF calm_inv [OF d1] p]]
  show ?thesis
  proof (cases q)
    case (Inl e)
    then show ?thesis using q assms(2) refused_wrote [OF d1] by (auto simp: TaskService_Delete_def)
  next
    case (Inr u)
    have d': "d' = d2" and out: "\<And>st a b. carried_out own st p a b \<Longrightarrow> carried_out own st r a b"
      using Inr q p assms(2) by (auto simp: TaskService_Delete_def simp del: sql_effect.simps split: sum.splits)
    show ?thesis unfolding d' by (rule wrote_same [OF w out])
  qed
qed

end

section \<open>A server to oneself\<close>

definition alone_at :: "tables \<Rightarrow> moment" where
  "alone_at T = \<lparr>mTables = T, mOwner = task_owners T, mLog = []\<rparr>"

definition own_alone :: "moment \<Rightarrow> moment \<Rightarrow> bool" where
  "own_alone a b \<longleftrightarrow> a = alone_at (mTables a) \<and> b = alone_at (mTables b)"

lemma alone_at_sel [simp]: "mTables (alone_at T) = T" "mOwner (alone_at T) = task_owners T" "mLog (alone_at T) = []"
  by (simp_all add: alone_at_def)

lemma alone_at_inj [simp]: "alone_at T = alone_at T' \<longleftrightarrow> T = T'"
  by (auto simp: alone_at_def)

lemma during_alone_at: "during (=) own_alone (alone_at T) (alone_at T') P \<longleftrightarrow> P (alone_at T) (alone_at T')"
  by (auto simp: during_alone own_alone_def)

lemma own_alone_at [simp]: "own_alone (alone_at T) (alone_at T')"
  by (simp add: own_alone_def)

lemma carried_out_alone: "carried_out own_alone st r (alone_at T) (alone_at T') \<longleftrightarrow> write_outcome st r T T'"
  by (cases r) (simp_all del: sql_effect.simps)

sublocale sql_engine \<subseteq> alone: shared_engine D inv "\<lambda>d. alone_at (committed d)" "(=)" own_alone
proof (unfold_locales, goal_cases)
  case (3 d a)
  then show ?case using committed_schema by (auto simp: moment_ok_def)
next
  case (5 d st d' e)
  then show ?case by (rule exec_error)
next
  case (6 d st d' r)
  have "inv d' \<and> (is_read st \<longrightarrow> committed d' = committed d) \<and> (\<forall>rows. r = Inr rows \<longrightarrow> sql_effect st (committed d) (committed d') rows)
    \<and> write_outcome st r (committed d) (committed d')"
  proof (cases r)
    case (Inl e)
    then show ?thesis using exec_inv [OF 6] exec_pool_error [OF 6(1) 6(2) [unfolded Inl]] exec_error [OF 6(1) 6(2) [unfolded Inl]]
        is_read_effect by (auto simp del: sql_effect.simps)
  next
    case (Inr rows)
    then show ?thesis using exec_inv [OF 6] exec_pool_ok [OF 6(1) 6(2) [unfolded Inr]] is_read_effect
      by (auto simp del: sql_effect.simps)
  qed
  then show ?case by (simp add: during_alone_at carried_out_alone del: sql_effect.simps)
next
  case (7 d st d' q)
  have "inv d' \<and> (is_read st \<longrightarrow> committed d' = committed d) \<and> write_outcome st q (committed d) (committed d')"
  proof (cases q)
    case (Inl e)
    then show ?thesis using query_inv [OF 7] query_pool_error [OF 7(1) 7(2) [unfolded Inl]] query_error [OF 7(1) 7(2) [unfolded Inl]]
        is_read_effect by (auto simp del: sql_effect.simps)
  next
    case (Inr p)
    obtain rows err where p: "p = (rows, err)" by (cases p)
    show ?thesis using query_inv [OF 7] query_pool_ok [OF 7(1) 7(2) [unfolded Inr p]] is_read_effect unfolding Inr write_outcome_simps by blast
  qed
  then show ?case by (simp add: during_alone_at carried_out_alone del: sql_effect.simps)
qed simp_all

context sql_engine
begin

lemma alone_calm: "alone.calm d d' \<longleftrightarrow> inv d' \<and> committed d' = committed d"
  by (auto simp: alone.calm_def)

lemma alone_wrote: "alone.wrote st r d d' \<longleftrightarrow> inv d' \<and> write_outcome st r (committed d) (committed d')"
  by (simp add: alone.wrote_def during_alone_at carried_out_alone)

end

end
