(* ===== verification/Request_Effects.thy ===== *)
theory Request_Effects
  imports Responses Demo_App Sharing
begin

text \<open>
  What one HTTP request can do to the database: an abstract specification of the whole request
  handling, \<open>request_change\<close>, and the proof that the routed handlers on the PostgreSQL
  repositories implement it.  The invariants of the whole program follow from the specification.
  Each handler is shown to answer for what it did (\<open>answers\<close>): \<open>performed\<close> says of every endpoint what
  has to be true of the tables before and after when the request has been carried out, and the status that is sent is
  compared with it; that the request meets \<open>request_change\<close> is a consequence (\<open>performed_change\<close>).
  The handlers are proved over \<open>shared_engine\<close>, so that others may act between their statements; the
  properties below are about a server that serves one request at a time, \<open>Requests_Shared\<close> has the others.
\<close>

section \<open>The specification of a request\<close>

text \<open>
  \<open>who\<close> is the user whose session the request carries, \<open>req\<close> the transfer its body asks for.
  A request changes nothing, or does exactly one of these things, in that user's name.
\<close>

inductive request_change :: "int64 option \<Rightarrow> create_transfer_request option \<Rightarrow> tables \<Rightarrow> tables \<Rightarrow> bool"
  for who req where
  no_change: "request_change who req T T"
| registers: "sql_effect (InsertUser e n p) T T' rows \<Longrightarrow> request_change who req T T'"
| creates_task: "who = Some uid \<Longrightarrow> valid_task v \<Longrightarrow> tUserID v = uid
    \<Longrightarrow> sql_effect (InsertTask uid (tTitle v) (tDescription v) (tStatus v)) T T' rows \<Longrightarrow> request_change who req T T'"
| updates_task: "who = Some uid \<Longrightarrow> tbTasks T i = Some t \<Longrightarrow> tUserID t = uid \<Longrightarrow> valid_task v
    \<Longrightarrow> sql_effect (UpdateTaskRow (tTitle v) (tDescription v) (tStatus v) i) T T' rows
    \<Longrightarrow> request_change who req T T'"
| deletes_task: "who = Some uid \<Longrightarrow> tbTasks T i = Some t \<Longrightarrow> tUserID t = uid
    \<Longrightarrow> sql_effect (DeleteTaskRow i) T T' rows \<Longrightarrow> request_change who req T T'"
| opens_account: "who = Some uid \<Longrightarrow> sql_effect (InsertAccount uid cur 0) T T' rows \<Longrightarrow> request_change who req T T'"
| transfers: "who = Some uid \<Longrightarrow> req = Some q \<Longrightarrow> transfer_done uid q i T T' tr \<Longrightarrow> request_change who req T T'"

definition transfer_request :: "request \<Rightarrow> create_transfer_request option" where
  "transfer_request r =
     (case decode_struct False ''domain.CreateTransferRequest'' transfer_fields
             \<lparr>rqReceiverAccountID = 0, rqAmount = 0, rqCurrency = [], rqDescription = []\<rparr> (rqBody r) of
        Inl _ \<Rightarrow> None
      | Inr req \<Rightarrow> Some req)"

text \<open>An application on the PostgreSQL repositories, as \<^verbatim>\<open>specto server\<close> wires it.\<close>

definition on_postgres :: "'d sql_driver \<Rightarrow> ('d, 'r, 'a, 'f) app \<Rightarrow> bool" where
  "on_postgres D A \<longleftrightarrow> appUsers A = PgUserRepo D \<and> appTasks A = PgTaskRepo D
     \<and> appAccounts A = PgAccountRepo D \<and> appTransfers A = PgTransferRepo D \<and> appDriver A = D"

text \<open>The user whose session the cookie of a request stands for when it is looked up.\<close>

definition session_user :: "('d, 'r, 'a, 'f) app \<Rightarrow> ('r \<Rightarrow> timeline) \<Rightarrow> request \<Rightarrow> ('d, 'r, 'a, 'f) world \<Rightarrow> int64 option" where
  "session_user A live r w =
     (case rqCookie r of
        None \<Rightarrow> None
      | Some v \<Rightarrow> session_of (appAuth A) (live (wRedis w)) (appClock A (wTick w)) v)"

section \<open>What an answer says\<close>

text \<open>What a request to an endpoint asks for, when it is done: the one statement, with the values of the request,
  or the transfer.  Every other endpoint leaves the tables alone.\<close>

fun performed :: "('d, 'r, 'a, 'f) app \<Rightarrow> endpoint \<Rightarrow> int64 option \<Rightarrow> request \<Rightarrow> tables \<Rightarrow> tables \<Rightarrow> bool" where
  "performed A EpRegister who r T T' \<longleftrightarrow> (\<exists>req hash rows.
     decodeJSONBody A ''web.registerRequest'' register_fields \<lparr>rrEmail = [], rrName = [], rrPassword = []\<rparr> r = Inr req
     \<and> sql_effect (InsertUser (TrimSpace (rrEmail req)) (TrimSpace (rrName req)) hash) T T' rows)"
| "performed A EpTaskCreate who r T T' \<longleftrightarrow> (\<exists>uid t v rows. who = Some uid \<and> decodeTask A r = Inr t
     \<and> v = clean_task (t\<lparr>tUserID := uid\<rparr>) \<and> valid_task v
     \<and> sql_effect (InsertTask uid (tTitle v) (tDescription v) (tStatus v)) T T' rows)"
| "performed A EpTaskUpdate who r T T' \<longleftrightarrow> (\<exists>uid i old t v rows. who = Some uid \<and> pathInt64 r ''id'' = (i, None)
     \<and> tbTasks T i = Some old \<and> tUserID old = uid \<and> decodeTask A r = Inr t
     \<and> v = clean_task (t\<lparr>tID := i, tUserID := uid\<rparr>) \<and> valid_task v
     \<and> sql_effect (UpdateTaskRow (tTitle v) (tDescription v) (tStatus v) i) T T' rows)"
| "performed A EpTaskDelete who r T T' \<longleftrightarrow> (\<exists>uid i old rows. who = Some uid \<and> pathInt64 r ''id'' = (i, None)
     \<and> tbTasks T i = Some old \<and> tUserID old = uid \<and> sql_effect (DeleteTaskRow i) T T' rows)"
| "performed A EpAccountCreate who r T T' \<longleftrightarrow> (\<exists>uid cur rows. who = Some uid
     \<and> decode_struct False ''struct'' currency_fields [] (rqBody r) = Inr cur \<and> sql_effect (InsertAccount uid cur 0) T T' rows)"
| "performed A EpTransferCreate who r T T' \<longleftrightarrow> (\<exists>uid q i tr. who = Some uid \<and> transfer_request r = Some q
     \<and> pathInt64 r ''id'' = (i, None) \<and> transfer_done uid q i T T' tr)"
| "performed A ep who r T T' \<longleftrightarrow> T' = T"

text \<open>The one thing that others can spoil: the task of a \<^verbatim>\<open>PUT\<close> or \<^verbatim>\<open>DELETE\<close>, found to be the user's, has
  been deleted since.\<close>

definition vanished :: "(int64 \<rightharpoonup> int64) \<Rightarrow> endpoint \<Rightarrow> int64 option \<Rightarrow> request \<Rightarrow> tables \<Rightarrow> bool" where
  "vanished owner ep who r T \<longleftrightarrow> ep \<in> {EpTaskUpdate, EpTaskDelete}
     \<and> (\<exists>uid i. who = Some uid \<and> pathInt64 r ''id'' = (i, None) \<and> owner i = Some uid \<and> tbTasks T i = None)"

definition attempted :: "('d, 'r, 'a, 'f) app \<Rightarrow> endpoint \<Rightarrow> int64 option \<Rightarrow> request \<Rightarrow> moment \<Rightarrow> moment \<Rightarrow> bool" where
  "attempted A ep who r a b \<longleftrightarrow> performed A ep who r (mTables a) (mTables b)
     \<or> (mTables b = mTables a \<and> vanished (mOwner a) ep who r (mTables a))"

text \<open>The requests that write to the database, and what makes one of any kind done: a write of its own, or that it
  wrote nothing.\<close>

definition writing :: "endpoint \<Rightarrow> bool" where
  "writing ep \<longleftrightarrow> ep \<in> {EpRegister, EpTaskCreate, EpTaskUpdate, EpTaskDelete, EpAccountCreate, EpTransferCreate}"

definition made :: "(moment \<Rightarrow> moment \<Rightarrow> bool) \<Rightarrow> ('d, 'r, 'a, 'f) app \<Rightarrow> endpoint \<Rightarrow> int64 option \<Rightarrow> request \<Rightarrow> moment \<Rightarrow> moment \<Rightarrow> bool" where
  "made own A ep who r a b \<longleftrightarrow> (if writing ep then own a b \<and> attempted A ep who r a b else b = a)"

text \<open>A status below 400 says that it was done, one from 400 to 499 that nothing was; any other leaves it open.\<close>

definition says :: "nat \<Rightarrow> bool \<Rightarrow> bool \<Rightarrow> bool" where
  "says status was_done unchanged \<longleftrightarrow> (unchanged \<or> was_done) \<and> (status < 400 \<longrightarrow> was_done) \<and> (400 \<le> status \<and> status < 500 \<longrightarrow> unchanged)"

definition answers :: "('d \<Rightarrow> bool) \<Rightarrow> ('d \<Rightarrow> moment) \<Rightarrow> (moment \<Rightarrow> moment \<Rightarrow> bool) \<Rightarrow> (moment \<Rightarrow> moment \<Rightarrow> bool)
    \<Rightarrow> ('d, 'r, 'a, 'f) app \<Rightarrow> endpoint \<Rightarrow> int64 option \<Rightarrow> request \<Rightarrow> ('d, 'r, 'a, 'f) world \<Rightarrow> ('d, 'r, 'a, 'f) world \<Rightarrow> bool" where
  "answers ok at rely own A ep who r w w' \<longleftrightarrow> ok (wDb w')
     \<and> during rely own (at (wDb w)) (at (wDb w')) (\<lambda>a b.
         says (if cnSent (wConn w) = None then final_status (wConn w') else 500) (made own A ep who r a b) (b = a))"

lemma owned_row:
  assumes "moment_ok a" "mOwner a i = Some uid"
  shows "tbTasks (mTables a) i = None \<or> (\<exists>t. tbTasks (mTables a) i = Some t \<and> tUserID t = uid)"
proof (cases "tbTasks (mTables a) i")
  case (Some t)
  then have "task_owners (mTables a) i = Some (tUserID t)" by (simp add: task_owners_def)
  then have "mOwner a i = Some (tUserID t)" using assms(1) by (force simp: moment_ok_def map_le_def)
  then show ?thesis using assms(2) Some by simp
qed simp

lemma attempted_update:
  assumes "moment_ok a" "mOwner a i = Some uid" "pathInt64 r ''id'' = (i, None)" "decodeTask A r = Inr t"
    and "v = clean_task (t\<lparr>tID := i, tUserID := uid\<rparr>)" "valid_task v"
    and "sql_effect (UpdateTaskRow (tTitle v) (tDescription v) (tStatus v) i) (mTables a) (mTables b) rows"
  shows "attempted A EpTaskUpdate (Some uid) r a b"
proof (cases "tbTasks (mTables a) i")
  case None
  then show ?thesis using assms by (auto simp: attempted_def vanished_def)
next
  case (Some old)
  then have "tUserID old = uid" using owned_row [OF assms(1,2)] by simp
  then have "performed A EpTaskUpdate (Some uid) r (mTables a) (mTables b)"
    using Some assms(3-7) by (auto simp del: sql_effect.simps)
  then show ?thesis by (simp add: attempted_def)
qed

lemma attempted_delete:
  assumes "moment_ok a" "mOwner a i = Some uid" "pathInt64 r ''id'' = (i, None)"
    and "sql_effect (DeleteTaskRow i) (mTables a) (mTables b) rows"
  shows "attempted A EpTaskDelete (Some uid) r a b"
proof (cases "tbTasks (mTables a) i")
  case None
  then have "mTables b = mTables a" using assms(4) by (simp add: fun_upd_idem)
  then show ?thesis using None assms by (auto simp: attempted_def vanished_def)
next
  case (Some old)
  then have "tUserID old = uid" using owned_row [OF assms(1,2)] by simp
  then have "performed A EpTaskDelete (Some uid) r (mTables a) (mTables b)"
    using Some assms(3,4) by (auto simp del: sql_effect.simps)
  then show ?thesis by (simp add: attempted_def)
qed

text \<open>With the server to oneself a task that was found is there.\<close>

lemma attempted_alone: "attempted A ep who r (alone_at T) (alone_at T') \<longleftrightarrow> performed A ep who r T T'"
  by (auto simp: attempted_def vanished_def task_owners_def)

lemma writing_these [simp]:
  "writing EpRegister" "writing EpTaskCreate" "writing EpTaskUpdate" "writing EpTaskDelete" "writing EpAccountCreate"
  "writing EpTransferCreate"
  by (simp_all add: writing_def)

lemma performed_read: "\<not> writing ep \<Longrightarrow> performed A ep who r T T' \<longleftrightarrow> T' = T"
  by (cases ep) (simp_all add: writing_def)

lemma made_alone: "made own_alone A ep who r (alone_at T) (alone_at T') \<longleftrightarrow> performed A ep who r T T'"
  by (auto simp: made_def attempted_alone performed_read)

context shared_engine
begin

lemma during_know:
  assumes "inv d" "during rely own (at d) m P"
  shows "during rely own (at d) m (\<lambda>a b. P a b \<and> moment_ok a \<and> mOwner (at d) \<subseteq>\<^sub>m mOwner a)"
  using assms rely_ok rely_owner unfolding during_def by blast

lemma answers_refused:
  assumes "calm (wDb w) (wDb w1)" "cnSent (wConn w1) = cnSent (wConn w)" "400 \<le> code"
  shows "answers inv at rely own A ep who r w (respondError A' code m w1)"
  using assms respondError_status(1) [of w1 A' code m] calm_during [OF assms(1)] calm_inv [OF assms(1)]
  by (auto simp: answers_def says_def elim!: during_mono)

lemma answers_error:
  assumes "inv (wDb w1)" "cnSent (wConn w1) = cnSent (wConn w)"
    and "during rely own (at (wDb w)) (at (wDb w1)) (\<lambda>a b. b = a \<or> (untyped e \<and> made own A ep who r a b))"
  shows "answers inv at rely own A ep who r w (handleServiceError A' e w1)"
proof -
  obtain m w2 where "handleServiceError A' e w1 = respondError A' (error_status e) m w2" "wConn w2 = wConn w1"
    using handleServiceError_respond [of A' e w1] by blast
  then have status: "cnSent (wConn w1) = None \<Longrightarrow> final_status (wConn (handleServiceError A' e w1)) = error_status e"
    using respondError_status(1) [of w2 A' "error_status e" m] by simp
  have "400 \<le> error_status e" "untyped e \<Longrightarrow> error_status e = 500"
    by (induction e) (auto simp: error_status_def split: go_error.splits)
  then show ?thesis using assms(1,2) status unfolding answers_def says_def
    by (auto intro!: during_mono [OF assms(3)])
qed

lemma answers_done:
  assumes "inv (wDb w1)" "during rely own (at (wDb w)) (at (wDb w1)) (made own A ep who r)"
    and "cnSent (wConn w1) = cnSent (wConn w)" "code < 400"
  shows "answers inv at rely own A ep who r w (respondJSON A' code p w1)"
  using assms(1,3,4) respondJSON_status(1) [of w1 A' code p] during_mono [OF assms(2)] by (simp add: answers_def says_def)

text \<open>A failure after the change was made.\<close>

lemma answers_failed:
  assumes "inv (wDb w1)" "during rely own (at (wDb w)) (at (wDb w1)) (made own A ep who r)"
    and "cnSent (wConn w1) = cnSent (wConn w)"
  shows "answers inv at rely own A ep who r w (respondError A' 500 m w1)"
  using assms(1,3) respondError_status(1) [of w1 A' 500 m] during_mono [OF assms(2)] by (simp add: answers_def says_def)

lemma answers_read:
  assumes "calm (wDb w) (wDb w')" "\<not> writing ep"
  shows "answers inv at rely own A ep who r w w'"
proof -
  have "made own A ep who r a a" for a using assms(2) by (simp add: made_def)
  then show ?thesis unfolding answers_def
    by (intro conjI calm_inv [OF assms(1)] calm_during [OF assms(1)]) (simp add: says_def)
qed

text \<open>From a write to the answer: \<open>know\<close> is what the handler has found out before.\<close>

lemma wrote_attempted:
  assumes "wrote st r d d'" "inv d" "writing ep"
    and "\<And>a b rows. moment_ok a \<Longrightarrow> mOwner (at d) \<subseteq>\<^sub>m mOwner a \<Longrightarrow> sql_effect st (mTables a) (mTables b) rows
      \<Longrightarrow> attempted A ep who r' a b"
  shows "inv d'" "r = Inl e \<Longrightarrow> during rely own (at d) (at d') (\<lambda>a b. b = a \<or> (untyped e \<and> made own A ep who r' a b))"
    "r = Inr x \<Longrightarrow> during rely own (at d) (at d') (made own A ep who r')"
proof -
  have during: "during rely own (at d) (at d')
      (\<lambda>a b. carried_out own st r a b \<and> moment_ok a \<and> mOwner (at d) \<subseteq>\<^sub>m mOwner a)"
    using during_know [OF assms(2)] assms(1) unfolding wrote_def by blast
  show "inv d'" using assms(1) by (simp add: wrote_def)
  show "during rely own (at d) (at d') (\<lambda>a b. b = a \<or> (untyped e \<and> made own A ep who r' a b))" if "r = Inl e"
    by (rule during_mono [OF during]) (use that assms(3,4) in \<open>auto simp: made_def simp del: sql_effect.simps\<close>)
  show "during rely own (at d) (at d') (made own A ep who r')" if "r = Inr x"
    by (rule during_mono [OF during]) (use that assms(3,4) in \<open>auto simp: made_def simp del: sql_effect.simps\<close>)
qed

end

text \<open>An answered request has made a change that the specification allows.\<close>

definition changes :: "('d \<Rightarrow> bool) \<Rightarrow> ('d \<Rightarrow> tables) \<Rightarrow> int64 option \<Rightarrow> request \<Rightarrow> ('d, 'r, 'a, 'f) world
    \<Rightarrow> ('d, 'r, 'a, 'f) world \<Rightarrow> bool" where
  "changes ok committed who r w w' \<longleftrightarrow> ok (wDb w')
     \<and> request_change who (transfer_request r) (committed (wDb w)) (committed (wDb w'))"

lemma changes_same: "ok (wDb w') \<Longrightarrow> committed (wDb w') = committed (wDb w) \<Longrightarrow> changes ok committed who r w w'"
  by (simp add: changes_def no_change)

lemma performed_change: "performed A ep who r T T' \<Longrightarrow> request_change who (transfer_request r) T T'"
proof (cases ep)
  case EpTaskCreate
  assume "performed A ep who r T T'"
  then show ?thesis using EpTaskCreate
    by (auto simp del: sql_effect.simps intro: creates_task [where v = "clean_task (t\<lparr>tUserID := uid\<rparr>)" for t uid])
next
  case EpTaskUpdate
  assume "performed A ep who r T T'"
  then show ?thesis using EpTaskUpdate
    by (auto simp del: sql_effect.simps intro: updates_task [where v = "clean_task (t\<lparr>tID := i, tUserID := uid\<rparr>)" for t i uid])
qed (auto simp del: sql_effect.simps intro: request_change.intros)

section \<open>The handlers answer for what they do\<close>

text \<open>The step of a handler on the database, and the world after it.\<close>

lemma on_db_step:
  obtains w1 x where "on_db f w = (w1, x)" "f (wDb w) = (wDb w1, x)" "wRedis w1 = wRedis w" "wTick w1 = wTick w"
    "wConn w1 = wConn w"
  using that [of "w\<lparr>wDb := fst (f (wDb w))\<rparr>" "snd (f (wDb w))"] by (simp add: on_db_eq)

lemma transfer_request_same [simp]:
  "transfer_request (r\<lparr>rqUser := u\<rparr>) = transfer_request r"
  "transfer_request (r\<lparr>rqPathValue := pv\<rparr>) = transfer_request r"
  by (simp_all add: transfer_request_def)

lemma currentUser_same [simp]: "currentUser (r\<lparr>rqUser := u\<rparr>) = u"
  by (simp add: currentUser_def)

lemma auth_issue_fst: "wDb (fst (auth_issue A uid w)) = wDb w"
  by (simp add: auth_issue_def time_Now_def on_redis_eq Let_def split: sum.split)

lemma auth_issue_db: "auth_issue A uid w = (w', e) \<Longrightarrow> wDb w' = wDb w"
  by (metis auth_issue_fst fst_conv)

lemma auth_issue_sent: "auth_issue A uid w = (w', e) \<Longrightarrow> cnSent (wConn w') = cnSent (wConn w)"
  by (auto simp: auth_issue_def time_Now_def on_redis_eq set_cookie_def Let_def split: sum.splits)

lemma auth_revoke_db [simp]: "wDb (auth_revoke A r w) = wDb w"
  by (simp add: auth_revoke_def time_Now_def)

context shared_engine
begin

lemma handleAuthRegister_answers:
  assumes "on_postgres D A" "inv (wDb w)"
  shows "answers inv at rely own A EpRegister who r w (handleAuthRegister A r w)"
proof (cases "decodeJSONBody A ''web.registerRequest'' register_fields
             \<lparr>rrEmail = [], rrName = [], rrPassword = []\<rparr> r")
  case (Inl err)
  then show ?thesis using calm_refl [OF assms(2)] by (simp add: handleAuthRegister_def answers_refused)
next
  case (Inr req)
  let ?u = "\<lparr>uID = 0, uEmail = rrEmail req, uName = rrName req, uPassword = rrPassword req,
                   uCreatedAt = zero_time, uUpdatedAt = zero_time\<rparr>"
  obtain w1 x where run: "on_db (UserService_Register (appBcrypt A) (PgUserRepo D) (appSalt A (wDraw w)) background ?u)
      (w\<lparr>wDraw := Suc (wDraw w)\<rparr>) = (w1, x)"
    "UserService_Register (appBcrypt A) (PgUserRepo D) (appSalt A (wDraw w)) background ?u (wDb w) = (wDb w1, x)"
    "wConn w1 = wConn w"
    by (rule on_db_step [of _ "w\<lparr>wDraw := Suc (wDraw w)\<rparr>"]) simp
  from service_register [OF assms(2) run(2)] obtain p where
    out: "wrote (InsertUser (TrimSpace (rrEmail req)) (TrimSpace (rrName req)) p) x (wDb w) (wDb w1)" by auto
  have "attempted A EpRegister who r a b" if
    "sql_effect (InsertUser (TrimSpace (rrEmail req)) (TrimSpace (rrName req)) p) (mTables a) (mTables b) rows" for a b rows
    using that Inr by (auto simp: attempted_def simp del: sql_effect.simps)
  note out = wrote_attempted [OF out assms(2) writing_these(1) this]
  show ?thesis
  proof (cases x)
    case (Inl e)
    then have "answers inv at rely own A EpRegister who r w (handleServiceError A e w1)"
      using out(1,2) run(3) by (simp add: answers_error)
    then show ?thesis using run(1) Inr Inl assms(1) by (simp add: handleAuthRegister_def on_postgres_def Let_def)
  next
    case u: (Inr u)
    obtain w2 e where iss: "auth_issue A (uID u) w1 = (w2, e)" by fastforce
    have w2: "wDb w2 = wDb w1" "cnSent (wConn w2) = cnSent (wConn w)"
      using auth_issue_db [OF iss] auth_issue_sent [OF iss] run(3) by simp_all
    have "during rely own (at (wDb w)) (at (wDb w2)) (made own A EpRegister who r)"
      using out(3) u w2(1) by simp
    then have "answers inv at rely own A EpRegister who r w (respondJSON A 201 (PUser u) w2)"
      "answers inv at rely own A EpRegister who r w
         (respondError A 500 ''internal server error'' (log_event (LogError ''issue session failed'') w2))"
      using out(1) w2 by (intro answers_done answers_failed; simp)+
    then show ?thesis using run(1) Inr u iss assms(1)
      by (auto simp: handleAuthRegister_def on_postgres_def Let_def split: option.split)
  qed
qed

lemma handleAuthLogin_answers:
  assumes "on_postgres D A" "inv (wDb w)"
  shows "answers inv at rely own A EpLogin who r w (handleAuthLogin A r w)"
proof (cases "decodeJSONBody A ''web.loginRequest'' login_fields \<lparr>lrEmail = [], lrPassword = []\<rparr> r")
  case (Inl err)
  then show ?thesis using calm_refl [OF assms(2)] by (simp add: handleAuthLogin_def answers_read writing_def)
next
  case (Inr req)
  obtain w1 x where run: "on_db (UserService_Authenticate (appBcrypt A) (PgUserRepo D) background (lrEmail req)
      (lrPassword req)) w = (w1, x)"
    "UserService_Authenticate (appBcrypt A) (PgUserRepo D) background (lrEmail req) (lrPassword req) (wDb w) = (wDb w1, x)"
    by (rule on_db_step)
  have "wDb (handleAuthLogin A r w) = wDb w1"
    using run(1) Inr assms(1) by (auto simp: handleAuthLogin_def on_postgres_def split: sum.splits prod.splits option.splits dest: auth_issue_db)
  then show ?thesis using calm_login [OF assms(2) run(2)] by (intro answers_read) (simp_all add: writing_def)
qed

lemma taskForUser_step:
  assumes "on_postgres D A" "inv (wDb w)" "taskForUser A i uid w = (w1, x)"
  shows "calm (wDb w) (wDb w1) \<and> wConn w1 = wConn w \<and> (\<forall>t. x = Inr t \<longrightarrow> mOwner (at (wDb w1)) i = Some uid)"
proof -
  obtain w2 y where run: "on_db (TaskService_GetByID (PgTaskRepo D) background i) w = (w2, y)"
    "TaskService_GetByID (PgTaskRepo D) background i (wDb w) = (wDb w2, y)" "wConn w2 = wConn w" by (rule on_db_step)
  show ?thesis using service_getTask [OF assms(2) run(2)] run(1,3) assms(1,3)
    by (auto simp: taskForUser_def on_postgres_def split: sum.splits if_splits)
qed

lemma handleTaskList_answers:
  assumes "on_postgres D A" "inv (wDb w)"
  shows "answers inv at rely own A EpTaskList who r w (handleTaskList A r w)"
proof (cases "currentUser r")
  case None
  then show ?thesis using calm_refl [OF assms(2)] by (simp add: handleTaskList_def answers_read writing_def)
next
  case (Some u)
  obtain w1 x where run: "on_db (TaskService_ListByUser (PgTaskRepo D) (PgUserRepo D) background (uID u)) w = (w1, x)"
    "TaskService_ListByUser (PgTaskRepo D) (PgUserRepo D) background (uID u) (wDb w) = (wDb w1, x)" by (rule on_db_step)
  have "wDb (handleTaskList A r w) = wDb w1"
    using run(1) Some assms(1) by (auto simp: handleTaskList_def on_postgres_def split: sum.splits)
  then show ?thesis using calm_listByUser [OF assms(2) run(2)] by (intro answers_read) (simp_all add: writing_def)
qed

lemma handleTaskStats_answers:
  assumes "on_postgres D A" "inv (wDb w)"
  shows "answers inv at rely own A EpTaskStats who r w (handleTaskStats A r w)"
proof (cases "currentUser r")
  case None
  then show ?thesis using calm_refl [OF assms(2)] by (simp add: handleTaskStats_def answers_read writing_def)
next
  case (Some u)
  obtain w1 x where run:
    "on_db (TaskService_StatsByUser (appFloat A) (appCount A) (PgTaskRepo D) (PgUserRepo D) background (uID u)) w = (w1, x)"
    "TaskService_StatsByUser (appFloat A) (appCount A) (PgTaskRepo D) (PgUserRepo D) background (uID u) (wDb w) = (wDb w1, x)"
    by (rule on_db_step)
  have "wDb (handleTaskStats A r w) = wDb w1"
    using run(1) Some assms(1) by (auto simp: handleTaskStats_def on_postgres_def split: sum.splits)
  then show ?thesis using calm_stats [OF assms(2) run(2)] by (intro answers_read) (simp_all add: writing_def)
qed

lemma handleTaskGet_answers:
  assumes "on_postgres D A" "inv (wDb w)"
  shows "answers inv at rely own A EpTaskGet who r w (handleTaskGet A r w)"
proof (cases "currentUser r")
  case None
  then show ?thesis using calm_refl [OF assms(2)] by (simp add: handleTaskGet_def answers_read writing_def)
next
  case (Some u)
  obtain i e where i: "pathInt64 r ''id'' = (i, e)" by fastforce
  obtain w1 x where run: "taskForUser A i (uID u) w = (w1, x)" by fastforce
  have "wDb (handleTaskGet A r w) \<in> {wDb w, wDb w1}"
    using run Some i by (cases e) (auto simp: handleTaskGet_def split: sum.splits)
  then show ?thesis using taskForUser_step [OF assms run] calm_refl [OF assms(2)] by (intro answers_read) (auto simp: writing_def)
qed

lemma handleTaskCreate_answers:
  assumes "on_postgres D A" "inv (wDb w)" "currentUser r = Some u"
  shows "answers inv at rely own A EpTaskCreate (Some (uID u)) r w (handleTaskCreate A r w)"
proof (cases "decodeTask A r")
  case (Inl err)
  then show ?thesis using calm_refl [OF assms(2)] assms(3) by (simp add: handleTaskCreate_def answers_refused)
next
  case (Inr t)
  let ?t = "t\<lparr>tUserID := uID u\<rparr>" and ?v = "clean_task (t\<lparr>tUserID := uID u\<rparr>)"
  obtain w1 x where run: "on_db (TaskService_Create (PgTaskRepo D) (PgUserRepo D) background ?t) w = (w1, x)"
    "TaskService_Create (PgTaskRepo D) (PgUserRepo D) background ?t (wDb w) = (wDb w1, x)" "wConn w1 = wConn w"
    by (rule on_db_step)
  have "answers inv at rely own A EpTaskCreate (Some (uID u)) r w
      (case x of Inl e \<Rightarrow> handleServiceError A e w1 | Inr t \<Rightarrow> respondJSON A 201 (PTask t) w1)"
  proof (cases "valid_task ?v")
    case False
    then obtain e where "x = Inl e" "calm (wDb w) (wDb w1)" using service_createTask [OF assms(2) run(2)] by auto
    then show ?thesis using run(3) by (auto intro!: answers_error calm_inv calm_during)
  next
    case True
    then have out: "wrote (InsertTask (uID u) (tTitle ?v) (tDescription ?v) (tStatus ?v)) x (wDb w) (wDb w1)"
      using service_createTask [OF assms(2) run(2)] by simp
    have "attempted A EpTaskCreate (Some (uID u)) r a b" if
      "sql_effect (InsertTask (uID u) (tTitle ?v) (tDescription ?v) (tStatus ?v)) (mTables a) (mTables b) rows" for a b rows
      using that Inr True by (auto simp: attempted_def simp del: sql_effect.simps)
    note out = wrote_attempted [OF out assms(2) writing_these(2) this]
    show ?thesis using out run(3) by (cases x) (auto intro: answers_error answers_done)
  qed
  then show ?thesis using run(1) Inr assms(1,3)
    by (simp add: handleTaskCreate_def on_postgres_def Let_def split: sum.splits)
qed

lemma handleTaskUpdate_answers:
  assumes "on_postgres D A" "inv (wDb w)" "currentUser r = Some u"
  shows "answers inv at rely own A EpTaskUpdate (Some (uID u)) r w (handleTaskUpdate A r w)"
proof -
  obtain i e where i: "pathInt64 r ''id'' = (i, e)" by fastforce
  obtain w1 x where own: "taskForUser A i (uID u) w = (w1, x)" by fastforce
  note step = taskForUser_step [OF assms(1,2) own]
  then have w1: "calm (wDb w) (wDb w1)" "wConn w1 = wConn w" by simp_all
  show ?thesis
  proof (cases "\<exists>old t. e = None \<and> x = Inr old \<and> decodeTask A r = Inr t")
    case False
    then consider (path) "e \<noteq> None" | (owner) err where "e = None" "x = Inl err"
      | (body) old err where "e = None" "x = Inr old" "decodeTask A r = Inl err"
      by (cases e; cases x; cases "decodeTask A r") auto
    then show ?thesis
      by cases (use own i assms(3) w1 calm_refl [OF assms(2)] calm_inv [OF w1(1)] calm_during [OF w1(1)] in
          \<open>auto simp: handleTaskUpdate_def intro!: answers_refused answers_error\<close>)
  next
    case True
    then obtain old t where ok: "e = None" "x = Inr old" "decodeTask A r = Inr t" by blast
    let ?t = "t\<lparr>tID := i, tUserID := uID u\<rparr>" and ?v = "clean_task (t\<lparr>tID := i, tUserID := uID u\<rparr>)"
    obtain w2 y where run: "on_db (TaskService_Update (PgTaskRepo D) background ?t) w1 = (w2, y)"
      "TaskService_Update (PgTaskRepo D) background ?t (wDb w1) = (wDb w2, y)" "wConn w2 = wConn w1" by (rule on_db_step)
    have owner: "mOwner (at (wDb w1)) i = Some (uID u)" using step ok by simp
    note inv1 = calm_inv [OF w1(1)]
    have "answers inv at rely own A EpTaskUpdate (Some (uID u)) r w
        (case y of Inl e \<Rightarrow> handleServiceError A e w2 | Inr t \<Rightarrow> respondJSON A 200 (PTask t) w2)"
    proof (cases "valid_task ?v")
      case False
      then obtain e where "y = Inl e" "calm (wDb w1) (wDb w2)" using service_updateTask [OF inv1 run(2)] by auto
      then show ?thesis using run(3) w1 calm_trans [OF w1(1)]
        by (auto intro!: answers_error calm_inv [OF w1(1)] calm_during intro: calm_inv)
    next
      case True
      have out: "wrote (UpdateTaskRow (tTitle ?v) (tDescription ?v) (tStatus ?v) i) y (wDb w1) (wDb w2)"
        using service_updateTask [OF inv1 run(2)] True by simp
      have "attempted A EpTaskUpdate (Some (uID u)) r a b" if "moment_ok a" "mOwner (at (wDb w1)) \<subseteq>\<^sub>m mOwner a"
        "sql_effect (UpdateTaskRow (tTitle ?v) (tDescription ?v) (tStatus ?v) i) (mTables a) (mTables b) rows" for a b rows
        using attempted_update [OF that(1) _ _ ok(3) refl True that(3)] that(2) owner i ok(1) by (force simp: map_le_def)
      note out = wrote_attempted [OF out inv1 writing_these(3) this]
      show ?thesis using out during_before [OF w1(1)] run(3) w1(2) by (cases y) (auto intro: answers_error answers_done)
    qed
    then show ?thesis using run(1) own i ok assms(1,3)
      by (simp add: handleTaskUpdate_def on_postgres_def Let_def split: sum.splits)
  qed
qed

lemma handleTaskDelete_answers:
  assumes "on_postgres D A" "inv (wDb w)" "currentUser r = Some u"
  shows "answers inv at rely own A EpTaskDelete (Some (uID u)) r w (handleTaskDelete A r w)"
proof -
  obtain i e where i: "pathInt64 r ''id'' = (i, e)" by fastforce
  obtain w1 x where own: "taskForUser A i (uID u) w = (w1, x)" by fastforce
  note step = taskForUser_step [OF assms(1,2) own]
  then have w1: "calm (wDb w) (wDb w1)" "wConn w1 = wConn w" by simp_all
  show ?thesis
  proof (cases "\<exists>old. e = None \<and> x = Inr old")
    case False
    then consider (path) "e \<noteq> None" | (owner) err where "e = None" "x = Inl err" by (cases e; cases x) auto
    then show ?thesis
      by cases (use own i assms(3) w1 calm_refl [OF assms(2)] calm_inv [OF w1(1)] calm_during [OF w1(1)] in
          \<open>auto simp: handleTaskDelete_def intro!: answers_refused answers_error\<close>)
  next
    case True
    then obtain old where ok: "e = None" "x = Inr old" by blast
    obtain w2 y where run: "on_db (TaskService_Delete (PgTaskRepo D) background i) w1 = (w2, y)"
      "TaskService_Delete (PgTaskRepo D) background i (wDb w1) = (wDb w2, y)" "wConn w2 = wConn w1" by (rule on_db_step)
    have owner: "mOwner (at (wDb w1)) i = Some (uID u)" using step ok by simp
    note inv1 = calm_inv [OF w1(1)]
    have "attempted A EpTaskDelete (Some (uID u)) r a b" if "moment_ok a" "mOwner (at (wDb w1)) \<subseteq>\<^sub>m mOwner a"
      "sql_effect (DeleteTaskRow i) (mTables a) (mTables b) rows" for a b rows
      using attempted_delete [OF that(1) _ _ that(3)] that(2) owner i ok(1) by (force simp: map_le_def)
    note out = wrote_attempted [OF service_deleteTask [OF inv1 run(2)] inv1 writing_these(4) this]
    have "answers inv at rely own A EpTaskDelete (Some (uID u)) r w
        (case y of Inl e \<Rightarrow> handleServiceError A e w2 | Inr _ \<Rightarrow> respondJSON A 200 (PMap ''status'' ''deleted'') w2)"
      using out during_before [OF w1(1)] run(3) w1(2) by (cases y) (auto intro: answers_error answers_done)
    then show ?thesis using run(1) own i ok assms(1,3)
      by (simp add: handleTaskDelete_def on_postgres_def split: sum.splits)
  qed
qed

lemma handleAccountList_answers:
  assumes "on_postgres D A" "inv (wDb w)"
  shows "answers inv at rely own A EpAccountList who r w (handleAccountList A r w)"
proof (cases "currentUser r")
  case None
  then show ?thesis using calm_refl [OF assms(2)] by (simp add: handleAccountList_def answers_read writing_def)
next
  case (Some u)
  obtain w1 x where run: "on_db (BankingService_GetUserAccounts (PgAccountRepo D) background (uID u)) w = (w1, x)"
    "BankingService_GetUserAccounts (PgAccountRepo D) background (uID u) (wDb w) = (wDb w1, x)" by (rule on_db_step)
  have "wDb (handleAccountList A r w) = wDb w1"
    using run(1) Some assms(1) by (auto simp: handleAccountList_def on_postgres_def split: sum.splits)
  then show ?thesis using calm_accounts [OF assms(2) run(2)] by (intro answers_read) (simp_all add: writing_def)
qed

lemma handleAccountCreate_answers:
  assumes "on_postgres D A" "inv (wDb w)" "currentUser r = Some u"
  shows "answers inv at rely own A EpAccountCreate (Some (uID u)) r w (handleAccountCreate A r w)"
proof (cases "decode_struct False ''struct'' currency_fields [] (rqBody r)")
  case (Inl err)
  then show ?thesis using calm_refl [OF assms(2)] by (simp add: handleAccountCreate_def answers_refused)
next
  case (Inr cur)
  obtain w1 x where run: "on_db (BankingService_CreateAccount (PgAccountRepo D) background (uID u) cur) w = (w1, x)"
    "BankingService_CreateAccount (PgAccountRepo D) background (uID u) cur (wDb w) = (wDb w1, x)" "wConn w1 = wConn w"
    by (rule on_db_step)
  have "attempted A EpAccountCreate (Some (uID u)) r a b" if
    "sql_effect (InsertAccount (uID u) cur 0) (mTables a) (mTables b) rows" for a b rows
    using that Inr by (auto simp: attempted_def simp del: sql_effect.simps)
  note out = wrote_attempted [OF wrote_createAccount [OF assms(2) run(2)] assms(2) writing_these(5) this]
  have "answers inv at rely own A EpAccountCreate (Some (uID u)) r w
      (case x of Inl e \<Rightarrow> handleServiceError A e w1 | Inr acc \<Rightarrow> respondJSON A 201 (PAccount acc) w1)"
    using out run(3) by (cases x) (auto intro: answers_error answers_done)
  then show ?thesis using run(1) Inr assms(1,3)
    by (simp add: handleAccountCreate_def on_postgres_def split: sum.splits)
qed

text \<open>Authentication reads the user that the session stands for, and changes no row.\<close>

lemma authenticate_step:
  assumes "on_postgres D A" "inv (wDb w)" "session_store (appAuth A) rinv live" "rinv (wRedis w)"
    and "auth_authenticate A r w = (w1, x)"
  shows "calm (wDb w) (wDb w1) \<and> rinv (wRedis w1)
    \<and> wConn w1 = wConn w \<and> wWriters w1 = wWriters w
    \<and> (\<forall>u. x = Inr u \<longrightarrow> session_user A live r w = Some (uID u))"
proof (cases "rqCookie r")
  case None
  then show ?thesis using calm_refl [OF assms(2)] assms(4,5) by (auto simp: auth_authenticate_def)
next
  case (Some v)
  let ?now = "appClock A (wTick w)" and ?w = "w\<lparr>wTick := Suc (wTick w)\<rparr>"
  obtain s q where q: "userIDFromCookieValue (appAuth A) ?now v (wRedis w) = (s, q)" by fastforce
  note look = session_store.lookup_cases [OF assms(3,4) q]
  show ?thesis
  proof (cases q)
    case (Inl err)
    then show ?thesis using look q Some calm_refl [OF assms(2)] assms(5)
      by (auto simp: auth_authenticate_def time_Now_def on_redis_eq)
  next
    case (Inr uid)
    obtain d p where p: "UserService_GetByID (PgUserRepo D) background uid (wDb w) = (d, p)" by fastforce
    have "w1 = ?w\<lparr>wRedis := s, wDb := d\<rparr> \<and> (x = p \<or> (\<exists>e. x = Inl e))"
      using q p Some Inr assms(1,5)
      by (auto simp: auth_authenticate_def time_Now_def on_redis_eq on_db_eq on_postgres_def split: sum.splits)
    then show ?thesis using look Inr calm_getUser [OF assms(2) p] Some
      by (auto simp: session_user_def)
  qed
qed

lemma performed_user [simp]: "performed A ep who (r\<lparr>rqUser := u\<rparr>) T T' = performed A ep who r T T'"
  by (cases ep) (simp_all add: decodeJSONBody_def decodeTask_def pathInt64_def)

lemma made_user [simp]: "made own A ep who (r\<lparr>rqUser := u\<rparr>) = made own A ep who r"
  by (simp add: made_def [abs_def] attempted_def vanished_def pathInt64_def)

lemma attempted_user [simp]: "attempted A ep who (r\<lparr>rqUser := u\<rparr>) = attempted A ep who r"
  by (simp add: attempted_def [abs_def] vanished_def pathInt64_def)

lemma requireAuth_answers:
  assumes "on_postgres D A" "inv (wDb w)" "session_store (appAuth A) rinv live" "rinv (wRedis w)"
    and "\<And>r u w. inv (wDb w) \<Longrightarrow> currentUser r = Some u \<Longrightarrow> answers inv at rely own A ep (Some (uID u)) r w (handler A r w)"
  shows "answers inv at rely own A ep (session_user A live r w) r w (requireAuth handler A r w)"
proof -
  obtain w1 x where run: "auth_authenticate A r w = (w1, x)" by fastforce
  note step = authenticate_step [OF assms(1-4) run]
  then have w1: "calm (wDb w) (wDb w1)" "wConn w1 = wConn w" by simp_all
  show ?thesis
  proof (cases x)
    case (Inl err)
    have "cnSent (wConn (auth_clear A w1)) = cnSent (wConn w)" using w1(2) by (simp add: auth_clear_def set_cookie_def)
    then show ?thesis using run w1(1) Inl by (simp add: requireAuth_def answers_refused)
  next
    case (Inr u)
    have "answers inv at rely own A ep (Some (uID u)) (r\<lparr>rqUser := Some u\<rparr>) w1 (handler A (r\<lparr>rqUser := Some u\<rparr>) w1)"
      using assms(5) calm_inv [OF w1(1)] by simp
    then have "answers inv at rely own A ep (Some (uID u)) r w (handler A (r\<lparr>rqUser := Some u\<rparr>) w1)"
      using during_before [OF w1(1)] w1(2) by (simp add: answers_def)
    then show ?thesis using run step Inr by (simp add: requireAuth_def)
  qed
qed

text \<open>Every endpoint but the transfers, which are not one statement.\<close>

lemma endpoint_answers:
  assumes "on_postgres D A" "inv (wDb w)" "session_store (appAuth A) rinv live" "rinv (wRedis w)" "ep \<noteq> EpTransferCreate"
  shows "answers inv at rely own A ep (session_user A live r w) r w (endpoint_serve ep A r w)"
proof -
  have me: "answers inv at rely own A EpMe who r w (handleAuthMe A r w)" if "inv (wDb w)" for who r w
    using calm_refl [OF that] by (intro answers_read) (simp_all add: handleAuthMe_def writing_def split: option.splits)
  have auth: "answers inv at rely own A ep (session_user A live r w) r w (requireAuth handler A r w)"
    if "\<And>r u w. inv (wDb w) \<Longrightarrow> currentUser r = Some u \<Longrightarrow> answers inv at rely own A ep (Some (uID u)) r w (handler A r w)"
    for ep handler
    by (rule requireAuth_answers [OF assms(1-4)]) (rule that)
  show ?thesis
  proof (cases ep)
    case EpHealth
    then show ?thesis using calm_refl [OF assms(2)] by (simp add: handleHealth_def answers_read writing_def)
  next
    case EpLogout
    then show ?thesis using calm_refl [OF assms(2)] by (simp add: handleAuthLogout_def answers_read writing_def)
  next
    case EpRegister
    then show ?thesis using handleAuthRegister_answers [OF assms(1,2)] by simp
  next
    case EpLogin
    then show ?thesis using handleAuthLogin_answers [OF assms(1,2)] by simp
  next
    case EpTransferCreate
    then show ?thesis using assms(5) by simp
  qed (simp_all add: auth me handleTaskList_answers handleTaskCreate_answers handleTaskStats_answers
      handleTaskGet_answers handleTaskUpdate_answers handleTaskDelete_answers handleAccountList_answers
      handleAccountCreate_answers assms(1))
qed

end

section \<open>One request at a time\<close>

context sql_engine
begin

lemma handleTransferCreate_answers:
  assumes "on_postgres D A" "inv (wDb w)" "currentUser r = Some u"
  shows "answers inv (\<lambda>d. alone_at (committed d)) (=) own_alone A EpTransferCreate (Some (uID u)) r w (handleTransferCreate A r w)"
proof -
  obtain i e where i: "pathInt64 r ''id'' = (i, e)" by fastforce
  show ?thesis
  proof (cases "e = None \<and> transfer_request r \<noteq> None")
    case False
    then show ?thesis using i alone.calm_refl [OF assms(2)]
      by (cases e) (auto simp: handleTransferCreate_def transfer_request_def intro!: alone.answers_refused split: sum.splits)
  next
    case True
    then obtain req where req: "e = None" "transfer_request r = Some req" by blast
    obtain w1 x where run: "on_db (BankingService_Transfer D (PgAccountRepo D) (PgTransferRepo D) background (uID u) req i) w = (w1, x)"
      "BankingService_Transfer D (PgAccountRepo D) (PgTransferRepo D) background (uID u) req i (wDb w) = (wDb w1, x)"
      "wConn w1 = wConn w"
      by (rule on_db_step)
    have "answers inv (\<lambda>d. alone_at (committed d)) (=) own_alone A EpTransferCreate (Some (uID u)) r w
        (case x of Inl e \<Rightarrow> handleServiceError A e w1 | Inr tr \<Rightarrow> respondJSON A 201 (PTransfer tr) w1)"
      using Transfer_cases [OF assms(2) run(2)] req i run(3)
      by (cases x) (auto simp: during_alone_at made_alone intro!: alone.answers_error alone.answers_done)
    then show ?thesis using run(1) req i assms(1,3)
      by (auto simp: handleTransferCreate_def transfer_request_def on_postgres_def split: sum.splits)
  qed
qed

lemma authenticate_alone:
  assumes "on_postgres D A" "inv (wDb w)" "session_store (appAuth A) rinv live" "rinv (wRedis w)"
    and "auth_authenticate A r w = (w1, x)"
  shows "inv (wDb w1) \<and> committed (wDb w1) = committed (wDb w) \<and> rinv (wRedis w1)
    \<and> wConn w1 = wConn w \<and> (\<forall>u. x = Inr u \<longrightarrow> session_user A live r w = Some (uID u))"
  using alone.authenticate_step [OF assms] by (simp add: alone_calm)

lemma endpoint_says:
  assumes "on_postgres D A" "inv (wDb w)" "session_store (appAuth A) rinv live" "rinv (wRedis w)"
  shows "inv (wDb (endpoint_serve ep A r w))
    \<and> says (if cnSent (wConn w) = None then final_status (wConn (endpoint_serve ep A r w)) else 500)
        (performed A ep (session_user A live r w) r (committed (wDb w)) (committed (wDb (endpoint_serve ep A r w))))
        (committed (wDb (endpoint_serve ep A r w)) = committed (wDb w))"
proof -
  have "answers inv (\<lambda>d. alone_at (committed d)) (=) own_alone A ep (session_user A live r w) r w (endpoint_serve ep A r w)"
  proof (cases "ep = EpTransferCreate")
    case True
    have "answers inv (\<lambda>d. alone_at (committed d)) (=) own_alone A EpTransferCreate (session_user A live r w) r w
        (requireAuth handleTransferCreate A r w)"
      by (rule alone.requireAuth_answers [OF assms]) (rule handleTransferCreate_answers [OF assms(1)])
    then show ?thesis using True by simp
  next
    case False
    then show ?thesis by (rule alone.endpoint_answers [OF assms])
  qed
  then show ?thesis by (simp add: answers_def during_alone_at made_alone)
qed

end

lemma mux_changes:
  assumes "sql_engine D ok committed tx_view" "ok (wDb w)" "on_postgres D A"
    and "session_store (appAuth A) rinv live" "rinv (wRedis w)"
  shows "changes ok committed (session_user A live r w) r w (mux_serve A r w)"
proof -
  have ep: "changes ok committed (session_user A live r w) r w
      (endpoint_serve ep A (r\<lparr>rqPathValue := pv\<rparr>) w)" for ep pv
    using sql_engine.endpoint_says [OF assms(1,3,2,4,5), of ep "r\<lparr>rqPathValue := pv\<rparr>"]
    by (auto simp: changes_def session_user_def says_def intro: no_change dest: performed_change)
  then show ?thesis using assms(2) by (auto simp: mux_serve_def Let_def changes_same split: option.splits)
qed

text \<open>C2: Every request to the mux, of whatever method, path, cookie and body and with whatever faults of
  the stores, meets the specification: it changes nothing in the committed tables, or registers one
  user, or does exactly one permitted change in the name of the user whose session its cookie carries.\<close>

theorem requests_meet_specification:
  assumes "sql_engine D ok committed tx_view" "ok (wDb w)" "on_postgres D A"
    and "session_store (appAuth A) rinv live" "rinv (wRedis w)"
  shows "ok (wDb (mux_serve A r w)) \<and> request_change (session_user A live r w) (transfer_request r)
    (committed (wDb w)) (committed (wDb (mux_serve A r w)))"
  using mux_changes [OF assms] by (simp add: changes_def)

lemma demo_on_postgres [simp]: "on_postgres demo_driver demo_app"
  by (simp add: on_postgres_def demo_app_def)

lemma demo_sessions: "session_store (appAuth demo_app) (\<lambda>_. True) rd_live"
  by (simp add: redis_sessions.session_store_axioms)

lemma demo_session_user:
  "session_user demo_app rd_live (demo_http m path (Some ''abc'') body) demo_world = Some 1"
  "session_user demo_app rd_live (demo_http m path None body) demo_world = None"
  by (simp_all add: session_user_def session_of_def redis_manager_def rd_live_def rd_put_def)

lemma requests_meet_specification_witness:
  "request_change (Some 1) None (pgTables pg_demo)
     (pgTables (wDb (mux_serve demo_app (demo_http ''DELETE'' ''/tasks/1'' (Some ''abc'') (Inl (Malformed ''EOF''))) demo_world)))"
  using requests_meet_specification [OF pg_engine.sql_engine_axioms, where w = demo_world, OF _ demo_on_postgres
      demo_sessions TrueI, of "demo_http ''DELETE'' ''/tasks/1'' (Some ''abc'') (Inl (Malformed ''EOF''))"]
  by (simp add: demo_session_user transfer_request_def decode_struct_def)

text \<open>The endpoint that a request is routed to, and the request as its handler sees it.\<close>

definition routed :: "request \<Rightarrow> (endpoint \<times> (string \<times> string) list) option" where
  "routed r = (if rqMethod r \<noteq> ''CONNECT'' \<and> \<not> canonical_path (rqEscapedPath r) then None
     else mux_match (rqMethod r) (path_segments (rqEscapedPath r)))"

definition with_path :: "(string \<times> string) list \<Rightarrow> request \<Rightarrow> request" where
  "with_path bs r = r\<lparr>rqPathValue := (\<lambda>n. case map_of bs n of Some v \<Rightarrow> v | None \<Rightarrow> [])\<rparr>"

lemma mux_serve_routed:
  "mux_serve A r w = (case routed r of
      Some (ep, bs) \<Rightarrow> endpoint_serve ep A (with_path bs r) w
    | None \<Rightarrow>
        if rqMethod r \<noteq> ''CONNECT'' \<and> \<not> canonical_path (rqEscapedPath r) then write_header (appRedirect A) w
        else if allowed_methods (path_segments (rqEscapedPath r)) \<noteq> []
        then http_Error ''Method Not Allowed'' 405
          (set_header ''Allow'' (join_comma (allowed_methods (path_segments (rqEscapedPath r)))) w)
        else http_Error ''404 page not found'' 404 w)"
  unfolding mux_serve_def routed_def with_path_def Let_def by simp

text \<open>C3: For the requests that write to the database (registration, the writes of tasks, opening an account, a transfer)
  an answer tells the truth about it.  A status below 400 is sent only when what the request
  asked for has been done, exactly once and with the values of the request; one from 400 to 499 only when nothing has been changed;
  after any other either nothing was changed or what was asked for was done.  Every other request, and one that no endpoint
  serves, leaves the database as it was; of what these answer the property says nothing.\<close>

theorem answers_tell_the_truth:
  assumes "sql_engine D ok committed tx_view" "ok (wDb w)" "on_postgres D A"
    and "session_store (appAuth A) rinv live" "rinv (wRedis w)" "cnSent (wConn w) = None"
    and "w' = mux_serve A r w" "T = committed (wDb w)" "T' = committed (wDb w')" "status = final_status (wConn w')"
  shows "case routed r of
      None \<Rightarrow> T' = T
    | Some (ep, bs) \<Rightarrow>
        if writing ep
        then (T' = T \<or> performed A ep (session_user A live r w) (with_path bs r) T T')
          \<and> (status < 400 \<longrightarrow> performed A ep (session_user A live r w) (with_path bs r) T T')
          \<and> (400 \<le> status \<and> status < 500 \<longrightarrow> T' = T)
        else T' = T"
proof (cases "routed r")
  case None
  then have "wDb (mux_serve A r w) = wDb w" by (simp add: mux_serve_routed)
  then show ?thesis using None assms(7-9) by simp
next
  case (Some p)
  obtain ep bs where p: "p = (ep, bs)" by (cases p)
  have user: "session_user A live (with_path bs r) w = session_user A live r w"
    by (simp add: session_user_def with_path_def)
  have "w' = endpoint_serve ep A (with_path bs r) w" using assms(7) Some p by (simp add: mux_serve_routed)
  then have "says status (performed A ep (session_user A live r w) (with_path bs r) T T') (T' = T)"
    using sql_engine.endpoint_says [OF assms(1,3,2,4,5), of ep "with_path bs r"] user assms(6,8-10) by simp
  then show ?thesis unfolding says_def using Some p by (auto simp: performed_read)
qed

lemma answers_tell_the_truth_witness:
  "let r = demo_http ''DELETE'' ''/tasks/1'' (Some ''abc'') (Inl (Malformed ''EOF'')); w' = mux_serve demo_app r demo_world in
   \<exists>bs. routed r = Some (EpTaskDelete, bs)
     \<and> (final_status (wConn w') < 400 \<longrightarrow> performed demo_app EpTaskDelete (Some 1) (with_path bs r) (pgTables pg_demo) (pgTables (wDb w')))
     \<and> (pgTables (wDb w') = pgTables pg_demo \<or> performed demo_app EpTaskDelete (Some 1) (with_path bs r) (pgTables pg_demo) (pgTables (wDb w')))"
proof -
  let ?r = "demo_http ''DELETE'' ''/tasks/1'' (Some ''abc'') (Inl (Malformed ''EOF''))"
  have "canonical_path ''/tasks/1''" by code_simp
  moreover have "mux_match ''DELETE'' (path_segments ''/tasks/1'') = Some (EpTaskDelete, [(''id'', ''1'')])" by code_simp
  ultimately have "routed ?r = Some (EpTaskDelete, [(''id'', ''1'')])" by (simp add: routed_def)
  then show ?thesis
    using answers_tell_the_truth [OF pg_engine.sql_engine_axioms _ demo_on_postgres demo_sessions TrueI, where w = demo_world, OF _ _ refl refl refl refl, of ?r]
    by (simp add: demo_session_user fresh_conn_def Let_def writing_def)
qed

end
