(* ===== verification/Access_Control.thy ===== *)
theory Access_Control
  imports Request_Effects
begin

text \<open>
  What the specification of a request gives: who can change which rows, and which invariants of the
  tables every request keeps.
\<close>

section \<open>Frames of a transfer\<close>

lemma transfer_done_frame:
  assumes "transfer_done uid req i T T' tr"
  shows "tbUsers T' = tbUsers T" "tbTasks T' = tbTasks T"
    "k \<noteq> i \<Longrightarrow> k \<noteq> rqReceiverAccountID req \<Longrightarrow> tbAccounts T' k = tbAccounts T k"
proof -
  from assms obtain T1 T2 cur where T: "added (- rqAmount req) i T T1"
      "added (rqAmount req) (rqReceiverAccountID req) T1 T2"
      "T' = T2\<lparr>tbTransfers := (tbTransfers T2)(trID tr \<mapsto> tr\<lparr>trCurrency := cur\<rparr>)\<rparr>"
    unfolding transfer_done_def by blast
  show "tbUsers T' = tbUsers T" "tbTasks T' = tbTasks T" using T by (simp_all add: frame_rules)
  assume "k \<noteq> i" "k \<noteq> rqReceiverAccountID req"
  then show "tbAccounts T' k = tbAccounts T k" using T by (auto simp: added_def)
qed

lemma transfer_done_owner:
  "transfer_done uid req i T T' tr \<Longrightarrow> \<exists>a. tbAccounts T i = Some a \<and> aUserID a = uid"
  unfolding transfer_done_def transfer_allowed_def by blast

section \<open>Other people's rows\<close>

lemma request_change_task:
  assumes "request_change who req T T'" "tbTasks T k = Some t" "who \<noteq> Some (tUserID t)"
  shows "tbTasks T' k = Some t"
  using assms(1)
proof (cases rule: request_change.cases)
  case (transfers uid q i tr)
  then show ?thesis using assms(2) transfer_done_frame(2) by metis
qed (use assms(2,3) in \<open>auto split: option.splits\<close>)

lemma request_change_account:
  assumes "request_change who req T T'" "tbAccounts T k = Some a" "who \<noteq> Some (aUserID a)"
    and "\<And>q. req = Some q \<Longrightarrow> 0 \<le> sint (rqAmount q)"
  shows "account_amount (tbAccounts T k) \<le> account_amount (tbAccounts T' k) \<and> tbAccounts T' k \<noteq> None"
  using assms(1)
proof (cases rule: request_change.cases)
  case (transfers uid q i tr)
  then have k: "k \<noteq> i" using transfer_done_owner assms(2,3) by fastforce
  show ?thesis
  proof (cases "k = rqReceiverAccountID q")
    case True
    have "account_amount (tbAccounts T' k) = account_amount (tbAccounts T k) + sint (rqAmount q)"
      using transfer_done_balances(2) [OF transfers(3)] k True by simp
    moreover have "tbAccounts T' k \<noteq> None"
    proof -
      from transfers(3) obtain T1 T2 where "added (- rqAmount q) i T T1" "added (rqAmount q) k T1 T2"
        "tbAccounts T' = tbAccounts T2" unfolding transfer_done_def using True by auto
      then show ?thesis by (auto simp: added_def)
    qed
    ultimately show ?thesis using assms(4) transfers(2) by simp
  next
    case False
    then show ?thesis using transfer_done_frame(3) [OF transfers(3) k] assms(2) by simp
  qed
qed (use assms(2) in \<open>auto simp: account_amount_def split: option.splits if_splits\<close>)

lemma request_change_user:
  assumes "request_change who req T T'" "tbUsers T k = Some u"
  shows "tbUsers T' k = Some u"
  using assms(1)
proof (cases rule: request_change.cases)
  case (transfers uid q i tr)
  then show ?thesis using assms(2) transfer_done_frame(1) by metis
qed (use assms(2) in \<open>auto split: option.splits\<close>)

section \<open>The books\<close>

lemma schema_transfer_accounts:
  "schema_ok T \<Longrightarrow> tbTransfers T k = Some tr \<Longrightarrow>
     tbAccounts T (trSenderAccountID tr) \<noteq> None \<and> tbAccounts T (trReceiverAccountID tr) \<noteq> None"
  by (simp add: schema_ok_def)

lemma no_flow_without_account: "schema_ok T \<Longrightarrow> tbAccounts T i = None \<Longrightarrow> net_flow T i = 0"
  using schema_transfer_accounts by (intro no_flow_unreferenced) blast+

lemma request_change_schema:
  assumes "request_change who req T T'" "schema_ok T" "schema_ok T'"
    and "\<And>q. req = Some q \<Longrightarrow> sint (rqAmount q) \<noteq> - (2 ^ 63)"
  shows "money_in cur T' = money_in cur T" "ledger_ok T \<Longrightarrow> ledger_ok T'"
    "valid_rows (tbTasks T) \<Longrightarrow> valid_rows (tbTasks T')"
proof -
  have fin: "finite (dom (tbAccounts T))" "finite (dom (tbTransfers T))" using assms(2) by (simp_all add: schema_ok_def)
  note facts = assms(1)
  from facts show "money_in cur T' = money_in cur T"
  proof (cases rule: request_change.cases)
    case (opens_account uid c rows)
    from insert_account_effect [OF this(2)] show ?thesis using new_account_money [OF fin(1)] by metis
  next
    case (transfers uid q i tr)
    then show ?thesis using transfer_done_money [OF transfers(3) fin(1)] assms(4) by simp
  qed (auto simp: money_in_def split: option.splits)
  from facts show "ledger_ok T'" if "ledger_ok T"
  proof (cases rule: request_change.cases)
    case (opens_account uid c rows)
    from this(2) obtain i a where a: "tbAccounts T i = None" "aBalance a = 0"
      "tbAccounts T' = (tbAccounts T)(i \<mapsto> a)" "tbTransfers T' = tbTransfers T" by (rule insert_account_effect)
    from opened_account_ledger [OF a no_flow_without_account [OF assms(2) a(1)] that] show ?thesis .
  next
    case (transfers uid q i tr)
    then show ?thesis using transfer_done_ledger [OF transfers(3) that fin(2)] assms(4) by simp
  qed (use that in \<open>auto simp: ledger_ok_def net_flow_def split: option.splits\<close>)
  from facts show "valid_rows (tbTasks T')" if "valid_rows (tbTasks T)"
  proof (cases rule: request_change.cases)
    case (creates_task uid v rows)
    then obtain i c where "tbTasks T' = (tbTasks T)(i \<mapsto> \<lparr>tID = i, tUserID = uid, tTitle = tTitle v,
       tDescription = tDescription v, tStatus = tStatus v, tCreatedAt = c, tUpdatedAt = c\<rparr>)" by auto
    then show ?thesis using that creates_task by (simp add: valid_task_def)
  next
    case (updates_task uid i t v rows)
    then obtain now where "tbTasks T' = (tbTasks T)(i \<mapsto> t\<lparr>tTitle := tTitle v, tDescription := tDescription v,
        tStatus := tStatus v, tUpdatedAt := now\<rparr>)" by auto
    moreover have "valid_task t" using that updates_task(2) by (simp add: valid_rows_def)
    ultimately show ?thesis using that updates_task(4) by (simp add: valid_task_def)
  next
    case (transfers uid q i tr)
    then show ?thesis using that transfer_done_frame(2) by metis
  qed (use that in \<open>auto\<close>)
qed

lemma request_change_solvent:
  assumes "request_change who req T T'" "solvent T"
    and "\<And>q. req = Some q \<Longrightarrow> 0 \<le> sint (rqAmount q)"
  shows "solvent T'"
  using assms(1)
proof (cases rule: request_change.cases)
  case (transfers uid q i tr)
  then show ?thesis using transfer_done_solvent [OF transfers(3) assms(2)] assms(3) by simp
qed (use assms(2) in \<open>auto simp: solvent_def split: option.splits if_splits\<close>)

section \<open>Who can change what\<close>

text \<open>C18: Tasks are private: a task stays exactly as it is through every request whose session is not
  its owner's, whatever the request and whatever fails.\<close>

theorem tasks_of_others_untouched:
  assumes "sql_engine D ok committed tx_view" "ok (wDb w)" "on_postgres D A"
    and "session_store (appAuth A) rinv live" "rinv (wRedis w)"
    and "tbTasks (committed (wDb w)) k = Some t" "session_user A live r w \<noteq> Some (tUserID t)"
  shows "tbTasks (committed (wDb (mux_serve A r w))) k = Some t"
  using mux_changes [OF assms(1-5)] request_change_task assms(6,7) unfolding changes_def by blast

lemma tasks_of_others_untouched_witness:
  "tbTasks (pgTables (wDb (mux_serve demo_app (demo_http ''DELETE'' ''/tasks/1'' None (Inl (Malformed ''EOF''))) demo_world))) 1
     = tbTasks (pgTables pg_demo) 1"
proof -
  have row: "tbTasks (pgTables (wDb demo_world)) 1 = Some \<lparr>tID = 1, tUserID = 1, tTitle = ''write'', tDescription = [],
      tStatus = TaskStatusTodo, tCreatedAt = 0, tUpdatedAt = 0\<rparr>" by (simp add: pg_demo_def)
  show ?thesis
    using tasks_of_others_untouched [OF pg_engine.sql_engine_axioms, where w = demo_world, OF _ demo_on_postgres
        demo_sessions TrueI row, of "demo_http ''DELETE'' ''/tasks/1'' None (Inl (Malformed ''EOF''))"] row
    by (simp add: demo_session_user)
qed

text \<open>C19: Nobody can take money from an account but its owner, as long as the amount asked for is not
  negative: through every request of others the account stays and its balance does not fall.\<close>

theorem others_cannot_take_money:
  assumes "sql_engine D ok committed tx_view" "ok (wDb w)" "on_postgres D A"
    and "session_store (appAuth A) rinv live" "rinv (wRedis w)"
    and "tbAccounts (committed (wDb w)) k = Some a" "session_user A live r w \<noteq> Some (aUserID a)"
    and "\<And>q. transfer_request r = Some q \<Longrightarrow> 0 \<le> sint (rqAmount q)"
  shows "tbAccounts (committed (wDb (mux_serve A r w))) k \<noteq> None
    \<and> account_amount (tbAccounts (committed (wDb w)) k)
        \<le> account_amount (tbAccounts (committed (wDb (mux_serve A r w))) k)"
  using mux_changes [OF assms(1-5)] request_change_account [OF _ assms(6-8)] unfolding changes_def by blast

definition demo_transfer_body :: "json_error + jval" where
  "demo_transfer_body = Inr (VObj [(''receiver_account_id'', VNum ''2''), (''amount'', VNum ''30''),
     (''currency'', VStr ''USD''), (''description'', VStr ''rent'')])"

lemma demo_transfer_request:
  "transfer_request (demo_http m path ck demo_transfer_body) = Some (demo_request 30)"
proof -
  have n: "ParseInt ''2'' = (2, None)" "ParseInt ''30'' = (30, None)"
    by (simp_all add: ParseInt_def strip_sign_def parse_uint_def digit_val_def uint64_cutoff_def)
  show ?thesis
    by (simp add: transfer_request_def demo_transfer_body_def decode_struct_def transfer_fields_def find_field_def
        set_int64_def set_string_def n demo_request_def)
qed

lemma others_cannot_take_money_witness:
  "account_amount (tbAccounts (pgTables pg_demo) 2)
   \<le> account_amount (tbAccounts (pgTables (wDb (mux_serve demo_app
        (demo_http ''POST'' ''/accounts/1/transfer'' (Some ''abc'') demo_transfer_body) demo_world))) 2)"
proof -
  have row: "tbAccounts (pgTables (wDb demo_world)) 2 = Some \<lparr>aID = 2, aUserID = 2, aCurrency = ''USD'',
      aBalance = - 100, aCreatedAt = 0, aUpdatedAt = 0\<rparr>" by (simp add: pg_demo_def)
  show ?thesis
    using others_cannot_take_money [OF pg_engine.sql_engine_axioms, where w = demo_world, OF _ demo_on_postgres
        demo_sessions TrueI row, of "demo_http ''POST'' ''/accounts/1/transfer'' (Some ''abc'') demo_transfer_body"]
    by (simp add: demo_session_user demo_transfer_request) (simp add: demo_request_def)
qed

text \<open>C22: Without a live session every protected endpoint answers 401, clears the session cookie and
  changes nothing.\<close>

theorem protected_without_session:
  assumes "sql_engine D ok committed tx_view" "ok (wDb w)" "on_postgres D A"
    and "session_store (appAuth A) rinv live" "rinv (wRedis w)" "cnSent (wConn w) = None"
    and "ep \<notin> {EpHealth, EpRegister, EpLogin, EpLogout}" "session_user A live r w = None"
  shows "final_status (wConn (endpoint_serve ep A r w)) = 401
    \<and> final_cookies (wConn (endpoint_serve ep A r w)) = cnCookies (wConn w) @ [clear_cookie (appAuth A)]
    \<and> committed (wDb (endpoint_serve ep A r w)) = committed (wDb w)"
proof -
  obtain w1 x where run: "auth_authenticate A r w = (w1, x)" by fastforce
  note step = sql_engine.authenticate_alone [OF assms(1,3,2,4,5) run]
  then obtain err where x: "x = Inl err" using assms(8) by (cases x) auto
  obtain handler where ep: "endpoint_serve ep A r w = requireAuth handler A r w"
    using assms(7) by (cases ep) auto
  have eq: "endpoint_serve ep A r w = respondError A 401 authenticationRequiredMessage (auth_clear A w1)"
    using run x by (simp add: ep requireAuth_def)
  have "cnSent (wConn (auth_clear A w1)) = None"
    "cnCookies (wConn (auth_clear A w1)) = cnCookies (wConn w) @ [clear_cookie (appAuth A)]"
    using step assms(6) by (simp_all add: auth_clear_def set_cookie_def)
  then show ?thesis using respondError_status [of "auth_clear A w1" A] step by (simp add: eq)
qed

lemma protected_without_session_witness:
  "final_status (wConn (endpoint_serve EpTransferCreate demo_app
     (demo_http ''POST'' ''/accounts/1/transfer'' None demo_transfer_body) demo_world)) = 401"
  using protected_without_session [OF pg_engine.sql_engine_axioms, where w = demo_world, OF _ demo_on_postgres
      demo_sessions TrueI, of EpTransferCreate "demo_http ''POST'' ''/accounts/1/transfer'' None demo_transfer_body"]
  by (simp add: demo_session_user fresh_conn_def)

text \<open>C25: The status of every service error is decided by the error at the end of its chain; an error of
  none of the four types is answered with 500 and a fixed text that tells the client nothing.\<close>

theorem service_error_response:
  assumes "cnSent (wConn w) = None"
  shows "final_status (wConn (handleServiceError A err w)) = error_status err
    \<and> (error_status err \<in> {401, 404, 409, 422} \<longleftrightarrow> \<not> untyped err)
    \<and> (untyped err \<longrightarrow> cnBody (wConn (handleServiceError A err w))
         = cnBody (wConn w) @ [JsonChunk (JObj [(''error'', JStr ''internal server error'')])])"
proof -
  obtain m w' where eq: "handleServiceError A err w = respondError A (error_status err) m w'" "wConn w' = wConn w"
    "error_status err = 500 \<longrightarrow> m = ''internal server error''"
    using handleServiceError_respond [of A err w] by blast
  have "cnBody (wConn (respondError A code m w')) = cnBody (wConn w) @ [JsonChunk (JObj [(''error'', JStr m)])]" for code
    using eq(2) by (simp add: respondError_def respondJSON_def Let_def write_eq conn_Write_def set_header_def)
  moreover have typed: "error_status err \<in> {401, 404, 409, 422} \<longleftrightarrow> \<not> untyped err" "untyped err \<Longrightarrow> error_status err = 500"
    by (induction err) (auto simp: error_status_def)
  moreover have "final_status (wConn (respondError A (error_status err) m w')) = error_status err"
    using respondError_status(1) [of w'] assms(1) eq(2) by simp
  ultimately show ?thesis using eq by auto
qed

lemma service_error_response_witness:
  "final_status (wConn (handleServiceError demo_app (ErrorString (Text ''insufficient funds'')) demo_world)) = 500"
  using service_error_response [of demo_world demo_app "ErrorString (Text ''insufficient funds'')"]
  by (simp add: fresh_conn_def error_status_def)

end
