(* ===== verification/Requests_Shared.thy ===== *)
theory Requests_Shared
  imports Access_Control
begin

text \<open>
  Requests that run at the same time.  Between any two statements of a request the others may change the
  tables in every way that keeps the schema and gives no task id to another user, and what a request does itself is
  of that kind: so any number of requests may interleave, statement by statement.  What was ours is in the log of the
  moments, which only our own writes extend.  \<open>shared_driver\<close> is an
  executable server on which any statements of others run before each of ours.
\<close>

section \<open>What others may do, and what we do\<close>

definition others_may :: "moment \<Rightarrow> moment \<Rightarrow> bool" where
  "others_may a b \<longleftrightarrow> moment_ok b \<and> mOwner a \<subseteq>\<^sub>m mOwner b \<and> mLog b = mLog a"

text \<open>Our own write is entered into the log.  A new task has an id that was never given: the sequence does not hand out a
  value twice.\<close>

definition we_may :: "moment \<Rightarrow> moment \<Rightarrow> bool" where
  "we_may a b \<longleftrightarrow> moment_ok a \<and> mOwner b = mOwner a ++ task_owners (mTables b)
     \<and> mLog b = mLog a @ [(mTables a, mTables b)]
     \<and> (\<forall>i. tbTasks (mTables a) i = None \<and> tbTasks (mTables b) i \<noteq> None \<longrightarrow> mOwner a i = None)"

lemma effect_keeps_owner:
  assumes "sql_effect st T T' rows" "tbTasks T i = Some t" "tbTasks T' i = Some t'"
  shows "tUserID t' = tUserID t"
  using assms by (cases st) (auto simp: Let_def drop_rows_Some split: option.splits if_splits)

text \<open>The guarantee: one request's step is among what the others rely on, who keep logs of their own.\<close>

lemma our_steps_are_allowed:
  assumes "we_may a b" "sql_effect st (mTables a) (mTables b) rows"
  shows "others_may a (b\<lparr>mLog := mLog a\<rparr>)"
proof -
  have ok: "moment_ok a" and owner: "mOwner b = mOwner a ++ task_owners (mTables b)"
    using assms(1) by (simp_all add: we_may_def)
  have "moment_ok (b\<lparr>mLog := mLog a\<rparr>)"
    using sql_effect_schema [OF assms(2)] ok owner by (simp add: moment_ok_def map_le_map_add)
  moreover have "mOwner b i = Some uid" if uid: "mOwner a i = Some uid" for i uid
  proof (cases "tbTasks (mTables b) i")
    case None
    then show ?thesis using owner uid by (simp add: map_add_def task_owners_def)
  next
    case (Some t')
    then obtain t where t: "tbTasks (mTables a) i = Some t"
      using assms(1) uid by (cases "tbTasks (mTables a) i") (auto simp: we_may_def)
    then have "tUserID t = uid" using owned_row [OF ok uid] by simp
    then have "tUserID t' = uid" using effect_keeps_owner [OF assms(2) t Some] by simp
    then show ?thesis using owner Some by (simp add: map_add_def task_owners_def)
  qed
  ultimately show ?thesis unfolding others_may_def map_le_def by auto
qed

lemma map_add_known: "m \<subseteq>\<^sub>m m' \<Longrightarrow> m' ++ m = m'"
  by (rule ext) (force simp: map_add_def map_le_def split: option.split)

section \<open>A server on which others run\<close>

text \<open>\<open>shOthers\<close> holds what the others will run before each of our calls: any statements, in any number.\<close>

record shared =
  shPg :: pg
  shOthers :: "sql_stmt list list"
  shOwner :: "int64 \<rightharpoonup> int64"
  shLog :: "(tables \<times> tables) list"

definition sh_at :: "shared \<Rightarrow> moment" where
  "sh_at s = \<lparr>mTables = pgTables (shPg s), mOwner = shOwner s, mLog = shLog s\<rparr>"

definition sh_keep :: "pg \<Rightarrow> shared \<Rightarrow> shared" where
  "sh_keep d s = s\<lparr>shPg := d, shOwner := shOwner s ++ task_owners (pgTables d)\<rparr>"

text \<open>After a statement of ours: one that wrote is logged with the tables before and after it.\<close>

definition sh_own :: "bool \<Rightarrow> pg \<Rightarrow> shared \<Rightarrow> shared" where
  "sh_own written d s = (sh_keep d s)\<lparr>shLog := (if written then shLog s @ [(pgTables (shPg s), pgTables d)] else shLog s)\<rparr>"

definition wrote_through :: "dbtx \<Rightarrow> sql_stmt \<Rightarrow> go_error + 'a \<Rightarrow> bool" where
  "wrote_through h st r \<longleftrightarrow> h = PoolConn \<and> \<not> is_read st \<and> \<not> isl r"

definition sh_stmt :: "(nat \<Rightarrow> string option) \<Rightarrow> (nat \<Rightarrow> gotime) \<Rightarrow> sql_stmt \<Rightarrow> shared \<Rightarrow> shared \<times> (go_error + sql_row list)" where
  "sh_stmt fault now st s = (case pg_exec fault now PoolConn st (shPg s) of (d, r) \<Rightarrow> (sh_keep d s, r))"

fun sh_run :: "(nat \<Rightarrow> gotime) \<Rightarrow> sql_stmt list \<Rightarrow> shared \<Rightarrow> shared" where
  "sh_run now [] s = s"
| "sh_run now (st # sts) s = sh_run now sts (fst (sh_stmt (\<lambda>_. None) now st s))"

definition sh_others :: "(nat \<Rightarrow> gotime) \<Rightarrow> shared \<Rightarrow> shared" where
  "sh_others now s = (case shOthers s of [] \<Rightarrow> s | sts # later \<Rightarrow> sh_run now sts (s\<lparr>shOthers := later\<rparr>))"

definition shared_driver :: "(nat \<Rightarrow> string option) \<Rightarrow> (nat \<Rightarrow> gotime) \<Rightarrow> shared sql_driver" where
  "shared_driver fault now = \<lparr>
     dbBeginTx = (\<lambda>s. case pg_begin fault (shPg s) of (d, r) \<Rightarrow> (sh_keep d s, r)),
     dbExec = (\<lambda>h st s. let s = sh_others now s in
       case pg_exec fault now h st (shPg s) of (d, r) \<Rightarrow> (sh_own (wrote_through h st r) d s, r)),
     dbQuery = (\<lambda>h st s. let s = sh_others now s in
       case pg_query fault now h st (shPg s) of (d, r) \<Rightarrow> (sh_own (wrote_through h st r) d s, r)),
     dbCommit = (\<lambda>x s. case pg_commit fault x (shPg s) of (d, r) \<Rightarrow> (sh_own (\<not> isl r) d s, r)),
     dbRollback = (\<lambda>x s. case pg_rollback x (shPg s) of (d, r) \<Rightarrow> (sh_keep d s, r))\<rparr>"

definition sh_inv :: "shared \<Rightarrow> bool" where
  "sh_inv s \<longleftrightarrow> pg_inv (shPg s) \<and> task_owners (pgTables (shPg s)) \<subseteq>\<^sub>m shOwner s
     \<and> covered_by (seqTasks (pgSeqs (shPg s))) (shOwner s)"

lemma sh_inv_ok: "sh_inv s \<Longrightarrow> moment_ok (sh_at s)"
  by (simp add: sh_inv_def sh_at_def moment_ok_def pg_inv_def)

text \<open>Only an insert makes a task row, and its id is the next of the sequence.\<close>

lemma pg_run_new_task:
  assumes "pg_run t st q T = (q', Inr (T', rows))" "tbTasks T i = None" "tbTasks T' i \<noteq> None"
  shows "i = of_nat (Suc (seqTasks q)) \<and> \<not> seqTasks q \<ge> max_seq"
  using assms by (cases st) (auto simp: Let_def drop_rows_def split: if_splits option.splits)

lemma pg_exec_new_task:
  assumes "pg_exec fault now PoolConn st d = (d', r)" "tbTasks (pgTables d) i = None" "tbTasks (pgTables d') i \<noteq> None"
  shows "i = of_nat (Suc (seqTasks (pgSeqs d))) \<and> \<not> seqTasks (pgSeqs d) \<ge> max_seq"
proof -
  obtain q p where run: "pg_run (now (pgCalls d)) st (pgSeqs d) (pgTables d) = (q, p)" by fastforce
  show ?thesis
  proof (cases "fault (pgCalls d) = None \<and> (\<exists>T rows. p = Inr (T, rows))")
    case True
    then obtain T rows where p: "p = Inr (T, rows)" by blast
    have "pgTables d' = T" using assms(1) run True p by (auto simp: pg_exec_def Let_def)
    then show ?thesis using pg_run_new_task [OF run [unfolded p]] assms(2,3) by simp
  next
    case False
    then have "pgTables d' = pgTables d" using assms(1) run
      by (cases p) (auto simp: pg_exec_def Let_def split: option.splits)
    then show ?thesis using assms(2,3) by simp
  qed
qed

lemma pg_exec_seqs:
  assumes "pg_inv d" "pg_exec fault now PoolConn st d = (d', r)"
  shows "seqTasks (pgSeqs d) \<le> seqTasks (pgSeqs d')"
proof -
  obtain q p where run: "pg_run (now (pgCalls d)) st (pgSeqs d) (pgTables d) = (q, p)" by fastforce
  have "seqs_le (pgSeqs d) q" using pg_run_seqs [OF run] assms(1) by (simp add: pg_inv_def)
  then show ?thesis using assms(2) run
    by (auto simp: pg_exec_def Let_def seqs_le_def split: option.splits sum.splits)
qed

lemma sh_keep_step:
  assumes "sh_inv s" "pg_exec fault now PoolConn st (shPg s) = (d, r)"
  shows "sh_inv (sh_keep d s)" "case r of Inl e \<Rightarrow> sh_at (sh_keep d s) = sh_at s \<and> (\<exists>m. e = LibError m)
      | Inr rows \<Rightarrow> we_may (sh_at s) (sh_at (sh_own True d s)) \<and> sql_effect st (pgTables (shPg s)) (pgTables d) rows"
proof -
  have inv: "pg_inv (shPg s)" "task_owners (pgTables (shPg s)) \<subseteq>\<^sub>m shOwner s"
    "covered_by (seqTasks (pgSeqs (shPg s))) (shOwner s)" using assms(1) by (simp_all add: sh_inv_def)
  note step = pg_exec_pool [OF inv(1) assms(2)]
  have tasks: "covered_by (seqTasks (pgSeqs d)) (tbTasks (pgTables d))"
    using step by (simp add: pg_inv_def covered_def)
  have "covered_by (seqTasks (pgSeqs d)) (shOwner s)"
    by (rule covered_by_mono [OF inv(3) pg_exec_seqs [OF inv(1) assms(2)]])
  then have "covered_by (seqTasks (pgSeqs d)) (shOwner s ++ task_owners (pgTables d))"
    using tasks by (auto simp: covered_by_def task_owners_def map_add_def split: option.splits)
  then show "sh_inv (sh_keep d s)"
    using step by (simp add: sh_inv_def sh_keep_def map_le_map_add)
  have fresh: "shOwner s i = None" if "tbTasks (pgTables (shPg s)) i = None" "tbTasks (pgTables d) i \<noteq> None" for i
    using pg_exec_new_task [OF assms(2) that] covered_by_fresh [OF inv(3)] by simp
  show "case r of Inl e \<Rightarrow> sh_at (sh_keep d s) = sh_at s \<and> (\<exists>m. e = LibError m)
      | Inr rows \<Rightarrow> we_may (sh_at s) (sh_at (sh_own True d s)) \<and> sql_effect st (pgTables (shPg s)) (pgTables d) rows"
  proof (cases r)
    case (Inl e)
    then show ?thesis using step inv(2) by (simp add: sh_at_def sh_keep_def map_add_known)
  next
    case (Inr rows)
    have "we_may (sh_at s) (sh_at (sh_own True d s))"
      using sh_inv_ok [OF assms(1)] fresh by (simp add: we_may_def sh_at_def sh_own_def sh_keep_def)
    then show ?thesis using Inr step by simp
  qed
qed

lemma sh_keep_allowed:
  assumes "sh_inv s" "pg_exec fault now PoolConn st (shPg s) = (d, r)"
  shows "others_may (sh_at s) (sh_at (sh_keep d s))"
proof (cases r)
  case (Inl e)
  then show ?thesis using sh_keep_step(2) [OF assms] sh_inv_ok [OF assms(1)] by (simp add: others_may_def)
next
  case (Inr rows)
  then show ?thesis using sh_keep_step(2) [OF assms] our_steps_are_allowed [of "sh_at s" "sh_at (sh_own True d s)" st rows]
    by (simp add: sh_at_def sh_own_def sh_keep_def)
qed

lemma others_may_trans: "others_may a b \<Longrightarrow> others_may b c \<Longrightarrow> others_may a c"
  unfolding others_may_def using map_le_trans by auto

lemma sh_run_allowed: "sh_inv s \<Longrightarrow> sh_inv (sh_run now sts s) \<and> others_may (sh_at s) (sh_at (sh_run now sts s))"
proof (induction sts arbitrary: s)
  case Nil
  then show ?case using sh_inv_ok by (simp add: others_may_def)
next
  case (Cons st sts)
  obtain d r where run: "pg_exec (\<lambda>_. None) now PoolConn st (shPg s) = (d, r)" by fastforce
  then show ?case using Cons.IH [OF sh_keep_step(1) [OF Cons.prems run]] sh_keep_allowed [OF Cons.prems run] others_may_trans
    by (simp add: sh_stmt_def)
qed

lemma sh_others_allowed:
  assumes "sh_inv s"
  shows "sh_inv (sh_others now s)" "others_may (sh_at s) (sh_at (sh_others now s))"
proof -
  have same: "sh_inv (s\<lparr>shOthers := later\<rparr>)" "sh_at (s\<lparr>shOthers := later\<rparr>) = sh_at s" for later
    using assms by (simp_all add: sh_inv_def sh_at_def)
  show "sh_inv (sh_others now s)" "others_may (sh_at s) (sh_at (sh_others now s))"
    using sh_run_allowed [OF same(1), of now] sh_run_allowed [OF assms, of now "[]"] assms
    by (auto simp: sh_others_def same(2) split: list.split)
qed

lemma sh_own_at [simp]: "sh_inv (sh_own written d s) = sh_inv (sh_keep d s)" "sh_at (sh_own False d s) = sh_at (sh_keep d s)"
  by (simp_all add: sh_inv_def sh_at_def sh_own_def sh_keep_def)

lemma sh_own_read:
  assumes "sh_inv s" "pgTables d = pgTables (shPg s)"
  shows "sh_at (sh_own False d s) = sh_at s"
  using assms by (simp add: sh_inv_def sh_at_def sh_own_def sh_keep_def map_add_known)

lemma sh_exec_during:
  assumes "sh_inv s" "pg_exec fault now PoolConn st (shPg (sh_others now s)) = (d, r)"
  shows "during others_may we_may (sh_at s) (sh_at (sh_own (wrote_through PoolConn st r) d (sh_others now s)))
    (\<lambda>a b. (\<forall>rows. r = Inr rows \<longrightarrow> sql_effect st (mTables a) (mTables b) rows)
       \<and> (if is_read st then b = a else carried_out we_may st r a b))"
proof -
  let ?s = "sh_others now s"
  let ?a = "sh_at ?s" and ?b = "sh_at (sh_own (wrote_through PoolConn st r) d ?s)"
  note before = sh_others_allowed [OF assms(1), of now]
  note step = sh_keep_step [OF before(1) assms(2)]
  have "moment_ok ?b" using sh_inv_ok [of "sh_own (wrote_through PoolConn st r) d ?s"] step(1) by simp
  then have after: "others_may ?b ?b" by (simp add: others_may_def)
  have tables: "mTables ?a = pgTables (shPg ?s)" "mTables ?b = pgTables d"
    by (simp_all add: sh_at_def sh_own_def sh_keep_def)
  consider (failed) e where "r = Inl e" | (read) rows where "r = Inr rows" "is_read st"
    | (stored) rows where "r = Inr rows" "\<not> is_read st" by (cases r) auto
  then show ?thesis
  proof cases
    case failed
    then have "?b = ?a" using step(2) by (simp add: wrote_through_def)
    then show ?thesis unfolding during_def
      using before(2) after failed by (intro exI [of _ ?a] exI [of _ ?b]) simp
  next
    case read
    then have effect: "sql_effect st (mTables ?a) (mTables ?b) rows" using step(2) tables by simp
    have "?b = ?a" using sh_own_read [OF before(1)] is_read_effect [OF read(2) effect] read tables by (simp add: wrote_through_def)
    then show ?thesis unfolding during_def
      using before(2) after read effect by (intro exI [of _ ?a] exI [of _ ?b]) (simp del: sql_effect.simps)
  next
    case stored
    then have "we_may ?a ?b" "sql_effect st (mTables ?a) (mTables ?b) rows" using step(2) tables by (simp_all add: wrote_through_def)
    then show ?thesis unfolding during_def
      using before(2) after stored by (intro exI [of _ ?a] exI [of _ ?b]) (auto simp del: sql_effect.simps)
  qed
qed

lemma sh_query_step:
  assumes "sh_inv s" "pg_query fault now PoolConn st (shPg (sh_others now s)) = (d, q)"
  shows "sh_inv (sh_own (wrote_through PoolConn st q) d (sh_others now s))"
    "during others_may we_may (sh_at s) (sh_at (sh_own (wrote_through PoolConn st q) d (sh_others now s)))
       (\<lambda>a b. if is_read st then b = a else carried_out we_may st q a b)"
proof -
  obtain d1 r where run: "pg_exec fault now PoolConn st (shPg (sh_others now s)) = (d1, r)" by fastforce
  have d: "d = d1 \<or> (\<exists>n. d = d1\<lparr>pgCalls := n\<rparr>)" and isl: "isl q \<longleftrightarrow> isl r"
    and out: "\<And>a b. carried_out we_may st r a b \<Longrightarrow> carried_out we_may st q a b"
    using assms(2) run by (auto simp: pg_query_def Let_def simp del: sql_effect.simps split: sum.splits option.splits)
  have same: "sh_at (sh_own (wrote_through PoolConn st q) d (sh_others now s)) = sh_at (sh_own (wrote_through PoolConn st r) d1 (sh_others now s))"
    "sh_inv (sh_own (wrote_through PoolConn st q) d (sh_others now s)) = sh_inv (sh_keep d1 (sh_others now s))"
    using d isl by (auto simp: sh_at_def sh_own_def sh_keep_def sh_inv_def wrote_through_def)
  show "sh_inv (sh_own (wrote_through PoolConn st q) d (sh_others now s))"
    using sh_keep_step(1) [OF sh_others_allowed(1) [OF assms(1)] run] same by simp
  show "during others_may we_may (sh_at s) (sh_at (sh_own (wrote_through PoolConn st q) d (sh_others now s)))
       (\<lambda>a b. if is_read st then b = a else carried_out we_may st q a b)"
    unfolding same by (rule during_mono [OF sh_exec_during [OF assms(1) run]]) (auto simp: out)
qed

interpretation shared_requests: shared_engine "shared_driver fault now" sh_inv sh_at others_may we_may for fault now
proof (unfold_locales, goal_cases)
  case (1 d)
  then show ?case using sh_inv_ok by (simp add: others_may_def)
next
  case (2 a b c)
  then show ?case by (rule others_may_trans)
next
  case (3 d a)
  then show ?case by (simp add: others_may_def)
next
  case (4 a b)
  then show ?case by (simp add: others_may_def)
next
  case (5 d st d' e)
  obtain p r where run: "pg_exec fault now PoolConn st (shPg (sh_others now d)) = (p, r)" by fastforce
  then show ?case using 5(2) sh_keep_step(2) [OF sh_others_allowed(1) [OF 5(1)] run]
    by (auto simp: shared_driver_def Let_def)
next
  case (6 d st d' r)
  then obtain p where run: "pg_exec fault now PoolConn st (shPg (sh_others now d)) = (p, r)"
    "d' = sh_own (wrote_through PoolConn st r) p (sh_others now d)"
    by (auto simp: shared_driver_def Let_def split: prod.splits)
  show ?case unfolding run(2) sh_own_at(1)
    by (rule conjI [OF sh_keep_step(1) [OF sh_others_allowed(1) [OF 6(1)] run(1)] sh_exec_during [OF 6(1) run(1)]])
next
  case (7 d st d' q)
  then obtain p where run: "pg_query fault now PoolConn st (shPg (sh_others now d)) = (p, q)"
    "d' = sh_own (wrote_through PoolConn st q) p (sh_others now d)"
    by (auto simp: shared_driver_def Let_def split: prod.splits)
  show ?case unfolding run(2) by (rule conjI [OF sh_query_step [OF 7(1) run(1)]])
qed

lemma vanished_mono:
  assumes "owner \<subseteq>\<^sub>m owner'" "vanished owner ep who r T"
  shows "vanished owner' ep who r T"
  using assms unfolding vanished_def by (force simp: map_le_def)

text \<open>C4: Requests that interleave with anything that others may do still answer for what they did.  A request, of any
  endpoint but the transfers, enters at most one write into the log of the server's own writes, and only if its
  endpoint is one that writes.  That write was what the request asked for, in the name of its session's
  user, whose tasks are the only ones it touched; or it found the task of a \<^verbatim>\<open>PUT\<close> or \<^verbatim>\<open>DELETE\<close> deleted in the
  meantime, and changed nothing.  A status from 400 to 499 means that there was no write, and one below 400 of a writing
  request that there was one.\<close>

theorem requests_among_others:
  assumes "shared_engine D ok at others_may we_may" "ok (wDb w)" "on_postgres D A"
    and "session_store (appAuth A) rinv live" "rinv (wRedis w)" "cnSent (wConn w) = None"
    and "routed r = Some (ep, bs)" "ep \<noteq> EpTransferCreate"
    and "w' = mux_serve A r w" "status = final_status (wConn w')" "who = session_user A live r w"
  shows "\<exists>L. mLog (at (wDb w')) = mLog (at (wDb w)) @ L \<and> length L \<le> 1 \<and> (\<not> writing ep \<longrightarrow> L = [])
    \<and> (\<forall>(T, T') \<in> set L.
         (performed A ep who (with_path bs r) T T' \<or> (T' = T \<and> vanished (mOwner (at (wDb w'))) ep who (with_path bs r) T))
         \<and> (\<forall>i t. tbTasks T i = Some t \<and> who \<noteq> Some (tUserID t) \<longrightarrow> tbTasks T' i = Some t))
    \<and> (400 \<le> status \<and> status < 500 \<longrightarrow> L = [])
    \<and> (status < 400 \<and> writing ep \<longrightarrow> L \<noteq> [])"
proof -
  let ?r = "with_path bs r"
  have user: "session_user A live ?r w = who"
    using assms(11) by (simp add: session_user_def with_path_def)
  have w': "w' = endpoint_serve ep A ?r w" using assms(7,9) by (simp add: mux_serve_routed)
  have "answers ok at others_may we_may A ep who ?r w w'"
    using shared_engine.endpoint_answers [OF assms(1,3,2,4,5,8), of ?r] unfolding user w' .
  then have "during others_may we_may (at (wDb w)) (at (wDb w')) (\<lambda>a b. says status (made we_may A ep who ?r a b) (b = a))"
    using assms(6,10) by (simp add: answers_def)
  then obtain a b :: moment where ab: "others_may (at (wDb w)) a" "b = a \<or> we_may a b" "others_may b (at (wDb w'))"
    "says status (made we_may A ep who ?r a b) (b = a)" unfolding during_def by blast
  have log: "mLog a = mLog (at (wDb w))" "mLog (at (wDb w')) = mLog b" "mOwner b \<subseteq>\<^sub>m mOwner (at (wDb w'))"
    using ab(1,3) by (simp_all add: others_may_def)
  show ?thesis
  proof (cases "b = a")
    case True
    then have "\<not> we_may a b" by (simp add: we_may_def)
    then show ?thesis using True ab(4) log by (intro exI [of _ "[]"]) (auto simp: says_def made_def)
  next
    case False
    then have we: "we_may a b" "writing ep" "attempted A ep who ?r a b" "\<not> (400 \<le> status \<and> status < 500)"
      using ab(2,4) by (auto simp: says_def made_def split: if_splits)
    have "mOwner a \<subseteq>\<^sub>m mOwner (at (wDb w'))" if "mTables b = mTables a"
      using that we(1) log(3) by (simp add: we_may_def moment_ok_def map_add_known)
    then have "performed A ep who ?r (mTables a) (mTables b)
      \<or> (mTables b = mTables a \<and> vanished (mOwner (at (wDb w'))) ep who ?r (mTables a))"
      using we(3) vanished_mono unfolding attempted_def by blast
    moreover have "request_change who (transfer_request ?r) (mTables a) (mTables b)"
      using we(3) by (auto simp: attempted_def intro: no_change dest: performed_change)
    then have "tbTasks (mTables b) i = Some t" if "tbTasks (mTables a) i = Some t" "who \<noteq> Some (tUserID t)" for i t
      using request_change_task that by blast
    ultimately show ?thesis using we log by (intro exI [of _ "[(mTables a, mTables b)]"]) (simp add: we_may_def)
  qed
qed

definition shared_app :: "(shared, rd, audit_record list, int) app" where
  "shared_app = (let D = shared_driver no_fault int in
     \<lparr>appUsers = PgUserRepo D, appTasks = PgTaskRepo D, appAccounts = PgAccountRepo D, appTransfers = PgTransferRepo D,
      appDriver = D, appAuth = appAuth demo_app, appRateLimit = appRateLimit demo_app, appAudit = appAudit demo_app,
      appBcrypt = demo_bcrypt, appCount = appCount demo_app, appFloat = appFloat demo_app, appFinite = appFinite demo_app,
      appClock = int, appRandom = appRandom demo_app, appSalt = appSalt demo_app, appIsPrint = appIsPrint demo_app,
      appParseTime = appParseTime demo_app, appJsonText = appJsonText demo_app, appRedirect = appRedirect demo_app\<rparr>)"

definition shared_world :: "sql_stmt list list \<Rightarrow> (shared, rd, audit_record list, int) world" where
  "shared_world others = \<lparr>wDb = \<lparr>shPg = pg_demo, shOthers = others, shOwner = task_owners (pgTables pg_demo), shLog = []\<rparr>,
     wRedis = wRedis demo_world, wAudit = [], wConn = fresh_conn, wWriters = [], wLog = [], wTick = 0, wDraw = 0\<rparr>"

lemma shared_demo [simp]:
  "on_postgres (shared_driver no_fault int) shared_app" "sh_inv (wDb (shared_world others))"
  "wConn (shared_world others) = fresh_conn" "appAuth shared_app = appAuth demo_app"
  "session_user shared_app rd_live (demo_http m path (Some ''abc'') body) (shared_world others) = Some 1"
proof -
  show "sh_inv (wDb (shared_world others))"
    using pg_demo_inv by (auto simp: sh_inv_def shared_world_def pg_demo_def task_owners_def covered_by_def no_tables_def pg_empty_def split: if_splits)
qed (simp_all add: on_postgres_def shared_app_def Let_def shared_world_def session_user_def session_of_def redis_manager_def rd_live_def rd_put_def)

lemma requests_among_others_witness:
  "let w = shared_world [[InsertTask 2 ''read'' [] TaskStatusTodo], [], [UpdateTaskRow ''rest'' [] TaskStatusDone 1]];
       r = demo_http ''DELETE'' ''/tasks/1'' (Some ''abc'') (Inl (Malformed ''EOF'')); w' = mux_serve shared_app r w in
   \<exists>L. mLog (sh_at (wDb w')) = L \<and> length L \<le> 1 \<and> (final_status (wConn w') < 400 \<longrightarrow> L \<noteq> [])
     \<and> (\<forall>(T, T') \<in> set L. performed shared_app EpTaskDelete (Some 1) (with_path [(''id'', ''1'')] r) T T'
          \<or> (T' = T \<and> vanished (mOwner (sh_at (wDb w'))) EpTaskDelete (Some 1) (with_path [(''id'', ''1'')] r) T))"
proof -
  let ?r = "demo_http ''DELETE'' ''/tasks/1'' (Some ''abc'') (Inl (Malformed ''EOF''))"
  let ?w = "shared_world [[InsertTask 2 ''read'' [] TaskStatusTodo], [], [UpdateTaskRow ''rest'' [] TaskStatusDone 1]]"
  have "canonical_path ''/tasks/1''" by code_simp
  moreover have "mux_match ''DELETE'' (path_segments ''/tasks/1'') = Some (EpTaskDelete, [(''id'', ''1'')])" by code_simp
  ultimately have routed: "routed ?r = Some (EpTaskDelete, [(''id'', ''1'')])" by (simp add: routed_def)
  have "session_store (appAuth shared_app) (\<lambda>_. True) rd_live" "cnSent (wConn ?w) = None" "EpTaskDelete \<noteq> EpTransferCreate"
    using demo_sessions by (simp_all add: fresh_conn_def)
  from requests_among_others [OF shared_requests.shared_engine_axioms shared_demo(2,1) this(1) TrueI this(2) routed this(3) refl refl refl]
  moreover have "mLog (sh_at (wDb ?w)) = []" by (simp add: shared_world_def sh_at_def)
  ultimately show ?thesis unfolding Let_def shared_demo(5) by auto
qed

section \<open>Where the checks come too early\<close>

lemma shared_driver_sel [simp]:
  "dbExec (shared_driver fault now) h st s =
     (case pg_exec fault now h st (shPg (sh_others now s)) of (d, r) \<Rightarrow> (sh_own (wrote_through h st r) d (sh_others now s), r))"
  by (simp add: shared_driver_def Let_def)

lemma shared_app_sel [simp]:
  "appTasks shared_app = PgTaskRepo (shared_driver no_fault int)" "appUsers shared_app = PgUserRepo (shared_driver no_fault int)"
  "appBcrypt shared_app = demo_bcrypt" "appIsPrint shared_app = appIsPrint demo_app"
  by (simp_all add: shared_app_def Let_def)

text \<open>What a batch of statements of others does to the server, and a read of ours before which the others do nothing.\<close>

primrec pg_others :: "(nat \<Rightarrow> gotime) \<Rightarrow> sql_stmt list \<Rightarrow> pg \<Rightarrow> pg" where
  "pg_others now [] d = d"
| "pg_others now (st # sts) d = pg_others now sts (fst (pg_exec no_fault now PoolConn st d))"

definition reads_done :: "nat \<Rightarrow> pg \<Rightarrow> pg" where
  "reads_done n d = d\<lparr>pgCalls := pgCalls d + n\<rparr>"

definition after_read :: "sql_stmt list list \<Rightarrow> shared \<Rightarrow> shared" where
  "after_read later s = s\<lparr>shPg := reads_done 1 (shPg s), shOthers := later\<rparr>"

lemma reads_done_sel [simp]:
  "pgTables (reads_done n d) = pgTables d" "pgSeqs (reads_done n d) = pgSeqs d" "pg_inv (reads_done n d) = pg_inv d"
  "reads_done m (reads_done n d) = reads_done (n + m) d"
  by (simp_all add: reads_done_def)

lemma after_read_sel [simp]:
  "shPg (after_read later s) = reads_done 1 (shPg s)" "shOthers (after_read later s) = later" "shLog (after_read later s) = shLog s"
  "sh_inv (after_read later s) = sh_inv s"
  by (simp_all add: after_read_def sh_inv_def)

lemma sh_run_pg:
  "shPg (sh_run now sts s) = pg_others now sts (shPg s)" "shOthers (sh_run now sts s) = shOthers s" "shLog (sh_run now sts s) = shLog s"
  by (induction sts arbitrary: s) (simp_all add: sh_stmt_def sh_keep_def split_beta)

lemma shared_read:
  assumes "sh_inv s" "shOthers s = [] # later"
    and "pg_run (now (pgCalls (shPg s))) st (pgSeqs (shPg s)) (pgTables (shPg s)) = (pgSeqs (shPg s), Inr (pgTables (shPg s), rows))"
    and "is_read st"
  shows "dbExec (shared_driver no_fault now) PoolConn st s = (after_read later s, Inr rows)"
proof -
  have "shOwner s ++ task_owners (pgTables (shPg s)) = shOwner s" using assms(1) by (simp add: sh_inv_def map_add_known)
  then show ?thesis using assms(2-4)
    by (cases s; cases "shPg s") (simp add: sh_others_def pg_exec_def wrote_through_def sh_own_def sh_keep_def after_read_def
        reads_done_def Let_def)
qed

text \<open>The write of ours, before which the others run \<open>sts\<close>.\<close>

lemma shared_write:
  assumes "shOthers s = sts # later" "pg_exec no_fault now PoolConn st (pg_others now sts (shPg s)) = (d, r)"
  obtains s' where "dbExec (shared_driver no_fault now) PoolConn st s = (s', r)" "shPg s' = d"
proof -
  have "shPg (sh_others now s) = pg_others now sts (shPg s)" using assms(1) by (simp add: sh_others_def sh_run_pg)
  then show ?thesis using assms(2) by (intro that) (simp_all, simp add: sh_own_def sh_keep_def)
qed

lemma shared_get_task:
  assumes "sh_inv s" "shOthers s = [] # later" "tbTasks (pgTables (shPg s)) i = Some t"
  shows "TaskService_GetByID (PgTaskRepo (shared_driver no_fault now)) background i s = (after_read later s, Inr t)"
  using shared_read [OF assms(1,2), of now "SelectTaskByID i" "[TaskRow t]"] assms(3)
  by (simp add: TaskService_GetByID_def PgTaskRepo_GetByID_def query_row_def del: shared_driver_sel)

lemma shared_no_email:
  assumes "sh_inv s" "shOthers s = [] # later" "\<forall>u \<in> ran (tbUsers (pgTables (shPg s))). uEmail u \<noteq> email"
  shows "PgUserRepo_GetByEmail (shared_driver no_fault now) background email s = (after_read later s, Inl ErrNoRows)"
proof -
  have "set (rows_upto (seqUsers (pgSeqs (shPg s))) (tbUsers (pgTables (shPg s)))) = ran (tbUsers (pgTables (shPg s)))"
    using assms(1) by (intro set_rows_upto) (simp add: sh_inv_def pg_inv_def covered_def)
  then have "filter (\<lambda>u. uEmail u = email) (rows_upto (seqUsers (pgSeqs (shPg s))) (tbUsers (pgTables (shPg s)))) = []"
    using assms(3) by (auto simp: filter_empty_conv)
  then show ?thesis using shared_read [OF assms(1,2), of now "SelectUserByEmail email" "[]"]
    by (simp add: PgUserRepo_GetByEmail_def scan_user_def query_row_def del: shared_driver_sel)
qed

lemma pg_others_inv: "pg_inv d \<Longrightarrow> pg_inv (pg_others now sts d)"
proof (induction sts arbitrary: d)
  case (Cons st sts)
  then show ?case using pg_exec_pool [of d no_fault now st "fst (pg_exec no_fault now PoolConn st d)"
        "snd (pg_exec no_fault now PoolConn st d)"] by simp
qed simp

lemma shared_update_lost:
  assumes "shOthers s = sts # later" "tbTasks (pgTables (pg_others now sts (shPg s))) (tID t) = None"
  obtains s' where "PgTaskRepo_Update (shared_driver no_fault now) background t s = (s', Inr t)"
    "pgTables (shPg s') = pgTables (pg_others now sts (shPg s))"
proof -
  obtain d r where run: "pg_exec no_fault now PoolConn (UpdateTaskRow (tTitle t) (tDescription t) (tStatus t) (tID t))
      (pg_others now sts (shPg s)) = (d, r)" by fastforce
  then have "r = Inr []" "pgTables d = pgTables (pg_others now sts (shPg s))"
    using assms(2) by (auto simp: pg_exec_def Let_def)
  with that shared_write [OF assms(1) run] show ?thesis
    by (metis (no_types, lifting) Conn_simps(1) PgTaskRepo_Update_def case_prod_conv sum.case(2))
qed

lemma shared_insert_refused:
  assumes "shOthers s = sts # later" "sh_inv s" "u \<in> ran (tbUsers (pgTables (pg_others now sts (shPg s))))"
  obtains s' m where "dbExec (shared_driver no_fault now) PoolConn (InsertUser (uEmail u) name pw) s = (s', Inl (LibError m))"
    "pgTables (shPg s') = pgTables (pg_others now sts (shPg s))"
proof -
  let ?d = "pg_others now sts (shPg s)"
  have "pg_inv ?d" using pg_others_inv assms(2) by (simp add: sh_inv_def)
  then have "find (\<lambda>v. uEmail v = uEmail u) (rows_upto (seqUsers (pgSeqs ?d)) (tbUsers (pgTables ?d))) \<noteq> None"
    using assms(3) set_rows_upto [of "seqUsers (pgSeqs ?d)" "tbUsers (pgTables ?d)"]
    by (auto simp: find_None_iff pg_inv_def covered_def)
  then have "\<exists>q m. pg_run (now (pgCalls ?d)) (InsertUser (uEmail u) name pw) (pgSeqs ?d) (pgTables ?d) = (q, Inl m)"
    by (cases "max_seq \<le> seqUsers (pgSeqs ?d)") (simp_all add: Let_def)
  then obtain q m where "pg_run (now (pgCalls ?d)) (InsertUser (uEmail u) name pw) (pgSeqs ?d) (pgTables ?d) = (q, Inl m)" by blast
  then have "pg_exec no_fault now PoolConn (InsertUser (uEmail u) name pw) ?d = (?d\<lparr>pgCalls := Suc (pgCalls ?d), pgSeqs := q\<rparr>, Inl (LibError m))"
    by (simp add: pg_exec_def Let_def del: pg_run.simps)
  from shared_write [OF assms(1) this] that show ?thesis by (metis pg.select_convs(1) pg.surjective pg.update_convs(4,5))
qed

lemma put_race:
  assumes "appTasks A = PgTaskRepo (shared_driver no_fault now)" "sh_inv (wDb w)"
    and "currentUser r = Some u" "pathInt64 r ''id'' = (i, None)" "decodeTask A r = Inr t"
    and "valid_task (clean_task (t\<lparr>tID := i, tUserID := uID u\<rparr>))"
    and "tbTasks (pgTables (shPg (wDb w))) i = Some old" "tUserID old = uID u"
    and "shOthers (wDb w) = [] # [] # sts # later" "tbTasks (pgTables (pg_others now sts (reads_done 2 (shPg (wDb w))))) i = None"
  shows "pgTables (shPg (wDb (handleTaskUpdate A r w))) = pgTables (pg_others now sts (reads_done 2 (shPg (wDb w))))
    \<and> (cnSent (wConn w) = None \<longrightarrow> final_status (wConn (handleTaskUpdate A r w)) = 200)"
proof -
  let ?D = "shared_driver no_fault now" and ?t = "t\<lparr>tID := i, tUserID := uID u\<rparr>"
  let ?s1 = "after_read ([] # sts # later) (wDb w)"
  let ?s2 = "after_read (sts # later) ?s1"
  have "covered_by (seqTasks (pgSeqs (shPg (wDb w)))) (tbTasks (pgTables (shPg (wDb w))))"
    using assms(2) by (simp add: sh_inv_def pg_inv_def covered_def)
  then have i: "i \<noteq> 0" using assms(7) by (auto simp: covered_by_def)
  have first: "TaskService_GetByID (PgTaskRepo ?D) background i (wDb w) = (?s1, Inr old)"
    by (rule shared_get_task [OF assms(2,9,7)])
  have second: "TaskService_GetByID (PgTaskRepo ?D) background i ?s1 = (?s2, Inr old)"
    by (rule shared_get_task) (use assms(2,7) in simp_all)
  obtain s' where lost: "PgTaskRepo_Update ?D background (clean_task ?t) ?s2 = (s', Inr (clean_task ?t))"
    "pgTables (shPg s') = pgTables (pg_others now sts (reads_done 2 (shPg (wDb w))))"
    using shared_update_lost [of ?s2 sts later now "clean_task ?t"] assms(10) by (auto simp: numeral_2_eq_2)
  have "validateTask ?t = (clean_task ?t, None)"
    using assms(6) by (cases ?t rule: validateTask_cases) simp_all
  then have "TaskService_Update (PgTaskRepo ?D) background ?t ?s1 = (s', Inr (clean_task ?t))"
    using second lost(1) i by (simp add: TaskService_Update_def)
  then have "handleTaskUpdate A r w = respondJSON A 200 (PTask (clean_task ?t)) (w\<lparr>wDb := s'\<rparr>)"
    using assms(1,3-5,8) first by (simp add: handleTaskUpdate_def taskForUser_def on_db_eq)
  then show ?thesis using respondJSON_status(1) [of "w\<lparr>wDb := s'\<rparr>" A 200] lost(2) by simp
qed

lemma register_race:
  assumes "appUsers A = PgUserRepo (shared_driver no_fault now)" "bcrypt_ok (appBcrypt A)" "sh_inv (wDb w)"
    and "decodeJSONBody A ''web.registerRequest'' register_fields \<lparr>rrEmail = [], rrName = [], rrPassword = []\<rparr> r = Inr req"
    and "u = \<lparr>uID = 0, uEmail = rrEmail req, uName = rrName req, uPassword = rrPassword req,
             uCreatedAt = zero_time, uUpdatedAt = zero_time\<rparr>"
    and "valid_user (clean_user u)" "8 \<le> length (rrPassword req)"
    and "GenerateFromPassword (appBcrypt A) (appSalt A (wDraw w)) (rrPassword req) = Inr hash"
    and "\<forall>v \<in> ran (tbUsers (pgTables (shPg (wDb w)))). uEmail v \<noteq> TrimSpace (rrEmail req)"
    and "shOthers (wDb w) = [] # sts # later"
    and "\<exists>v \<in> ran (tbUsers (pgTables (pg_others now sts (reads_done 1 (shPg (wDb w)))))). uEmail v = TrimSpace (rrEmail req)"
  shows "pgTables (shPg (wDb (handleAuthRegister A r w))) = pgTables (pg_others now sts (reads_done 1 (shPg (wDb w))))
    \<and> (cnSent (wConn w) = None \<longrightarrow> final_status (wConn (handleAuthRegister A r w)) = 500)"
proof -
  let ?D = "shared_driver no_fault now" and ?email = "TrimSpace (rrEmail req)"
  let ?v = "(clean_user u)\<lparr>uPassword := hash\<rparr>" and ?s1 = "after_read (sts # later) (wDb w)"
  have v: "validateRegistration u = (clean_user u, None)" "validateUser ?v = (?v, None)"
    using assms(5-7) by (cases u rule: validateRegistration_cases, simp_all)
      (use assms(6) bcrypt_ok_hash [OF assms(2,8)] in \<open>cases ?v rule: validateUser_cases; simp add: clean_user_password valid_user_password\<close>)
  obtain e where e: "e \<in> ran (tbUsers (pgTables (pg_others now sts (shPg ?s1))))" "uEmail e = ?email" using assms(11) by auto
  obtain s' m where refused: "dbExec ?D PoolConn (InsertUser ?email (uName ?v) hash) ?s1 = (s', Inl (LibError m))"
    "pgTables (shPg s') = pgTables (pg_others now sts (reads_done 1 (shPg (wDb w))))"
    by (rule shared_insert_refused [of ?s1 sts later e now "uName ?v" hash, OF _ _ e(1), unfolded e(2)]) (use assms(3) in auto)
  have "UserService_Register (appBcrypt A) (PgUserRepo ?D) (appSalt A (wDraw w)) background u (wDb w)
      = (s', Inl (WrapError ''create user'' (LibError m)))"
    using v assms(5,8) shared_no_email [OF assms(3,10,9)] refused(1)
    by (simp add: UserService_Register_def UserService_Create_def PgUserRepo_Create_def query_row_def del: shared_driver_sel)
  then have run: "handleAuthRegister A r w = handleServiceError A (WrapError ''create user'' (LibError m)) (w\<lparr>wDraw := Suc (wDraw w), wDb := s'\<rparr>)"
    using assms(1,4,5) by (simp add: handleAuthRegister_def on_db_eq Let_def)
  obtain msg w2 where "handleServiceError A (WrapError ''create user'' (LibError m)) (w\<lparr>wDraw := Suc (wDraw w), wDb := s'\<rparr>)
      = respondError A 500 msg w2" "wConn w2 = wConn w"
    using handleServiceError_respond [of A "WrapError ''create user'' (LibError m)" "w\<lparr>wDraw := Suc (wDraw w), wDb := s'\<rparr>"]
    by (auto simp: error_status_def)
  moreover have "wDb (handleAuthRegister A r w) = s'" using run by simp
  ultimately show ?thesis using run refused(2) respondError_status(1) [of w2 A 500 msg] by simp
qed

text \<open>C30: A check before a write does not bind the write, whatever the state, the request and the statements \<open>sts\<close> that
  others run between the two.  A \<^verbatim>\<open>PUT\<close> of a valid task, whose owner has been checked, answers 200 and stores
  nothing if the task is gone after them.  A valid registration whose email was free at the check
  answers 500, not 409, if the email is taken after them.  Nothing else fails.\<close>

theorem checks_come_too_early:
  assumes "appTasks A = PgTaskRepo (shared_driver no_fault now)" "appUsers A = PgUserRepo (shared_driver no_fault now)" "bcrypt_ok (appBcrypt A)"
    and "sh_inv (wDb w)" "cnSent (wConn w) = None" "d = shPg (wDb w)"
  shows "(\<forall>r u i t old sts later.
      currentUser r = Some u \<and> pathInt64 r ''id'' = (i, None) \<and> decodeTask A r = Inr t
      \<and> valid_task (clean_task (t\<lparr>tID := i, tUserID := uID u\<rparr>)) \<and> tbTasks (pgTables d) i = Some old \<and> tUserID old = uID u
      \<and> shOthers (wDb w) = [] # [] # sts # later \<and> tbTasks (pgTables (pg_others now sts (reads_done 2 d))) i = None
      \<longrightarrow> final_status (wConn (handleTaskUpdate A r w)) = 200
        \<and> pgTables (shPg (wDb (handleTaskUpdate A r w))) = pgTables (pg_others now sts (reads_done 2 d)))
    \<and> (\<forall>r req u hash sts later.
      decodeJSONBody A ''web.registerRequest'' register_fields \<lparr>rrEmail = [], rrName = [], rrPassword = []\<rparr> r = Inr req
      \<and> u = \<lparr>uID = 0, uEmail = rrEmail req, uName = rrName req, uPassword = rrPassword req,
             uCreatedAt = zero_time, uUpdatedAt = zero_time\<rparr>
      \<and> valid_user (clean_user u) \<and> 8 \<le> length (rrPassword req)
      \<and> GenerateFromPassword (appBcrypt A) (appSalt A (wDraw w)) (rrPassword req) = Inr hash
      \<and> (\<forall>v \<in> ran (tbUsers (pgTables d)). uEmail v \<noteq> TrimSpace (rrEmail req))
      \<and> shOthers (wDb w) = [] # sts # later
      \<and> (\<exists>v \<in> ran (tbUsers (pgTables (pg_others now sts (reads_done 1 d)))). uEmail v = TrimSpace (rrEmail req))
      \<longrightarrow> final_status (wConn (handleAuthRegister A r w)) = 500
        \<and> pgTables (shPg (wDb (handleAuthRegister A r w))) = pgTables (pg_others now sts (reads_done 1 d)))"
proof (intro conjI allI impI; elim conjE)
  fix r u i t old sts later
  assume user: "currentUser r = Some u" and path: "pathInt64 r ''id'' = (i, None)" and body: "decodeTask A r = Inr t"
    and valid: "valid_task (clean_task (t\<lparr>tID := i, tUserID := uID u\<rparr>))" and old: "tbTasks (pgTables d) i = Some old" "tUserID old = uID u"
    and others: "shOthers (wDb w) = [] # [] # sts # later" and gone: "tbTasks (pgTables (pg_others now sts (reads_done 2 d))) i = None"
  from put_race [OF assms(1,4) user path body valid old [unfolded assms(6)] others gone [unfolded assms(6)]] assms(5,6)
  show "final_status (wConn (handleTaskUpdate A r w)) = 200"
    "pgTables (shPg (wDb (handleTaskUpdate A r w))) = pgTables (pg_others now sts (reads_done 2 d))" by simp_all
next
  fix r req u hash sts later
  assume body: "decodeJSONBody A ''web.registerRequest'' register_fields \<lparr>rrEmail = [], rrName = [], rrPassword = []\<rparr> r = Inr req"
    and u: "u = \<lparr>uID = 0, uEmail = rrEmail req, uName = rrName req, uPassword = rrPassword req,
             uCreatedAt = zero_time, uUpdatedAt = zero_time\<rparr>"
    and valid: "valid_user (clean_user u)" "8 \<le> length (rrPassword req)"
    and hash: "GenerateFromPassword (appBcrypt A) (appSalt A (wDraw w)) (rrPassword req) = Inr hash"
    and unused: "\<forall>v \<in> ran (tbUsers (pgTables d)). uEmail v \<noteq> TrimSpace (rrEmail req)"
    and others: "shOthers (wDb w) = [] # sts # later"
    and taken: "\<exists>v \<in> ran (tbUsers (pgTables (pg_others now sts (reads_done 1 d)))). uEmail v = TrimSpace (rrEmail req)"
  from register_race [OF assms(2-4) body u valid hash unused [unfolded assms(6)] others taken [unfolded assms(6)]] assms(5,6)
  show "final_status (wConn (handleAuthRegister A r w)) = 500"
    "pgTables (shPg (wDb (handleAuthRegister A r w))) = pgTables (pg_others now sts (reads_done 1 d))" by simp_all
qed

definition put_done :: request where
  "put_done = (demo_http ''PUT'' ''/tasks/1'' (Some ''abc'')
     (Inr (VObj [(''title'', VStr ''write''), (''status'', VStr ''done'')])))
     \<lparr>rqUser := Some \<lparr>uID = 1, uEmail = ''a@x.io'', uName = ''Ann'', uPassword = [], uCreatedAt = 0, uUpdatedAt = 0\<rparr>,
      rqPathValue := (\<lambda>_. ''1'')\<rparr>"

lemma put_done_decoded: "decodeTask shared_app put_done = Inr (zero_task\<lparr>tTitle := ''write'', tStatus := ''done''\<rparr>)"
  by (simp add: decodeTask_def put_done_def demo_http_def decodeJSONBody_def decode_struct_def task_fields_def find_field_def
      set_string_def)

lemma put_done_path: "pathInt64 put_done ''id'' = (1, None)"
proof -
  have "ParseInt ''1'' = (1, None)"
    by (simp add: ParseInt_def strip_sign_def parse_uint_def digit_val_def uint64_cutoff_def)
  then show ?thesis by (simp add: pathInt64_def put_done_def)
qed

definition register_cid :: request where
  "register_cid = demo_http ''POST'' ''/auth/register'' None
     (Inr (VObj [(''email'', VStr ''c@x.io''), (''name'', VStr ''Cid''), (''password'', VStr ''12345678'')]))"

lemma register_cid_decoded:
  "decodeJSONBody shared_app ''web.registerRequest'' register_fields \<lparr>rrEmail = [], rrName = [], rrPassword = []\<rparr> register_cid
     = Inr \<lparr>rrEmail = ''c@x.io'', rrName = ''Cid'', rrPassword = ''12345678''\<rparr>"
  by (simp add: register_cid_def decodeJSONBody_def decode_struct_def register_fields_def find_field_def set_string_def)

lemma demo_delete_race:
  "tbTasks (pgTables (pg_others now [DeleteTaskRow 1] (reads_done 2 pg_demo))) 1 = None"
  by (simp add: pg_exec_def Let_def reads_done_def pg_demo_def pg_empty_def)

lemma demo_insert_race:
  "\<exists>v \<in> ran (tbUsers (pgTables (pg_others int [InsertUser ''c@x.io'' ''Eve'' ''#12345678''] (reads_done 1 pg_demo)))). uEmail v = ''c@x.io''"
proof -
  have "\<exists>v. tbUsers (pgTables (pg_others int [InsertUser ''c@x.io'' ''Eve'' ''#12345678''] (reads_done 1 pg_demo))) 3 = Some v \<and> uEmail v = ''c@x.io''"
    by (simp add: pg_exec_def Let_def reads_done_def pg_demo_def pg_empty_def no_tables_def max_seq_def rows_upto_eval)
  then show ?thesis by (auto simp: ran_def)
qed

lemma checks_come_too_early_witness:
  "final_status (wConn (handleTaskUpdate shared_app put_done (shared_world [[], [], [DeleteTaskRow 1]]))) = 200
   \<and> tbTasks (pgTables (shPg (wDb (handleTaskUpdate shared_app put_done (shared_world [[], [], [DeleteTaskRow 1]]))))) 1 = None
   \<and> final_status (wConn (handleAuthRegister shared_app register_cid
        (shared_world [[], [InsertUser ''c@x.io'' ''Eve'' ''#12345678'']]))) = 500"
proof -
  let ?w = "shared_world [[], [], [DeleteTaskRow 1]]" and ?w' = "shared_world [[], [InsertUser ''c@x.io'' ''Eve'' ''#12345678'']]"
  have bcrypt: "bcrypt_ok (appBcrypt shared_app)" by simp
  have unsent: "cnSent (wConn (shared_world others)) = None" for others by (simp add: fresh_conn_def)
  have pg: "pg_demo = shPg (wDb (shared_world others))" for others by (simp add: shared_world_def)
  have user: "currentUser put_done = Some \<lparr>uID = 1, uEmail = ''a@x.io'', uName = ''Ann'', uPassword = [], uCreatedAt = 0, uUpdatedAt = 0\<rparr>"
    by (simp add: put_done_def currentUser_def)
  have valid: "valid_task (clean_task ((zero_task\<lparr>tTitle := ''write'', tStatus := ''done''\<rparr>)\<lparr>tID := 1, tUserID := 1\<rparr>))"
    by (simp add: valid_task_def clean_task_def zero_task_def isValidStatus_def trim_eval task_status_defs)
  have "tbTasks (pgTables pg_demo) 1 = Some \<lparr>tID = 1, tUserID = 1, tTitle = ''write'', tDescription = [], tStatus = TaskStatusTodo,
      tCreatedAt = 0, tUpdatedAt = 0\<rparr>" by (simp add: pg_demo_def)
  from checks_come_too_early [OF shared_app_sel(1,2) bcrypt shared_demo(2) unsent pg, of "[[], [], [DeleteTaskRow 1]]"]
    user put_done_path put_done_decoded valid this demo_delete_race
  have put: "final_status (wConn (handleTaskUpdate shared_app put_done ?w)) = 200"
    "tbTasks (pgTables (shPg (wDb (handleTaskUpdate shared_app put_done ?w)))) 1 = None"
    by (auto simp: shared_world_def)
  let ?u = "\<lparr>uID = 0, uEmail = ''c@x.io'', uName = ''Cid'', uPassword = ''12345678'', uCreatedAt = zero_time, uUpdatedAt = zero_time\<rparr>"
  have "TrimSpace ''c@x.io'' = ''c@x.io''" by (simp add: trim_eval)
  moreover have "valid_user (clean_user ?u)" by (simp add: valid_user_def clean_user_def trim_eval Contains_char_def)
  moreover have "GenerateFromPassword (appBcrypt shared_app) salt ''12345678'' = Inr ''#12345678''" for salt by (simp add: demo_bcrypt_def)
  moreover have "\<forall>v \<in> ran (tbUsers (pgTables pg_demo)). uEmail v \<noteq> ''c@x.io''" by (auto simp: pg_demo_def ran_def split: if_splits)
  moreover have "shOthers (wDb ?w') = [] # [InsertUser ''c@x.io'' ''Eve'' ''#12345678''] # []" by (simp add: shared_world_def)
  ultimately have "final_status (wConn (handleAuthRegister shared_app register_cid ?w')) = 500"
    using conjunct2 [OF checks_come_too_early [OF shared_app_sel(1,2) bcrypt shared_demo(2) unsent pg], rule_format,
        of register_cid "\<lparr>rrEmail = ''c@x.io'', rrName = ''Cid'', rrPassword = ''12345678''\<rparr>" ?u
        "[[], [InsertUser ''c@x.io'' ''Eve'' ''#12345678'']]" "''#12345678''" "[InsertUser ''c@x.io'' ''Eve'' ''#12345678'']" "[]"]
      register_cid_decoded demo_insert_race by simp
  with put show ?thesis by simp
qed

end
