(* ===== verification/Go_Duration.thy ===== *)
theory Go_Duration
  imports Go_Strconv Go_Strings
begin

text \<open>
  \<^verbatim>\<open>time.ParseDuration\<close>: a sign, then numbers with units, each with an optional
  fraction.  The accumulators are \<^verbatim>\<open>uint64\<close>, so that a sum of exactly \<open>2 ^ 64\<close> wraps
  to zero as it does in Go.  The value of a fraction is a float64 computation; \<open>frac f unit k\<close> stands for
  \<^verbatim>\<open>uint64(float64(f) * (float64(unit) / 10^k))\<close>.
\<close>

section \<open>Pieces\<close>

definition is_digit :: "char \<Rightarrow> bool" where
  "is_digit c \<longleftrightarrow> digit_val c \<noteq> None"

text \<open>\<^verbatim>\<open>leadingInt\<close>: the digits in front, None on overflow.\<close>

fun leading_int :: "nat \<Rightarrow> string \<Rightarrow> (nat \<times> string) option" where
  "leading_int x [] = Some (x, [])"
| "leading_int x (c # cs) =
     (case digit_val c of
        None \<Rightarrow> Some (x, c # cs)
      | Some d \<Rightarrow>
          if x > 2 ^ 63 div 10 \<or> x * 10 + d > 2 ^ 63 then None else leading_int (x * 10 + d) cs)"

text \<open>\<^verbatim>\<open>leadingFraction\<close>: the value, the number of digits in it, the rest; digits
  after an overflow are skipped.\<close>

fun leading_fraction :: "bool \<Rightarrow> nat \<Rightarrow> nat \<Rightarrow> string \<Rightarrow> nat \<times> nat \<times> string" where
  "leading_fraction overflow x k [] = (x, k, [])"
| "leading_fraction overflow x k (c # cs) =
     (case digit_val c of
        None \<Rightarrow> (x, k, c # cs)
      | Some d \<Rightarrow>
          if overflow \<or> x > (2 ^ 63 - 1) div 10 \<or> x * 10 + d > 2 ^ 63 then leading_fraction True x k cs
          else leading_fraction False (x * 10 + d) (Suc k) cs)"

text \<open>The units with their nanoseconds; the micro sign and the Greek letter are both accepted.\<close>

definition unit_map :: "string \<Rightarrow> nat option" where
  "unit_map u =
     (if u = ''ns'' then Some 1
      else if u = ''us'' \<or> u = [CHR 0xC2, CHR 0xB5, CHR ''s''] \<or> u = [CHR 0xCE, CHR 0xBC, CHR ''s''] then Some 1000
      else if u = ''ms'' then Some 1000000
      else if u = ''s'' then Some 1000000000
      else if u = ''m'' then Some 60000000000
      else if u = ''h'' then Some 3600000000000
      else None)"

definition unit_chars :: "string \<Rightarrow> string" where
  "unit_chars s = takeWhile (\<lambda>c. \<not> (c = CHR ''.'' \<or> is_digit c)) s"

lemma leading_int_rest: "leading_int x s = Some (y, r) \<Longrightarrow> length r \<le> length s"
  by (induction x s rule: leading_int.induct) (auto split: option.splits if_splits)

lemma leading_fraction_rest: "leading_fraction ov x k s = (y, j, r) \<Longrightarrow> length r \<le> length s"
  by (induction ov x k s rule: leading_fraction.induct)
    (auto split: option.splits if_splits)

section \<open>The parser\<close>

text \<open>One number with its unit in front of \<open>s\<close>: its nanoseconds and the rest.\<close>

definition parse_item :: "(nat \<Rightarrow> nat \<Rightarrow> nat \<Rightarrow> nat) \<Rightarrow> string \<Rightarrow> (nat \<times> string) option" where
  "parse_item frac s =
     (if \<not> (hd s = CHR ''.'' \<or> is_digit (hd s)) then None
      else case leading_int 0 s of
        None \<Rightarrow> None
      | Some (v, s1) \<Rightarrow>
          let pre = (length s1 \<noteq> length s);
              (f, k, s2, post) =
                (if s1 \<noteq> [] \<and> hd s1 = CHR ''.''
                 then let (f, k, r) = leading_fraction False 0 0 (tl s1) in (f, k, r, length r \<noteq> length (tl s1))
                 else (0, 0, s1, False));
              u = unit_chars s2
          in if \<not> pre \<and> \<not> post then None
             else if u = [] then None
             else (case unit_map u of
                 None \<Rightarrow> None
               | Some ns \<Rightarrow>
                   if v > 2 ^ 63 div ns then None
                   else let v' = v * ns + (if f > 0 then frac f ns k else 0) in
                     (if f > 0 \<and> v' > 2 ^ 63 then None else Some (v', drop (length u) s2))))"

lemma parse_item_rest:
  assumes "parse_item frac s = Some (v, r)"
  shows "length r < length s"
proof -
  obtain n s1 where i: "leading_int 0 s = Some (n, s1)"
    using assms by (auto simp: parse_item_def split: if_splits option.splits)
  have l1: "length s1 \<le> length s" using leading_int_rest [OF i] .
  have *: "\<And>s2. length s2 \<le> length s \<Longrightarrow> unit_chars s2 \<noteq> [] \<Longrightarrow> length (drop (length (unit_chars s2)) s2) < length s"
    by (metis (no_types, lifting) drop_eq_Nil diff_less le_trans length_0_conv length_drop length_greater_0_conv
        less_le_trans linorder_not_le list.size(3) takeWhile.simps(1) unit_chars_def)
  have lf: "\<And>f k r. leading_fraction False 0 0 (tl s1) = (f, k, r) \<Longrightarrow> length r \<le> length s"
    using leading_fraction_rest l1 by (metis (no_types, lifting) length_tl diff_le_self le_trans)
  show ?thesis
    using assms i l1 *
    by (auto simp: parse_item_def Let_def split: if_splits option.splits prod.splits dest: lf)
qed

function parse_items :: "(nat \<Rightarrow> nat \<Rightarrow> nat \<Rightarrow> nat) \<Rightarrow> nat \<Rightarrow> string \<Rightarrow> nat option" where
  "parse_items frac d s =
     (if s = [] then Some d
      else case parse_item frac s of
        None \<Rightarrow> None
      | Some (v, r) \<Rightarrow>
          let d' = (d + v) mod 2 ^ 64 in
          (if d' > 2 ^ 63 then None else parse_items frac d' r))"
  by pat_completeness auto
termination
  by (relation "measure (\<lambda>(frac, d, s). length s)") (auto dest: parse_item_rest)

declare parse_items.simps [simp del]

definition ParseDuration :: "(nat \<Rightarrow> nat \<Rightarrow> nat \<Rightarrow> nat) \<Rightarrow> string \<Rightarrow> duration option" where
  "ParseDuration frac orig =
     (let (neg, s) = strip_sign orig in
      if s = ''0'' then Some 0
      else if s = [] then None
      else case parse_items frac 0 s of
        None \<Rightarrow> None
      | Some d \<Rightarrow>
          if neg then Some (- int d)
          else if d > 2 ^ 63 - 1 then None
          else Some (int d))"

text \<open>A result is a 64-bit number of nanoseconds.\<close>

lemma parse_items_bound: "parse_items frac d s = Some n \<Longrightarrow> d \<le> 2 ^ 63 \<Longrightarrow> n \<le> 2 ^ 63"
proof (induction frac d s rule: parse_items.induct)
  case (1 frac d s)
  show ?case
  proof (cases "s = []")
    case True
    then show ?thesis using "1.prems" by (simp add: parse_items.simps)
  next
    case False
    then obtain v r where p: "parse_item frac s = Some (v, r)"
      using "1.prems"(1) by (auto simp: parse_items.simps [of frac d s] split: option.splits)
    then show ?thesis
      using False "1.prems"(1) "1.IH" [OF False p refl refl]
      by (auto simp: parse_items.simps [of frac d s] Let_def split: if_splits)
  qed
qed

lemma ParseDuration_bounds:
  assumes "ParseDuration frac s = Some d"
  shows "- (2 ^ 63) \<le> d" "d < 2 ^ 63"
proof -
  have "- (2 ^ 63) \<le> d \<and> d < 2 ^ 63"
    using assms parse_items_bound [of frac 0 "snd (strip_sign s)"]
    by (fastforce simp: ParseDuration_def Let_def split: prod.splits option.splits if_splits)
  then show "- (2 ^ 63) \<le> d" "d < 2 ^ 63" by auto
qed

lemmas duration_eval = ParseDuration_def strip_sign_def parse_items.simps parse_item_def unit_chars_def
  unit_map_def is_digit_def digit_val_def

lemma ParseDuration_examples:
  "ParseDuration frac ''30s'' = Some (30 * nanos_per_second)"
  "ParseDuration frac ''1h30m'' = Some (5400 * nanos_per_second)"
  "ParseDuration frac ''-5m'' = Some (- 300 * nanos_per_second)"
  "ParseDuration frac ''0'' = Some 0"
  "ParseDuration frac ''24'' = None"
  "ParseDuration frac ''1 h'' = None"
  by (simp_all add: duration_eval nanos_per_second_def)

end
