(* ===== verification/Server_Lifecycle.thy ===== *)
theory Server_Lifecycle
  imports Config
begin

text \<open>
  \<^verbatim>\<open>Server.Run\<close> of \<^verbatim>\<open>internal/server/server.go\<close>: the goroutine that
  serves, the signals, and the main goroutine that waits for either and shuts down.  The channel
  \<^verbatim>\<open>errCh\<close> holds one error or is closed; the signal channel holds one signal.
  \<^verbatim>\<open>net/http\<close> decides when \<^verbatim>\<open>ListenAndServe\<close> and
  \<^verbatim>\<open>Shutdown\<close> return and with what error; the code relies on
  \<^verbatim>\<open>ListenAndServe\<close> returning once \<^verbatim>\<open>Shutdown\<close> has been called.
\<close>

section \<open>States and steps\<close>

datatype listener = Serving | Ended go_error \<comment> \<open>\<^verbatim>\<open>ListenAndServe\<close> always returns an error\<close>

datatype err_channel = Waiting | Holding go_error | Shut

datatype main_goroutine =
    Selecting
  | InShutdown
  | Draining
  | Finished "go_error option"

record server_state =
  ssMain :: main_goroutine
  ssListener :: listener
  ssErrCh :: err_channel
  ssSignalled :: bool \<comment> \<open>a signal waits in the channel\<close>
  ssShutdown :: "go_error option option" \<comment> \<open>what \<^verbatim>\<open>Shutdown\<close> returned, if it has\<close>
  ssLog :: "string list"

definition server_start :: server_state where
  "server_start = \<lparr>ssMain = Selecting, ssListener = Serving, ssErrCh = Waiting, ssSignalled = False,
     ssShutdown = None, ssLog = [''starting http server'']\<rparr>"

datatype actor = Goroutine | MainGoroutine | Outside

text \<open>\<open>is_closed\<close> is \<^verbatim>\<open>errors.Is(err, http.ErrServerClosed)\<close>.  Before a shutdown only an
  event outside ends the listener; afterwards the library does.\<close>

definition listener_actor :: "server_state \<Rightarrow> actor" where
  "listener_actor s = (if ssMain s \<in> {InShutdown, Draining} then Goroutine else Outside)"

inductive server_step :: "(go_error \<Rightarrow> bool) \<Rightarrow> server_state \<Rightarrow> actor \<Rightarrow> server_state \<Rightarrow> bool" for is_closed where
  listener_fails: "ssListener s = Serving \<Longrightarrow> \<not> is_closed e \<Longrightarrow>
    server_step is_closed s (listener_actor s) (s\<lparr>ssListener := Ended e, ssErrCh := Holding e\<rparr>)"
| listener_closes: "ssListener s = Serving \<Longrightarrow> is_closed e \<Longrightarrow>
    server_step is_closed s (listener_actor s) (s\<lparr>ssListener := Ended e, ssErrCh := Shut\<rparr>)"
| signal_arrives: "\<not> ssSignalled s \<Longrightarrow> server_step is_closed s Outside (s\<lparr>ssSignalled := True\<rparr>)"
| select_error: "ssMain s = Selecting \<Longrightarrow> ssErrCh s = Holding e \<Longrightarrow>
    server_step is_closed s MainGoroutine (s\<lparr>ssMain := Finished (Some e), ssErrCh := Waiting\<rparr>)"
| select_closed: "ssMain s = Selecting \<Longrightarrow> ssErrCh s = Shut \<Longrightarrow>
    server_step is_closed s MainGoroutine (s\<lparr>ssMain := Finished None\<rparr>)"
| select_signal: "ssMain s = Selecting \<Longrightarrow> ssSignalled s \<Longrightarrow>
    server_step is_closed s MainGoroutine (s\<lparr>ssMain := InShutdown, ssSignalled := False,
      ssLog := ssLog s @ [''shutdown signal received'']\<rparr>)"
| shutdown_fails: "ssMain s = InShutdown \<Longrightarrow>
    server_step is_closed s MainGoroutine (s\<lparr>ssMain := Finished (Some e), ssShutdown := Some (Some e)\<rparr>)"
| shutdown_returns: "ssMain s = InShutdown \<Longrightarrow>
    server_step is_closed s MainGoroutine (s\<lparr>ssMain := Draining, ssShutdown := Some None\<rparr>)"
| drain_error: "ssMain s = Draining \<Longrightarrow> ssErrCh s = Holding e \<Longrightarrow>
    server_step is_closed s MainGoroutine (s\<lparr>ssMain := Finished (Some e), ssErrCh := Waiting\<rparr>)"
| drain_closed: "ssMain s = Draining \<Longrightarrow> ssErrCh s = Shut \<Longrightarrow>
    server_step is_closed s MainGoroutine (s\<lparr>ssMain := Finished None, ssLog := ssLog s @ [''http server stopped'']\<rparr>)"

inductive server_steps :: "(go_error \<Rightarrow> bool) \<Rightarrow> actor list \<Rightarrow> server_state \<Rightarrow> bool" for is_closed where
  server_begins: "server_steps is_closed [] server_start"
| server_goes_on: "server_steps is_closed as s \<Longrightarrow> server_step is_closed s a s' \<Longrightarrow> server_steps is_closed (as @ [a]) s'"

section \<open>What holds in every reachable state\<close>

definition server_ok :: "(go_error \<Rightarrow> bool) \<Rightarrow> server_state \<Rightarrow> bool" where
  "server_ok is_closed s \<longleftrightarrow>
     (case ssListener s of
        Serving \<Rightarrow> ssErrCh s = Waiting
      | Ended e \<Rightarrow>
          if is_closed e then ssErrCh s = Shut
          else if ssErrCh s = Waiting then ssMain s = Finished (Some e) else ssErrCh s = Holding e)
     \<and> (case ssMain s of
        Selecting \<Rightarrow> ssShutdown s = None
      | InShutdown \<Rightarrow> ssShutdown s = None
      | Draining \<Rightarrow> ssShutdown s = Some None
      | Finished None \<Rightarrow> ssErrCh s = Shut \<and> ssShutdown s \<in> {None, Some None}
      | Finished (Some e) \<Rightarrow> ssShutdown s = Some (Some e) \<or> (ssListener s = Ended e \<and> \<not> is_closed e))"

lemma server_start_ok: "server_ok is_closed server_start"
  by (simp add: server_ok_def server_start_def)

lemma server_step_ok: "server_step is_closed s a s' \<Longrightarrow> server_ok is_closed s \<Longrightarrow> server_ok is_closed s'"
  by (induction rule: server_step.induct)
    (auto simp: server_ok_def split: listener.splits main_goroutine.splits option.splits if_splits)

lemma server_steps_ok: "server_steps is_closed as s \<Longrightarrow> server_ok is_closed s"
  by (induction rule: server_steps.induct) (auto intro: server_start_ok server_step_ok)

text \<open>\<^verbatim>\<open>Run\<close> reports how the server ended.  It returns without an error only when the
  listener has been closed, never while it still serves, and not after a failed shutdown; an error that it returns is the
  one of the listener or the one of the shutdown.\<close>

theorem run_reports_the_end:
  assumes "server_steps is_closed as s" "ssMain s = Finished r"
  shows "case r of
      None \<Rightarrow> (\<exists>e. ssListener s = Ended e \<and> is_closed e) \<and> ssShutdown s \<in> {None, Some None}
    | Some e \<Rightarrow> ssShutdown s = Some (Some e) \<or> (ssListener s = Ended e \<and> \<not> is_closed e)"
  using server_steps_ok [OF assms(1)] assms(2)
  by (auto simp: server_ok_def split: listener.splits option.splits if_splits)

section \<open>Shutting down ends\<close>

definition steps_to_go :: "server_state \<Rightarrow> nat" where
  "steps_to_go s = (case ssMain s of Selecting \<Rightarrow> 3 | InShutdown \<Rightarrow> 2 | Draining \<Rightarrow> 1 | Finished _ \<Rightarrow> 0)
     + (if ssListener s = Serving then 1 else 0)"

text \<open>What the program does of itself, without an event from outside.\<close>

lemma own_step_progress:
  "server_step is_closed s a s' \<Longrightarrow>
     (a \<noteq> Outside \<longrightarrow> steps_to_go s' < steps_to_go s) \<and> (a = Outside \<longrightarrow> steps_to_go s' \<le> steps_to_go s)"
  by (induction rule: server_step.induct) (auto simp: steps_to_go_def split: main_goroutine.splits)

lemma own_steps_bound: "server_steps is_closed as s \<Longrightarrow> length (filter (\<lambda>a. a \<noteq> Outside) as) + steps_to_go s \<le> 4"
proof (induction rule: server_steps.induct)
  case server_begins
  then show ?case by (simp add: steps_to_go_def server_start_def)
next
  case (server_goes_on as s a s')
  then show ?case using own_step_progress [OF server_goes_on.hyps(2)] by (cases "a = Outside") auto
qed

lemma own_step_exists:
  assumes "server_ok is_closed s" "\<And>r. ssMain s \<noteq> Finished r"
    and "ssSignalled s \<or> ssMain s \<noteq> Selecting \<or> ssListener s \<noteq> Serving"
  shows "\<exists>a s'. a \<noteq> Outside \<and> server_step is_closed s a s'"
proof (cases "ssMain s")
  case Selecting
  show ?thesis
  proof (cases "ssSignalled s")
    case True
    then show ?thesis using select_signal [OF Selecting] by blast
  next
    case False
    then obtain e where "ssListener s = Ended e" using assms(3) Selecting by (cases "ssListener s") auto
    then have "ssErrCh s = Shut \<or> ssErrCh s = Holding e"
      using assms(1) Selecting by (auto simp: server_ok_def split: if_splits)
    then show ?thesis using select_error [OF Selecting] select_closed [OF Selecting] by blast
  qed
next
  case InShutdown
  then show ?thesis using shutdown_returns by blast
next
  case Draining
  show ?thesis
  proof (cases "ssListener s")
    case Serving
    have "listener_actor s = Goroutine" using Draining by (simp add: listener_actor_def)
    then show ?thesis using listener_fails [OF Serving] listener_closes [OF Serving] by (metis actor.distinct(3))
  next
    case (Ended e)
    then have "ssErrCh s = Shut \<or> ssErrCh s = Holding e"
      using assms(1) Draining by (auto simp: server_ok_def split: if_splits)
    then show ?thesis using drain_error [OF Draining] drain_closed [OF Draining] by blast
  qed
next
  case (Finished r)
  then show ?thesis using assms(2) by blast
qed

text \<open>C34: Once a signal has come in or the listener has ended, \<^verbatim>\<open>Run\<close> is never stuck: until it
  returns one of its goroutines can take a step without any further event, and in every run they take at
  most four steps altogether, so that it returns.\<close>

theorem run_returns_after_signal:
  assumes "server_steps is_closed as s"
    and "ssSignalled s \<or> ssMain s \<noteq> Selecting \<or> ssListener s \<noteq> Serving"
  shows "length (filter (\<lambda>a. a \<noteq> Outside) as) \<le> 4
    \<and> ((\<exists>r. ssMain s = Finished r) \<or> (\<exists>a s'. a \<noteq> Outside \<and> server_step is_closed s a s'))"
  using own_steps_bound [OF assms(1)] own_step_exists [OF server_steps_ok [OF assms(1)] _ assms(2)] by fastforce

definition demo_closed :: "go_error \<Rightarrow> bool" where
  "demo_closed e \<longleftrightarrow> e = LibError ''http: Server closed''"

lemma demo_signalled: "server_steps demo_closed [Outside] (server_start\<lparr>ssSignalled := True\<rparr>)"
proof -
  have "server_step demo_closed server_start Outside (server_start\<lparr>ssSignalled := True\<rparr>)"
    by (rule signal_arrives) (simp add: server_start_def)
  from server_goes_on [OF server_begins this] show ?thesis by simp
qed

lemma run_returns_after_signal_witness:
  "\<exists>a s'. a \<noteq> Outside \<and> server_step demo_closed (server_start\<lparr>ssSignalled := True\<rparr>) a s'"
  using run_returns_after_signal [OF demo_signalled] by (simp add: server_start_def)

text \<open>A whole run: a signal, a clean shutdown, the end.\<close>

definition demo_stopped :: server_state where
  "demo_stopped = server_start\<lparr>ssMain := Finished None, ssListener := Ended (LibError ''http: Server closed''),
     ssErrCh := Shut, ssShutdown := Some None,
     ssLog := [''starting http server'', ''shutdown signal received'', ''http server stopped'']\<rparr>"

lemma demo_run_stops: "server_steps demo_closed [Outside, MainGoroutine, Goroutine, MainGoroutine, MainGoroutine] demo_stopped"
proof -
  let ?e = "LibError ''http: Server closed''"
  let ?s1 = "server_start\<lparr>ssSignalled := True\<rparr>"
  let ?s2 = "?s1\<lparr>ssMain := InShutdown, ssSignalled := False, ssLog := ssLog ?s1 @ [''shutdown signal received'']\<rparr>"
  let ?s3 = "?s2\<lparr>ssListener := Ended ?e, ssErrCh := Shut\<rparr>"
  let ?s4 = "?s3\<lparr>ssMain := Draining, ssShutdown := Some None\<rparr>"
  let ?s5 = "?s4\<lparr>ssMain := Finished None, ssLog := ssLog ?s4 @ [''http server stopped'']\<rparr>"
  have "server_step demo_closed ?s1 MainGoroutine ?s2" by (rule select_signal) (simp_all add: server_start_def)
  moreover have "server_step demo_closed ?s2 Goroutine ?s3"
    using listener_closes [of ?s2 demo_closed ?e] by (simp add: listener_actor_def demo_closed_def server_start_def)
  moreover have "server_step demo_closed ?s3 MainGoroutine ?s4" by (rule shutdown_returns) simp
  moreover have "server_step demo_closed ?s4 MainGoroutine ?s5" by (rule drain_closed) simp_all
  ultimately have "server_steps demo_closed (((([Outside] @ [MainGoroutine]) @ [Goroutine]) @ [MainGoroutine]) @ [MainGoroutine]) ?s5"
    by (intro server_goes_on) (rule demo_signalled, assumption+)
  moreover have "?s5 = demo_stopped" by (simp add: demo_stopped_def server_start_def)
  ultimately show ?thesis by simp
qed

lemma run_reports_the_end_witness: "\<exists>e. ssListener demo_stopped = Ended e \<and> demo_closed e"
  using run_reports_the_end [OF demo_run_stops, of None] by (simp add: demo_stopped_def)

end
