(* ===== verification/Transfers_Interleaved.thy ===== *)
theory Transfers_Interleaved
  imports Banking_Service
begin

text \<open>
  Transfers at the same time.  The laws of \<open>sql_engine\<close> are about one transaction at a time; here each
  request of \<^verbatim>\<open>BankingService.Transfer\<close> runs its statements as steps of its own,
  between those of the others.  The database is PostgreSQL at its default level
  \<^verbatim>\<open>READ COMMITTED\<close>, which \<^verbatim>\<open>db.BeginTx(ctx, nil)\<close> asks for: a statement sees
  what is committed when it starts and the transaction's own writes, an update waits while another open
  transaction has written the row and then works on the latest version, and the writes of a transaction
  appear together when it commits.  Money is neither created nor lost, but the check of the funds is not
  protected: two transfers can overdraw an account.
\<close>

section \<open>The steps of a transfer\<close>

text \<open>What a request does next, with the rows that it has loaded.\<close>

datatype phase =
    LoadSender
  | LoadReceiver account
  | Debit account account
  | Credit account account
  | Record account account
  | Commit
  | Closed

text \<open>The committed tables, and per request its phase, the rows that its open transaction has written
  (each of them locked) and the transfer that it has inserted.\<close>

record bank =
  bkTables :: tables
  bkPhase :: "nat \<Rightarrow> phase"
  bkRows :: "nat \<Rightarrow> int64 \<rightharpoonup> account"
  bkEntry :: "nat \<Rightarrow> transfer option"

record transfer_call =
  tcUser :: int64
  tcRequest :: create_transfer_request
  tcSender :: int64

abbreviation tcReceiver :: "transfer_call \<Rightarrow> int64" where
  "tcReceiver c \<equiv> rqReceiverAccountID (tcRequest c)"

abbreviation tcAmount :: "transfer_call \<Rightarrow> int64" where
  "tcAmount c \<equiv> rqAmount (tcRequest c)"

definition row_seen :: "bank \<Rightarrow> nat \<Rightarrow> int64 \<Rightarrow> account option" where
  "row_seen b p i = (tbAccounts (bkTables b) ++ bkRows b p) i"

definition unlocked :: "bank \<Rightarrow> nat \<Rightarrow> int64 \<Rightarrow> bool" where
  "unlocked b p i \<longleftrightarrow> (\<forall>q. q \<noteq> p \<longrightarrow> bkRows b q i = None)"

definition put_phase :: "nat \<Rightarrow> phase \<Rightarrow> bank \<Rightarrow> bank" where
  "put_phase p ph b = b\<lparr>bkPhase := (bkPhase b)(p := ph)\<rparr>"

text \<open>\<^verbatim>\<open>UPDATE accounts SET balance = balance + n\<close>: no row, or the row with the sum.\<close>

definition add_balance :: "nat \<Rightarrow> int64 \<Rightarrow> int64 \<Rightarrow> gotime \<Rightarrow> bank \<Rightarrow> bank" where
  "add_balance p i n t b =
     (case row_seen b p i of
        None \<Rightarrow> b
      | Some a \<Rightarrow> b\<lparr>bkRows := (bkRows b)(p := (bkRows b p)(i \<mapsto> a\<lparr>aBalance := aBalance a + n, aUpdatedAt := t\<rparr>))\<rparr>)"

definition can_add :: "bank \<Rightarrow> nat \<Rightarrow> int64 \<Rightarrow> int64 \<Rightarrow> bool" where
  "can_add b p i n \<longleftrightarrow> unlocked b p i \<and> (\<forall>a. row_seen b p i = Some a \<longrightarrow> bigint_sum_ok (aBalance a) n)"

definition close_tx :: "nat \<Rightarrow> bank \<Rightarrow> bank" where
  "close_tx p b = b\<lparr>bkPhase := (bkPhase b)(p := Closed), bkRows := (bkRows b)(p := Map.empty),
     bkEntry := (bkEntry b)(p := None)\<rparr>"

definition committed_tables :: "bank \<Rightarrow> nat \<Rightarrow> tables" where
  "committed_tables b p =
     (let T = bkTables b in
      T\<lparr>tbAccounts := tbAccounts T ++ bkRows b p,
        tbTransfers := (case bkEntry b p of None \<Rightarrow> tbTransfers T | Some tr \<Rightarrow> (tbTransfers T)(trID tr \<mapsto> tr))\<rparr>)"

text \<open>One step, by a request (the second argument) or by another part of the program.\<close>

inductive transfer_step :: "(nat \<Rightarrow> transfer_call) \<Rightarrow> bank \<Rightarrow> nat option \<Rightarrow> bank \<Rightarrow> bool" for calls where
  load_sender: "bkPhase b p = LoadSender \<Longrightarrow> row_seen b p (tcSender (calls p)) = Some sa \<Longrightarrow>
    aUserID sa = tcUser (calls p) \<Longrightarrow> \<not> sint (aBalance sa) < sint (tcAmount (calls p)) \<Longrightarrow>
    transfer_step calls b (Some p) (put_phase p (LoadReceiver sa) b)"
| load_receiver: "bkPhase b p = LoadReceiver sa \<Longrightarrow> row_seen b p (tcReceiver (calls p)) = Some ra \<Longrightarrow>
    aCurrency sa = rqCurrency (tcRequest (calls p)) \<Longrightarrow> aCurrency ra = rqCurrency (tcRequest (calls p)) \<Longrightarrow>
    transfer_step calls b (Some p) (put_phase p (Debit sa ra) b)"
| debit: "bkPhase b p = Debit sa ra \<Longrightarrow> can_add b p (aID sa) (- tcAmount (calls p)) \<Longrightarrow>
    transfer_step calls b (Some p) (put_phase p (Credit sa ra) (add_balance p (aID sa) (- tcAmount (calls p)) t b))"
| credit: "bkPhase b p = Credit sa ra \<Longrightarrow> can_add b p (aID ra) (tcAmount (calls p)) \<Longrightarrow>
    transfer_step calls b (Some p) (put_phase p (Record sa ra) (add_balance p (aID ra) (tcAmount (calls p)) t b))"
| record_entry: "bkPhase b p = Record sa ra \<Longrightarrow>
    tr = \<lparr>trID = k, trSenderAccountID = aID sa, trReceiverAccountID = aID ra, trAmount = tcAmount (calls p),
          trCurrency = cur, trDescription = rqDescription (tcRequest (calls p)), trCreatedAt = t\<rparr> \<Longrightarrow>
    fits_varchar 3 (rqCurrency (tcRequest (calls p))) cur \<Longrightarrow>
    tbTransfers (bkTables b) k = None \<Longrightarrow> (\<forall>q tr'. bkEntry b q = Some tr' \<longrightarrow> trID tr' \<noteq> k) \<Longrightarrow>
    row_seen b p (aID sa) \<noteq> None \<Longrightarrow> row_seen b p (aID ra) \<noteq> None \<Longrightarrow>
    transfer_step calls b (Some p) (put_phase p Commit (b\<lparr>bkEntry := (bkEntry b)(p := Some tr)\<rparr>))"
| commit: "bkPhase b p = Commit \<Longrightarrow>
    transfer_step calls b (Some p) (close_tx p (b\<lparr>bkTables := committed_tables b p\<rparr>))"
| give_up: "bkPhase b p \<noteq> Closed \<Longrightarrow> transfer_step calls b (Some p) (close_tx p b)"
| open_account: "sql_effect (InsertAccount uid cur 0) (bkTables b) T' rows \<Longrightarrow>
    transfer_step calls b None (b\<lparr>bkTables := T'\<rparr>)"
| elsewhere: "tbAccounts T' = tbAccounts (bkTables b) \<Longrightarrow> tbTransfers T' = tbTransfers (bkTables b) \<Longrightarrow>
    transfer_step calls b None (b\<lparr>bkTables := T'\<rparr>)"

inductive transfer_steps :: "(nat \<Rightarrow> transfer_call) \<Rightarrow> bank \<Rightarrow> nat option list \<Rightarrow> bank \<Rightarrow> bool" for calls where
  steps_Nil: "transfer_steps calls b [] b"
| steps_snoc: "transfer_steps calls b ps b1 \<Longrightarrow> transfer_step calls b1 p b2 \<Longrightarrow> transfer_steps calls b (ps @ [p]) b2"

inductive_cases transfer_stepE: "transfer_step calls b p b'"

definition fresh_bank :: "tables \<Rightarrow> bank" where
  "fresh_bank T = \<lparr>bkTables = T, bkPhase = \<lambda>_. LoadSender, bkRows = \<lambda>_. Map.empty, bkEntry = \<lambda>_. None\<rparr>"

section \<open>What an open transaction holds\<close>

definition keyed :: "tables \<Rightarrow> bool" where
  "keyed T \<longleftrightarrow> finite (dom (tbAccounts T)) \<and> finite (dom (tbTransfers T))
     \<and> (\<forall>i a. tbAccounts T i = Some a \<longrightarrow> aID a = i)
     \<and> (\<forall>k tr. tbTransfers T k = Some tr \<longrightarrow> tbAccounts T (trSenderAccountID tr) \<noteq> None
          \<and> tbAccounts T (trReceiverAccountID tr) \<noteq> None)"

definition account_in :: "tables \<Rightarrow> int64 \<Rightarrow> string \<Rightarrow> bool" where
  "account_in T i cur \<longleftrightarrow> (\<exists>a. tbAccounts T i = Some a \<and> aCurrency a = cur)"

text \<open>The written rows after the debit, and after the debit and the credit.\<close>

definition debit_rows :: "tables \<Rightarrow> transfer_call \<Rightarrow> (int64 \<rightharpoonup> account) \<Rightarrow> bool" where
  "debit_rows T c R \<longleftrightarrow>
     (\<exists>a t. tbAccounts T (tcSender c) = Some a \<and> bigint_sum_ok (aBalance a) (- tcAmount c)
        \<and> R = [tcSender c \<mapsto> a\<lparr>aBalance := aBalance a + - tcAmount c, aUpdatedAt := t\<rparr>])"

definition credit_rows :: "tables \<Rightarrow> transfer_call \<Rightarrow> (int64 \<rightharpoonup> account) \<Rightarrow> bool" where
  "credit_rows T c R \<longleftrightarrow>
     (\<exists>R1 a t. debit_rows T c R1 \<and> (tbAccounts T ++ R1) (tcReceiver c) = Some a \<and> bigint_sum_ok (aBalance a) (tcAmount c)
        \<and> R = R1(tcReceiver c \<mapsto> a\<lparr>aBalance := aBalance a + tcAmount c, aUpdatedAt := t\<rparr>))"

definition both_in :: "tables \<Rightarrow> transfer_call \<Rightarrow> bool" where
  "both_in T c \<longleftrightarrow> account_in T (tcSender c) (rqCurrency (tcRequest c))
     \<and> account_in T (tcReceiver c) (rqCurrency (tcRequest c))"

fun tx_ok :: "tables \<Rightarrow> transfer_call \<Rightarrow> phase \<Rightarrow> (int64 \<rightharpoonup> account) \<Rightarrow> transfer option \<Rightarrow> bool" where
  "tx_ok T c LoadSender R e \<longleftrightarrow> R = Map.empty \<and> e = None"
| "tx_ok T c (LoadReceiver sa) R e \<longleftrightarrow> R = Map.empty \<and> e = None
     \<and> aID sa = tcSender c \<and> account_in T (tcSender c) (aCurrency sa)"
| "tx_ok T c (Debit sa ra) R e \<longleftrightarrow> R = Map.empty \<and> e = None
     \<and> aID sa = tcSender c \<and> aID ra = tcReceiver c \<and> both_in T c"
| "tx_ok T c (Credit sa ra) R e \<longleftrightarrow> e = None
     \<and> aID sa = tcSender c \<and> aID ra = tcReceiver c \<and> both_in T c \<and> debit_rows T c R"
| "tx_ok T c (Record sa ra) R e \<longleftrightarrow> e = None
     \<and> aID sa = tcSender c \<and> aID ra = tcReceiver c \<and> both_in T c \<and> credit_rows T c R"
| "tx_ok T c Commit R e \<longleftrightarrow> both_in T c \<and> credit_rows T c R
     \<and> (\<exists>tr. e = Some tr \<and> tbTransfers T (trID tr) = None \<and> trSenderAccountID tr = tcSender c
          \<and> trReceiverAccountID tr = tcReceiver c \<and> trAmount tr = tcAmount c)"
| "tx_ok T c Closed R e \<longleftrightarrow> R = Map.empty \<and> e = None"

definition bank_ok :: "(nat \<Rightarrow> transfer_call) \<Rightarrow> bank \<Rightarrow> bool" where
  "bank_ok calls b \<longleftrightarrow> keyed (bkTables b)
     \<and> (\<forall>p. tx_ok (bkTables b) (calls p) (bkPhase b p) (bkRows b p) (bkEntry b p))
     \<and> (\<forall>p q. p \<noteq> q \<longrightarrow> dom (bkRows b p) \<inter> dom (bkRows b q) = {})
     \<and> (\<forall>p q tr tr'. p \<noteq> q \<and> bkEntry b p = Some tr \<and> bkEntry b q = Some tr' \<longrightarrow> trID tr \<noteq> trID tr')"

lemma debit_rows_dom: "debit_rows T c R \<Longrightarrow> dom R = {tcSender c}"
  by (auto simp: debit_rows_def split: if_splits)

lemma credit_rows_dom: "credit_rows T c R \<Longrightarrow> dom R = {tcSender c, tcReceiver c}"
  using debit_rows_dom by (fastforce simp: credit_rows_def)

section \<open>Other transactions do not disturb it\<close>

text \<open>How the committed tables may change under an open transaction that has written the rows \<open>R\<close>.\<close>

definition undisturbed :: "(int64 \<rightharpoonup> account) \<Rightarrow> transfer option \<Rightarrow> tables \<Rightarrow> tables \<Rightarrow> bool" where
  "undisturbed R e T T' \<longleftrightarrow> (\<forall>i \<in> dom R. tbAccounts T' i = tbAccounts T i)
     \<and> (\<forall>i cur. account_in T i cur \<longrightarrow> account_in T' i cur)
     \<and> (\<forall>tr. e = Some tr \<longrightarrow> tbTransfers T (trID tr) = None \<longrightarrow> tbTransfers T' (trID tr) = None)"

lemma debit_rows_stable:
  "debit_rows T c R \<Longrightarrow> tbAccounts T' (tcSender c) = tbAccounts T (tcSender c) \<Longrightarrow> debit_rows T' c R"
  by (simp add: debit_rows_def)

lemma credit_rows_stable:
  assumes "credit_rows T c R" "tbAccounts T' (tcSender c) = tbAccounts T (tcSender c)"
    and "tbAccounts T' (tcReceiver c) = tbAccounts T (tcReceiver c)"
  shows "credit_rows T' c R"
  using assms(1) debit_rows_stable [OF _ assms(2)] assms(3) unfolding credit_rows_def map_add_def by metis

lemma tx_ok_stable:
  assumes "tx_ok T c ph R e" "undisturbed R e T T'"
  shows "tx_ok T' c ph R e"
proof -
  have debit: "debit_rows T c R \<Longrightarrow> debit_rows T' c R" and credit: "credit_rows T c R \<Longrightarrow> credit_rows T' c R"
    using assms(2) debit_rows_dom credit_rows_dom debit_rows_stable credit_rows_stable
    unfolding undisturbed_def by (metis insertI1 insertI2)+
  have both: "both_in T c \<Longrightarrow> both_in T' c" using assms(2) by (auto simp: undisturbed_def both_in_def)
  show ?thesis using assms debit credit both by (cases ph) (auto simp: undisturbed_def)
qed

lemma bank_ok_keyed: "bank_ok calls b \<Longrightarrow> keyed (bkTables b)"
  by (simp add: bank_ok_def)

lemma bank_ok_tx: "bank_ok calls b \<Longrightarrow> tx_ok (bkTables b) (calls p) (bkPhase b p) (bkRows b p) (bkEntry b p)"
  by (simp add: bank_ok_def)

lemma bank_ok_locks: "bank_ok calls b \<Longrightarrow> p \<noteq> q \<Longrightarrow> dom (bkRows b p) \<inter> dom (bkRows b q) = {}"
  by (simp add: bank_ok_def)

lemma bank_ok_ids:
  "bank_ok calls b \<Longrightarrow> p \<noteq> q \<Longrightarrow> bkEntry b p = Some tr \<Longrightarrow> bkEntry b q = Some tr' \<Longrightarrow> trID tr \<noteq> trID tr'"
  unfolding bank_ok_def by blast

lemma bank_okI:
  assumes "keyed (bkTables b)" "\<And>p. tx_ok (bkTables b) (calls p) (bkPhase b p) (bkRows b p) (bkEntry b p)"
    and "\<And>p q. p \<noteq> q \<Longrightarrow> dom (bkRows b p) \<inter> dom (bkRows b q) = {}"
    and "\<And>p q tr tr'. p \<noteq> q \<Longrightarrow> bkEntry b p = Some tr \<Longrightarrow> bkEntry b q = Some tr' \<Longrightarrow> trID tr \<noteq> trID tr'"
  shows "bank_ok calls b"
  unfolding bank_ok_def using assms by blast

text \<open>A step of one request that leaves the committed tables alone.\<close>

lemma bank_ok_own_step:
  assumes "bank_ok calls b" "bkTables b' = bkTables b"
    and "\<And>q. q \<noteq> p \<Longrightarrow> bkPhase b' q = bkPhase b q \<and> bkRows b' q = bkRows b q \<and> bkEntry b' q = bkEntry b q"
    and "tx_ok (bkTables b) (calls p) (bkPhase b' p) (bkRows b' p) (bkEntry b' p)"
    and "\<And>i. i \<in> dom (bkRows b' p) \<Longrightarrow> i \<in> dom (bkRows b p) \<or> unlocked b p i"
    and "\<And>q tr tr'. q \<noteq> p \<Longrightarrow> bkEntry b' p = Some tr \<Longrightarrow> bkEntry b q = Some tr' \<Longrightarrow> trID tr \<noteq> trID tr'"
  shows "bank_ok calls b'"
proof -
  note ok = bank_ok_tx [OF assms(1)] and locks = bank_ok_locks [OF assms(1)] and ids = bank_ok_ids [OF assms(1)]
  have own: "dom (bkRows b' p) \<inter> dom (bkRows b q) = {}" if "q \<noteq> p" for q
    using assms(5) locks [of p q] that by (force simp: unlocked_def disjoint_iff domIff)
  have "dom (bkRows b' q) \<inter> dom (bkRows b' r) = {}" if "q \<noteq> r" for q r
    using that own [of q] own [of r] locks [OF that] assms(3) by (metis Int_commute)
  moreover have "trID tr \<noteq> trID tr'" if "q \<noteq> r" "bkEntry b' q = Some tr" "bkEntry b' r = Some tr'" for q r tr tr'
    using that ids [OF that(1)] assms(3,6) by metis
  moreover have "tx_ok (bkTables b') (calls q) (bkPhase b' q) (bkRows b' q) (bkEntry b' q)" for q
    using ok [of q] assms(2-4) by (cases "q = p") simp_all
  ultimately show ?thesis using bank_ok_keyed [OF assms(1)] assms(2) by (intro bank_okI) simp_all
qed

text \<open>A step that changes the committed tables under the open transactions.\<close>

lemma bank_ok_tables_step:
  assumes "bank_ok calls b" "keyed T'"
    and "\<And>q. undisturbed (bkRows b q) (bkEntry b q) (bkTables b) T'"
  shows "bank_ok calls (b\<lparr>bkTables := T'\<rparr>)"
  using assms(2) tx_ok_stable [OF bank_ok_tx [OF assms(1)] assms(3)] bank_ok_locks [OF assms(1)] bank_ok_ids [OF assms(1)]
  by (intro bank_okI) simp_all

section \<open>The committed step\<close>

lemma debit_rows_added: "debit_rows T c R \<Longrightarrow> added (- tcAmount c) (tcSender c) T (T\<lparr>tbAccounts := tbAccounts T ++ R\<rparr>)"
  by (auto simp: debit_rows_def added_def)

lemma credit_rows_added:
  assumes "credit_rows T c R"
  obtains T1 where "added (- tcAmount c) (tcSender c) T T1"
    "added (tcAmount c) (tcReceiver c) T1 (T\<lparr>tbAccounts := tbAccounts T ++ R\<rparr>)"
proof -
  from assms obtain R1 and a :: account and t where R: "debit_rows T c R1" "(tbAccounts T ++ R1) (tcReceiver c) = Some a"
    "bigint_sum_ok (aBalance a) (tcAmount c)"
    "R = R1(tcReceiver c \<mapsto> a\<lparr>aBalance := aBalance a + tcAmount c, aUpdatedAt := t\<rparr>)"
    unfolding credit_rows_def by (elim exE conjE) (rule that; assumption)
  then have "added (tcAmount c) (tcReceiver c) (T\<lparr>tbAccounts := tbAccounts T ++ R1\<rparr>) (T\<lparr>tbAccounts := tbAccounts T ++ R\<rparr>)"
    by (auto simp: added_def)
  with that debit_rows_added [OF R(1)] show ?thesis by blast
qed

lemma added_account_in: "added n i T T' \<Longrightarrow> account_in T' k cur \<longleftrightarrow> account_in T k cur"
  by (auto simp: account_in_def elim!: added_account split: if_splits)

lemma added_ids: "added n i T T' \<Longrightarrow> \<forall>k a. tbAccounts T k = Some a \<longrightarrow> aID a = k \<Longrightarrow> tbAccounts T' k = Some a \<Longrightarrow> aID a = k"
  by (auto elim!: added_account split: if_splits)

text \<open>What a commit does to the tables.\<close>

lemma commit_moves:
  assumes "bank_ok calls b" "bkPhase b p = Commit"
  obtains tr where "bkEntry b p = Some tr" "transfer_moved (tcRequest (calls p)) (tcSender (calls p)) (bkTables b) (committed_tables b p) tr"
proof -
  let ?T = "bkTables b" and ?c = "calls p" and ?R = "bkRows b p"
  have ok: "both_in ?T ?c" "credit_rows ?T ?c ?R" and "\<exists>tr. bkEntry b p = Some tr \<and> tbTransfers ?T (trID tr) = None
      \<and> trSenderAccountID tr = tcSender ?c \<and> trReceiverAccountID tr = tcReceiver ?c \<and> trAmount tr = tcAmount ?c"
    using bank_ok_tx [OF assms(1), of p] assms(2) by simp_all
  then obtain tr where tr: "bkEntry b p = Some tr" "tbTransfers ?T (trID tr) = None" "trSenderAccountID tr = tcSender ?c"
    "trReceiverAccountID tr = tcReceiver ?c" "trAmount tr = tcAmount ?c" by blast
  obtain T1 where T1: "added (- tcAmount ?c) (tcSender ?c) ?T T1"
      "added (tcAmount ?c) (tcReceiver ?c) T1 (?T\<lparr>tbAccounts := tbAccounts ?T ++ ?R\<rparr>)"
    by (rule credit_rows_added [OF ok(2)])
  have eq: "committed_tables b p = (?T\<lparr>tbAccounts := tbAccounts ?T ++ ?R\<rparr>)\<lparr>tbTransfers :=
      (tbTransfers (?T\<lparr>tbAccounts := tbAccounts ?T ++ ?R\<rparr>))(trID tr \<mapsto> tr\<lparr>trCurrency := trCurrency tr\<rparr>)\<rparr>"
    by (simp add: committed_tables_def tr(1) Let_def)
  have "transfer_moved (tcRequest ?c) (tcSender ?c) ?T (committed_tables b p) tr"
    unfolding transfer_moved_def
    using ok(1) T1 tr eq unfolding both_in_def account_in_def by blast
  with tr(1) show ?thesis by (rule that)
qed

lemma moved_facts:
  assumes "transfer_moved req i T T' tr" "keyed T"
  shows "keyed T'" "account_in T' k cur \<longleftrightarrow> account_in T k cur"
    "tbTransfers T' = (tbTransfers T)(trID tr \<mapsto> the (tbTransfers T' (trID tr)))"
    "k \<noteq> i \<Longrightarrow> k \<noteq> rqReceiverAccountID req \<Longrightarrow> tbAccounts T' k = tbAccounts T k"
proof -
  from assms(1) obtain T1 T2 cur' where T: "added (- rqAmount req) i T T1" "added (rqAmount req) (rqReceiverAccountID req) T1 T2"
    "T' = T2\<lparr>tbTransfers := (tbTransfers T2)(trID tr \<mapsto> tr\<lparr>trCurrency := cur'\<rparr>)\<rparr>"
    and acc: "tbAccounts T i \<noteq> None" "tbAccounts T (rqReceiverAccountID req) \<noteq> None"
    and tr: "trSenderAccountID tr = i" "trReceiverAccountID tr = rqReceiverAccountID req"
    unfolding transfer_moved_def by fastforce
  have dom: "dom (tbAccounts T2) = dom (tbAccounts T)" using added_frame(1) T(1,2) by metis
  have trs: "tbTransfers T2 = tbTransfers T" using added_frame(4) T(1,2) by metis
  have ids: "tbAccounts T2 k = Some a \<Longrightarrow> aID a = k" for k a
    using added_ids [OF T(2)] added_ids [OF T(1)] assms(2) unfolding keyed_def by blast
  have refs: "tbAccounts T2 k = None \<longleftrightarrow> tbAccounts T k = None" for k using dom by (metis domIff)
  show "keyed T'" using assms(2) T(3) dom trs ids refs acc tr unfolding keyed_def by auto
  show "account_in T' k cur \<longleftrightarrow> account_in T k cur"
    using added_account_in [OF T(1)] added_account_in [OF T(2)] T(3) by (simp add: account_in_def)
  show "tbTransfers T' = (tbTransfers T)(trID tr \<mapsto> the (tbTransfers T' (trID tr)))" using T(3) trs by simp
  show "k \<noteq> i \<Longrightarrow> k \<noteq> rqReceiverAccountID req \<Longrightarrow> tbAccounts T' k = tbAccounts T k"
    using T by (auto elim!: added_account)
qed

section \<open>Every step keeps the state in order\<close>

text \<open>What a step does to the committed tables.\<close>

lemma step_tables:
  assumes "transfer_step calls b who b'" "bank_ok calls b"
  obtains (same) "bkTables b' = bkTables b"
  | (moved) p tr where "who = Some p" "bkPhase b p = Commit" "bkEntry b p = Some tr"
      "transfer_moved (tcRequest (calls p)) (tcSender (calls p)) (bkTables b) (bkTables b') tr"
  | (opened) i a where "who = None" "tbAccounts (bkTables b) i = None" "aID a = i" "aBalance a = 0"
      "tbAccounts (bkTables b') = (tbAccounts (bkTables b))(i \<mapsto> a)" "tbTransfers (bkTables b') = tbTransfers (bkTables b)"
  | (elsewhere) "who = None" "tbAccounts (bkTables b') = tbAccounts (bkTables b)"
      "tbTransfers (bkTables b') = tbTransfers (bkTables b)"
  using assms(1)
proof cases
  case (commit p)
  from commit_moves [OF assms(2) this(3)] obtain tr where "bkEntry b p = Some tr"
    "transfer_moved (tcRequest (calls p)) (tcSender (calls p)) (bkTables b) (committed_tables b p) tr" .
  with commit moved show ?thesis by (simp add: close_tx_def)
next
  case (open_account uid cur T' rows)
  from insert_account_effect [OF open_account(3)] obtain i a where "tbAccounts (bkTables b) i = None" "aID a = i"
    "aBalance a = 0" "tbAccounts T' = (tbAccounts (bkTables b))(i \<mapsto> a)" "tbTransfers T' = tbTransfers (bkTables b)" .
  with open_account opened show ?thesis by simp
qed (use same elsewhere in \<open>auto simp: put_phase_def add_balance_def close_tx_def split: option.splits\<close>)

lemma tx_ok_rows_exist: "tx_ok T c ph R e \<Longrightarrow> i \<in> dom R \<Longrightarrow> tbAccounts T i \<noteq> None"
  using debit_rows_dom [of T c R] credit_rows_dom [of T c R]
  by (cases ph) (auto simp: both_in_def account_in_def)

text \<open>The steps inside a transaction, one by one.\<close>

lemma bank_ok_entry_kept:
  assumes "bank_ok calls b" "bkTables b' = bkTables b"
    and "\<And>q. q \<noteq> p \<Longrightarrow> bkPhase b' q = bkPhase b q \<and> bkRows b' q = bkRows b q \<and> bkEntry b' q = bkEntry b q"
    and "tx_ok (bkTables b) (calls p) (bkPhase b' p) (bkRows b' p) (bkEntry b' p)"
    and "\<And>i. i \<in> dom (bkRows b' p) \<Longrightarrow> i \<in> dom (bkRows b p) \<or> unlocked b p i"
    and "bkEntry b' p \<in> {bkEntry b p, None}"
  shows "bank_ok calls b'"
proof (rule bank_ok_own_step [OF assms(1-5)])
  show "trID tr \<noteq> trID tr'" if "q \<noteq> p" "bkEntry b' p = Some tr" "bkEntry b q = Some tr'" for q tr tr'
    using bank_ok_ids [OF assms(1) that(1) that(3)] that(2) assms(6) by fastforce
qed

lemma load_keeps_order:
  assumes "bank_ok calls b" "b' = put_phase p ph b" "tx_ok (bkTables b) (calls p) ph (bkRows b p) (bkEntry b p)"
  shows "bank_ok calls b'"
  using assms(2,3) by (intro bank_ok_entry_kept [OF assms(1), of b' p]) (auto simp: put_phase_def)

lemma row_seen_loaded:
  assumes "bank_ok calls b" "bkRows b p = Map.empty" "row_seen b p i = Some a"
  shows "aID a = i" "account_in (bkTables b) i (aCurrency a)"
  using assms(2,3) bank_ok_keyed [OF assms(1)] by (auto simp: row_seen_def keyed_def account_in_def)

lemma write_keeps_order:
  assumes "bank_ok calls b" "b' = put_phase p ph (b\<lparr>bkRows := (bkRows b)(p := (bkRows b p)(i \<mapsto> a))\<rparr>)" "unlocked b p i"
    and "tx_ok (bkTables b) (calls p) ph ((bkRows b p)(i \<mapsto> a)) (bkEntry b p)"
  shows "bank_ok calls b'"
  using assms(2-4) by (intro bank_ok_entry_kept [OF assms(1), of b' p]) (auto simp: put_phase_def split: if_splits)

lemma debit_keeps_order:
  assumes "bank_ok calls b" "bkPhase b p = Debit sa ra" "can_add b p (aID sa) (- tcAmount (calls p))"
    and "b' = put_phase p (Credit sa ra) (add_balance p (aID sa) (- tcAmount (calls p)) t b)"
  shows "bank_ok calls b'"
proof -
  have tx: "bkRows b p = Map.empty" "bkEntry b p = None" "aID sa = tcSender (calls p)" "aID ra = tcReceiver (calls p)"
    "both_in (bkTables b) (calls p)" using bank_ok_tx [OF assms(1), of p] assms(2) by simp_all
  then have "row_seen b p (aID sa) \<noteq> None" by (auto simp: row_seen_def both_in_def account_in_def)
  then obtain a where a: "row_seen b p (aID sa) = Some a" "b' = put_phase p (Credit sa ra) (b\<lparr>bkRows := (bkRows b)(p :=
      (bkRows b p)(aID sa \<mapsto> a\<lparr>aBalance := aBalance a + - tcAmount (calls p), aUpdatedAt := t\<rparr>))\<rparr>)"
    using assms(4) by (auto simp: add_balance_def)
  then show ?thesis using assms(3) tx
    by (intro write_keeps_order [OF assms(1) a(2)]) (auto simp: can_add_def debit_rows_def row_seen_def)
qed

lemma credit_keeps_order:
  assumes "bank_ok calls b" "bkPhase b p = Credit sa ra" "can_add b p (aID ra) (tcAmount (calls p))"
    and "b' = put_phase p (Record sa ra) (add_balance p (aID ra) (tcAmount (calls p)) t b)"
  shows "bank_ok calls b'"
proof -
  have tx: "debit_rows (bkTables b) (calls p) (bkRows b p)" "bkEntry b p = None" "aID sa = tcSender (calls p)"
    "aID ra = tcReceiver (calls p)" "both_in (bkTables b) (calls p)" using bank_ok_tx [OF assms(1), of p] assms(2) by simp_all
  then have "row_seen b p (aID ra) \<noteq> None"
    by (auto simp: row_seen_def both_in_def account_in_def map_add_def split: option.splits)
  then obtain a where a: "row_seen b p (aID ra) = Some a" "b' = put_phase p (Record sa ra) (b\<lparr>bkRows := (bkRows b)(p :=
      (bkRows b p)(aID ra \<mapsto> a\<lparr>aBalance := aBalance a + tcAmount (calls p), aUpdatedAt := t\<rparr>))\<rparr>)"
    using assms(4) by (auto simp: add_balance_def)
  have "credit_rows (bkTables b) (calls p) ((bkRows b p)(aID ra \<mapsto> a\<lparr>aBalance := aBalance a + tcAmount (calls p), aUpdatedAt := t\<rparr>))"
    using a(1) assms(3) tx unfolding credit_rows_def
    by (intro exI [of _ "bkRows b p"] exI [of _ a] exI [of _ t]) (simp add: can_add_def row_seen_def)
  then show ?thesis using assms(3) tx by (intro write_keeps_order [OF assms(1) a(2)]) (simp_all add: can_add_def)
qed

lemma record_keeps_order:
  assumes "bank_ok calls b" "bkPhase b p = Record sa ra" "tbTransfers (bkTables b) (trID tr) = None"
    and "trSenderAccountID tr = aID sa" "trReceiverAccountID tr = aID ra" "trAmount tr = tcAmount (calls p)"
    and new: "\<And>q tr'. bkEntry b q = Some tr' \<Longrightarrow> trID tr' \<noteq> trID tr"
    and "b' = put_phase p Commit (b\<lparr>bkEntry := (bkEntry b)(p := Some tr)\<rparr>)"
  shows "bank_ok calls b'"
proof (rule bank_ok_own_step [OF assms(1), of b' p])
  show "trID t1 \<noteq> trID t2" if "q \<noteq> p" "bkEntry b' p = Some t1" "bkEntry b q = Some t2" for q t1 t2
    using that(2) new [OF that(3)] assms(8) by (auto simp: put_phase_def)
qed (use bank_ok_tx [OF assms(1), of p] assms(2-6,8) in \<open>auto simp: put_phase_def\<close>)

lemma close_keeps_order: "bank_ok calls b \<Longrightarrow> bank_ok calls (close_tx p b)"
  by (rule bank_ok_entry_kept [where p = p]) (auto simp: close_tx_def)

lemma own_step_ok:
  assumes "transfer_step calls b (Some p) b'" "bank_ok calls b" "bkPhase b p \<noteq> Commit \<or> bkTables b' = bkTables b"
  shows "bank_ok calls b'"
  using assms(1)
proof cases
  case (load_sender sa)
  then show ?thesis using bank_ok_tx [OF assms(2), of p] row_seen_loaded [OF assms(2) _ load_sender(3)]
    by (intro load_keeps_order [OF assms(2) load_sender(1)]) simp
next
  case (load_receiver sa ra)
  then show ?thesis using bank_ok_tx [OF assms(2), of p] row_seen_loaded [OF assms(2) _ load_receiver(3)]
    by (intro load_keeps_order [OF assms(2) load_receiver(1)]) (simp add: both_in_def)
next
  case (record_entry sa ra tr k cur t)
  then show ?thesis by (intro record_keeps_order [OF assms(2) record_entry(2), of tr]) auto
next
  case commit
  then have "b' = close_tx p b" using assms(3) by (simp add: close_tx_def)
  then show ?thesis using close_keeps_order assms(2) by simp
qed (use debit_keeps_order credit_keeps_order close_keeps_order assms(2) in blast)+

text \<open>A change of the committed tables that touches no row an open transaction has written.\<close>

lemma outside_step_ok:
  assumes "bank_ok calls b" "b' = b\<lparr>bkTables := bkTables b'\<rparr>" "tbTransfers (bkTables b') = tbTransfers (bkTables b)"
    and "tbAccounts (bkTables b') = tbAccounts (bkTables b) \<or> (\<exists>i a. tbAccounts (bkTables b) i = None \<and> aID a = i
          \<and> tbAccounts (bkTables b') = (tbAccounts (bkTables b))(i \<mapsto> a))"
  shows "bank_ok calls b'"
proof -
  have "keyed (bkTables b')" using bank_ok_keyed [OF assms(1)] assms(3,4) by (auto simp: keyed_def split: if_splits)
  moreover have "undisturbed (bkRows b q) (bkEntry b q) (bkTables b) (bkTables b')" for q
    using tx_ok_rows_exist [OF bank_ok_tx [OF assms(1), of q]] assms(3,4)
    by (fastforce simp: undisturbed_def account_in_def)
  ultimately show ?thesis using bank_ok_tables_step [OF assms(1)] assms(2) by metis
qed

lemma moved_step_ok:
  assumes "bank_ok calls b" "bkPhase b p = Commit" "bkEntry b p = Some tr"
    and "transfer_moved (tcRequest (calls p)) (tcSender (calls p)) (bkTables b) T' tr"
  shows "bank_ok calls ((close_tx p b)\<lparr>bkTables := T'\<rparr>)"
proof -
  let ?b1 = "close_tx p b"
  note facts = moved_facts [OF assms(4) bank_ok_keyed [OF assms(1)]]
  have "undisturbed (bkRows ?b1 q) (bkEntry ?b1 q) (bkTables ?b1) T'" for q
  proof (cases "q = p")
    case True
    then show ?thesis using facts(2) by (simp add: undisturbed_def close_tx_def)
  next
    case False
    have "dom (bkRows b p) = {tcSender (calls p), tcReceiver (calls p)}"
      by (rule credit_rows_dom [of "bkTables b"]) (use bank_ok_tx [OF assms(1), of p] assms(2) in simp)
    then have "tbAccounts T' i = tbAccounts (bkTables b) i" if "i \<in> dom (bkRows b q)" for i
      using facts(4) [of i] bank_ok_locks [OF assms(1) False] that by blast
    moreover have "tbTransfers T' (trID t) = None"
      if "bkEntry b q = Some t" "tbTransfers (bkTables b) (trID t) = None" for t
      using facts(3) that bank_ok_ids [OF assms(1) False that(1) assms(3)] by (metis fun_upd_other)
    ultimately show ?thesis using facts(2) False by (simp add: undisturbed_def close_tx_def)
  qed
  from bank_ok_tables_step [OF close_keeps_order [OF assms(1)] facts(1) this] show ?thesis .
qed

lemma step_keeps_order:
  assumes "transfer_step calls b who b'" "bank_ok calls b"
  shows "bank_ok calls b'"
proof (cases who)
  case None
  with assms(1) have "b' = b\<lparr>bkTables := bkTables b'\<rparr>" by (auto elim: transfer_stepE)
  then show ?thesis using None
    by (cases rule: step_tables [OF assms]) (auto intro!: outside_step_ok [OF assms(2)])
next
  case (Some p)
  show ?thesis using assms
  proof (cases rule: step_tables)
    case (moved q tr)
    have "b' = (close_tx q b)\<lparr>bkTables := bkTables b'\<rparr>"
      using assms(1) moved(1,2) by (auto simp: close_tx_def elim: transfer_stepE)
    then show ?thesis using moved_step_ok [OF assms(2) moved(2-4)] by simp
  qed (use own_step_ok assms Some in simp_all)
qed

lemma steps_keep_order: "transfer_steps calls b ps b' \<Longrightarrow> bank_ok calls b \<Longrightarrow> bank_ok calls b'"
  by (induction rule: transfer_steps.induct) (auto intro: step_keeps_order)

lemma fresh_bank_ok: "keyed T \<Longrightarrow> bank_ok calls (fresh_bank T)"
  by (simp add: bank_ok_def fresh_bank_def)

end
