(* ===== verification/Transfers_Concurrent.thy ===== *)
theory Transfers_Concurrent
  imports Transfers_Interleaved Pg_Services
begin

text \<open>
  What interleaved transfers keep and what they do not: the books stay right in every reachable state, a
  request on its own is the sequential operation, and two requests can overdraw an account.
\<close>

section \<open>The books under concurrency\<close>

lemma step_keeps_books:
  assumes "transfer_step calls b who b'" "bank_ok calls b" "\<And>p. sint (tcAmount (calls p)) \<noteq> - (2 ^ 63)"
  shows "money_in cur (bkTables b') = money_in cur (bkTables b)" "ledger_ok (bkTables b) \<Longrightarrow> ledger_ok (bkTables b')"
proof -
  have fin: "finite (dom (tbAccounts (bkTables b)))" "finite (dom (tbTransfers (bkTables b)))"
    and refs: "\<And>k tr. tbTransfers (bkTables b) k = Some tr \<Longrightarrow> tbAccounts (bkTables b) (trSenderAccountID tr) \<noteq> None
      \<and> tbAccounts (bkTables b) (trReceiverAccountID tr) \<noteq> None"
    using bank_ok_keyed [OF assms(2)] by (auto simp: keyed_def)
  from assms(1,2) show "money_in cur (bkTables b') = money_in cur (bkTables b)"
  proof (cases rule: step_tables)
    case (moved p tr)
    then show ?thesis using transfer_moved_money [OF moved(4) fin(1)] assms(3) [of p] by simp
  next
    case (opened i a)
    then show ?thesis using new_account_money [OF fin(1)] by metis
  qed (simp_all add: money_in_def)
  from assms(1,2) show "ledger_ok (bkTables b')" if "ledger_ok (bkTables b)"
  proof (cases rule: step_tables)
    case (moved p tr)
    then show ?thesis using transfer_moved_ledger [OF moved(4) that fin(2)] assms(3) [of p] by simp
  next
    case (opened i a)
    from opened_account_ledger [OF opened(2,4-6) no_flow_unreferenced [OF refs opened(2)] that] show ?thesis .
  qed (use that in \<open>simp_all add: ledger_ok_def net_flow_def\<close>)
qed

text \<open>C27: Under every interleaving of any number of transfers, none of the amount \<open>-(2 ^ 63)\<close>, with any of them failing or giving up at any
  step, the committed tables never show half a transfer: no money is created or lost and every balance is
  the sum of the recorded transfers of its account.\<close>

theorem interleaved_transfers_keep_books:
  assumes "keyed T" "transfer_steps calls (fresh_bank T) ps b" "\<And>p. sint (tcAmount (calls p)) \<noteq> - (2 ^ 63)"
  shows "money_in cur (bkTables b) = money_in cur T \<and> (ledger_ok T \<longrightarrow> ledger_ok (bkTables b))"
proof -
  have "money_in cur (bkTables b') = money_in cur (bkTables b0) \<and> (ledger_ok (bkTables b0) \<longrightarrow> ledger_ok (bkTables b'))"
    if "transfer_steps calls b0 qs b'" "bank_ok calls b0" for b0 qs b'
    using that
  proof (induction rule: transfer_steps.induct)
    case (steps_snoc b qs b1 q b2)
    then show ?case using step_keeps_books [OF steps_snoc.hyps(2) steps_keep_order [OF steps_snoc.hyps(1)] assms(3)]
      by auto
  qed simp
  from this [OF assms(2) fresh_bank_ok [OF assms(1)]] show ?thesis by (simp add: fresh_bank_def)
qed

section \<open>Progress\<close>

fun steps_left :: "phase \<Rightarrow> nat" where
  "steps_left LoadSender = 6"
| "steps_left (LoadReceiver sa) = 5"
| "steps_left (Debit sa ra) = 4"
| "steps_left (Credit sa ra) = 3"
| "steps_left (Record sa ra) = 2"
| "steps_left Commit = 1"
| "steps_left Closed = 0"

lemma steps_left_0 [simp]: "steps_left ph = 0 \<longleftrightarrow> ph = Closed"
  by (cases ph) simp_all

lemma add_balance_phase [simp]: "bkPhase (add_balance p i n t b) = bkPhase b"
  by (simp add: add_balance_def split: option.split)

lemma step_progress:
  "transfer_step calls b who b' \<Longrightarrow>
     (who = Some p \<longrightarrow> steps_left (bkPhase b' p) < steps_left (bkPhase b p)) \<and> (who \<noteq> Some p \<longrightarrow> bkPhase b' p = bkPhase b p)"
  by (induction rule: transfer_step.induct) (auto simp: put_phase_def close_tx_def intro: gr0I)

lemma steps_bound:
  "transfer_steps calls b ps b' \<Longrightarrow> count_list ps (Some p) + steps_left (bkPhase b' p) \<le> steps_left (bkPhase b p)"
proof (induction rule: transfer_steps.induct)
  case (steps_snoc b qs b1 q b2)
  then show ?case using step_progress [OF steps_snoc.hyps(2), of p] by (cases "q = Some p") auto
qed simp

section \<open>A request on its own\<close>

definition quiet :: "bank \<Rightarrow> bool" where
  "quiet b \<longleftrightarrow> (\<forall>q. bkRows b q = Map.empty \<and> bkEntry b q = None)"

lemma quiet_simps: "quiet b \<Longrightarrow> bkRows b q = Map.empty" "quiet b \<Longrightarrow> bkEntry b q = None"
  by (simp_all add: quiet_def)

lemma steps_trans: "transfer_steps calls b1 qs b2 \<Longrightarrow> transfer_steps calls b ps b1 \<Longrightarrow> transfer_steps calls b (ps @ qs) b2"
proof (induction rule: transfer_steps.induct)
  case (steps_snoc b1 qs b2 q b3)
  then show ?case using transfer_steps.steps_snoc [of calls b "ps @ qs" b2 q b3] by simp
qed simp

lemma one_step: "transfer_step calls b p b' \<Longrightarrow> transfer_steps calls b [p] b'"
  using steps_snoc [OF steps_Nil, of calls b p b'] by simp

text \<open>The last two steps: the transfer is recorded and everything committed.\<close>

lemma run_records:
  assumes "bkPhase b p = Record sa ra" "c = calls p" "aID sa = tcSender c" "aID ra = tcReceiver c"
    and "quiet (b\<lparr>bkRows := (bkRows b)(p := Map.empty)\<rparr>)" "tbAccounts (bkTables b) ++ bkRows b p = A"
    and "A (tcSender c) \<noteq> None" "A (tcReceiver c) \<noteq> None"
    and "tbTransfers (bkTables b) k = None" "fits_varchar 3 (rqCurrency (tcRequest c)) cur"
  shows "\<exists>b'. transfer_steps calls b (replicate 2 (Some p)) b' \<and> quiet b' \<and> bkPhase b' = (bkPhase b)(p := Closed)
    \<and> bkTables b' = (bkTables b)\<lparr>tbAccounts := A, tbTransfers := (tbTransfers (bkTables b))(k \<mapsto>
         \<lparr>trID = k, trSenderAccountID = tcSender c, trReceiverAccountID = tcReceiver c, trAmount = tcAmount c,
           trCurrency = cur, trDescription = rqDescription (tcRequest c), trCreatedAt = t\<rparr>)\<rparr>"
proof -
  let ?tr = "\<lparr>trID = k, trSenderAccountID = tcSender c, trReceiverAccountID = tcReceiver c, trAmount = tcAmount c,
    trCurrency = cur, trDescription = rqDescription (tcRequest c), trCreatedAt = t\<rparr>"
  have rows: "bkRows b q = Map.empty" if "q \<noteq> p" for q
    using quiet_simps(1) [OF assms(5), of q] that by simp
  have entry: "bkEntry b q = None" for q using quiet_simps(2) [OF assms(5)] by simp
  define b4 where "b4 = put_phase p Commit (b\<lparr>bkEntry := (bkEntry b)(p := Some ?tr)\<rparr>)"
  define b5 where "b5 = close_tx p (b4\<lparr>bkTables := committed_tables b4 p\<rparr>)"
  have "transfer_step calls b (Some p) b4"
    unfolding b4_def using assms entry record_entry [of b p sa ra ?tr k calls cur t] by (simp add: row_seen_def)
  moreover have "transfer_step calls b4 (Some p) b5"
    unfolding b5_def by (rule commit) (simp add: b4_def put_phase_def)
  ultimately have "transfer_steps calls b (([] @ [Some p]) @ [Some p]) b5"
    by (intro steps_snoc) (rule steps_Nil, assumption+)
  moreover have "bkTables b5 = (bkTables b)\<lparr>tbAccounts := A, tbTransfers := (tbTransfers (bkTables b))(k \<mapsto> ?tr)\<rparr>"
    using assms(6) by (simp add: b5_def b4_def close_tx_def put_phase_def committed_tables_def Let_def)
  moreover have "quiet b5" "bkPhase b5 = (bkPhase b)(p := Closed)"
    using rows entry by (auto simp: quiet_def b5_def b4_def close_tx_def put_phase_def)
  ultimately show ?thesis by (intro exI [of _ b5]) (simp add: numeral_eq_Suc)
qed

text \<open>The three before: the receiver is loaded and both balances are written.\<close>

lemma run_balances:
  assumes "bkPhase b p = LoadReceiver sa" "quiet b" "c = calls p" "aID sa = tcSender c"
    and "aCurrency sa = rqCurrency (tcRequest c)" "tbAccounts (bkTables b) (tcReceiver c) = Some ra"
    and "aID ra = tcReceiver c" "aCurrency ra = rqCurrency (tcRequest c)"
    and "added (- tcAmount c) (tcSender c) (bkTables b) T1" "added (tcAmount c) (tcReceiver c) T1 T2"
  shows "\<exists>b' R. transfer_steps calls b (replicate 3 (Some p)) b' \<and> tbAccounts (bkTables b) ++ R = tbAccounts T2
    \<and> b' = b\<lparr>bkPhase := (bkPhase b)(p := Record sa ra), bkRows := (bkRows b)(p := R)\<rparr>"
proof -
  let ?s = "tcSender c" and ?r = "tcReceiver c" and ?T = "bkTables b"
  note empty = quiet_simps [OF assms(2)]
  from assms(9) obtain a :: account and t1 where a: "tbAccounts ?T ?s = Some a" "bigint_sum_ok (aBalance a) (- tcAmount c)"
    "T1 = ?T\<lparr>tbAccounts := (tbAccounts ?T)(?s \<mapsto> a\<lparr>aBalance := aBalance a + - tcAmount c, aUpdatedAt := t1\<rparr>)\<rparr>"
    unfolding added_def by (elim exE conjE) (rule that; assumption)
  from assms(10) obtain a2 :: account and t2 where a2: "tbAccounts T1 ?r = Some a2" "bigint_sum_ok (aBalance a2) (tcAmount c)"
    "T2 = T1\<lparr>tbAccounts := (tbAccounts T1)(?r \<mapsto> a2\<lparr>aBalance := aBalance a2 + tcAmount c, aUpdatedAt := t2\<rparr>)\<rparr>"
    unfolding added_def by (elim exE conjE) (rule that; assumption)
  define R1 where "R1 = [?s \<mapsto> a\<lparr>aBalance := aBalance a + - tcAmount c, aUpdatedAt := t1\<rparr>]"
  define R2 where "R2 = R1(?r \<mapsto> a2\<lparr>aBalance := aBalance a2 + tcAmount c, aUpdatedAt := t2\<rparr>)"
  have R: "tbAccounts ?T ++ R1 = tbAccounts T1" "tbAccounts ?T ++ R2 = tbAccounts T2"
    by (simp_all add: R1_def R2_def a(3) a2(3))
  define b1 where "b1 = put_phase p (Debit sa ra) b"
  define b2 where "b2 = put_phase p (Credit sa ra) (b1\<lparr>bkRows := (bkRows b)(p := R1)\<rparr>)"
  define b3 where "b3 = put_phase p (Record sa ra) (b2\<lparr>bkRows := (bkRows b)(p := R2)\<rparr>)"
  have "transfer_step calls b (Some p) b1"
    unfolding b1_def by (rule load_receiver) (use assms empty in \<open>simp_all add: row_seen_def\<close>)
  moreover have "transfer_step calls b1 (Some p) b2"
    using debit [of b1 p sa ra calls t1] a assms(3,4) empty
    by (simp add: b1_def b2_def put_phase_def add_balance_def row_seen_def can_add_def unlocked_def R1_def)
  moreover have "row_seen b2 p ?r = Some a2" using R(1) a2(1) by (simp add: row_seen_def b2_def b1_def put_phase_def)
  then have "transfer_step calls b2 (Some p) b3"
    using credit [of b2 p sa ra calls t2] a2 assms(3,7) empty
    by (simp add: b3_def b2_def b1_def put_phase_def add_balance_def can_add_def unlocked_def R2_def)
  ultimately have "transfer_steps calls b ((([] @ [Some p]) @ [Some p]) @ [Some p]) b3"
    by (intro steps_snoc) (rule steps_Nil, assumption+)
  then show ?thesis using R(2) by (intro exI [of _ b3] exI [of _ R2]) (simp add: b3_def b2_def b1_def put_phase_def numeral_eq_Suc)
qed

lemma run_from_load:
  assumes "bkPhase b p = LoadReceiver sa" "quiet b" "c = calls p" "aID sa = tcSender c"
    and "aCurrency sa = rqCurrency (tcRequest c)" "tbAccounts (bkTables b) (tcReceiver c) = Some ra"
    and "aID ra = tcReceiver c" "aCurrency ra = rqCurrency (tcRequest c)"
    and "added (- tcAmount c) (tcSender c) (bkTables b) T1" "added (tcAmount c) (tcReceiver c) T1 T2"
    and "tbTransfers (bkTables b) k = None" "fits_varchar 3 (rqCurrency (tcRequest c)) cur"
  shows "\<exists>b'. transfer_steps calls b (replicate 5 (Some p)) b' \<and> quiet b' \<and> bkPhase b' = (bkPhase b)(p := Closed)
    \<and> bkTables b' = T2\<lparr>tbTransfers := (tbTransfers T2)(k \<mapsto> \<lparr>trID = k, trSenderAccountID = tcSender c,
         trReceiverAccountID = tcReceiver c, trAmount = tcAmount c, trCurrency = cur,
         trDescription = rqDescription (tcRequest c), trCreatedAt = t\<rparr>)\<rparr>"
proof -
  obtain b3 R where b3: "transfer_steps calls b (replicate 3 (Some p)) b3" "tbAccounts (bkTables b) ++ R = tbAccounts T2"
    "b3 = b\<lparr>bkPhase := (bkPhase b)(p := Record sa ra), bkRows := (bkRows b)(p := R)\<rparr>"
    using run_balances [of b p sa c calls ra T1 T2] assms(1-10) by blast
  have dom: "tbAccounts T2 (tcSender c) \<noteq> None" "tbAccounts T2 (tcReceiver c) \<noteq> None"
    using added_frame(1) [OF assms(9)] added_frame(1) [OF assms(10)] assms(9,10) by (auto simp: added_def)
  have T2: "T2 = (bkTables b)\<lparr>tbAccounts := tbAccounts T2\<rparr>" using assms(9,10) by (auto simp: added_def)
  have alone: "quiet (b3\<lparr>bkRows := (bkRows b3)(p := Map.empty)\<rparr>)" using b3(3) assms(2) by (simp add: quiet_def)
  obtain b5 where "transfer_steps calls b3 (replicate 2 (Some p)) b5" "quiet b5" "bkPhase b5 = (bkPhase b3)(p := Closed)"
    "bkTables b5 = (bkTables b3)\<lparr>tbAccounts := tbAccounts T2, tbTransfers := (tbTransfers (bkTables b3))(k \<mapsto>
         \<lparr>trID = k, trSenderAccountID = tcSender c, trReceiverAccountID = tcReceiver c, trAmount = tcAmount c,
           trCurrency = cur, trDescription = rqDescription (tcRequest c), trCreatedAt = t\<rparr>)\<rparr>"
    using run_records [of b3 p sa ra c calls "tbAccounts T2" k cur t, OF _ assms(3,4,7) alone] b3(2,3) assms(11,12) dom by auto
  moreover from this(1) b3(1) have "transfer_steps calls b (replicate 5 (Some p)) b5"
    using steps_trans [of calls b3 "replicate 2 (Some p)" b5 b "replicate 3 (Some p)"] by (simp add: numeral_eq_Suc)
  ultimately show ?thesis using b3(3) by (intro exI [of _ b5]) (simp, subst (1 2) T2, simp)
qed

lemma load_first:
  assumes "bkPhase b p = LoadSender" "quiet b" "tbAccounts (bkTables b) (tcSender (calls p)) = Some sa"
    and "aUserID sa = tcUser (calls p)" "sint (tcAmount (calls p)) \<le> sint (aBalance sa)"
  shows "transfer_step calls b (Some p) (put_phase p (LoadReceiver sa) b)"
  by (rule load_sender) (use assms quiet_simps in \<open>simp_all add: row_seen_def\<close>)

text \<open>What the specification of \<^verbatim>\<open>Transfer\<close> allows, the six steps of a request do.\<close>

lemma lone_run_does_it:
  assumes "keyed T" "transfer_done (tcUser (calls p)) (tcRequest (calls p)) (tcSender (calls p)) T T' tr"
  shows "\<exists>b. transfer_steps calls (fresh_bank T) (replicate 6 (Some p)) b \<and> bkPhase b p = Closed \<and> bkTables b = T'"
proof -
  let ?c = "calls p"
  from assms(2) obtain sa :: account and ra :: account where acc: "tbAccounts T (tcSender ?c) = Some sa" "tbAccounts T (tcReceiver ?c) = Some ra"
    "aUserID sa = tcUser ?c" "sint (tcAmount ?c) \<le> sint (aBalance sa)" "aCurrency sa = rqCurrency (tcRequest ?c)"
    "aCurrency ra = rqCurrency (tcRequest ?c)"
    unfolding transfer_done_def transfer_allowed_def by (elim exE conjE) (rule that; assumption)
  from assms(2) obtain T1 T2 cur where T: "added (- tcAmount ?c) (tcSender ?c) T T1" "added (tcAmount ?c) (tcReceiver ?c) T1 T2"
    "fits_varchar 3 (rqCurrency (tcRequest ?c)) cur" "tbTransfers T (trID tr) = None"
    "T' = T2\<lparr>tbTransfers := (tbTransfers T2)(trID tr \<mapsto> tr\<lparr>trCurrency := cur\<rparr>)\<rparr>"
    and tr: "trSenderAccountID tr = tcSender ?c" "trReceiverAccountID tr = tcReceiver ?c" "trAmount tr = tcAmount ?c"
      "trDescription tr = rqDescription (tcRequest ?c)"
    unfolding transfer_done_def by (metis added_frame(4))
  let ?b1 = "put_phase p (LoadReceiver sa) (fresh_bank T)"
  have ids: "aID sa = tcSender ?c" "aID ra = tcReceiver ?c" using assms(1) acc(1,2) unfolding keyed_def by blast+
  have "transfer_step calls (fresh_bank T) (Some p) ?b1"
    by (rule load_first) (use acc in \<open>simp_all add: fresh_bank_def quiet_def\<close>)
  moreover have b1: "bkPhase ?b1 p = LoadReceiver sa" "quiet ?b1" "bkTables ?b1 = T"
    by (simp_all add: put_phase_def fresh_bank_def quiet_def)
  from run_from_load [OF b1(1,2) refl, of calls ra T1 T2 "trID tr" cur "trCreatedAt tr"] acc ids T(1-4) b1(3) obtain b' where
    "transfer_steps calls ?b1 (replicate 5 (Some p)) b'" "bkPhase b' p = Closed" and
    "bkTables b' = T2\<lparr>tbTransfers := (tbTransfers T2)(trID tr \<mapsto> \<lparr>trID = trID tr, trSenderAccountID = tcSender ?c,
         trReceiverAccountID = tcReceiver ?c, trAmount = tcAmount ?c, trCurrency = cur,
         trDescription = rqDescription (tcRequest ?c), trCreatedAt = trCreatedAt tr\<rparr>)\<rparr>" by auto
  moreover have "tr\<lparr>trCurrency := cur\<rparr> = \<lparr>trID = trID tr, trSenderAccountID = tcSender ?c,
         trReceiverAccountID = tcReceiver ?c, trAmount = tcAmount ?c, trCurrency = cur,
         trDescription = rqDescription (tcRequest ?c), trCreatedAt = trCreatedAt tr\<rparr>"
    using tr by (cases tr) simp
  ultimately show ?thesis
    using steps_trans [OF _ one_step, of calls ?b1 "replicate 5 (Some p)" b' "fresh_bank T" "Some p"] T(5)
    by (intro exI [of _ b']) (simp add: numeral_eq_Suc)
qed

text \<open>And what the steps of a request on its own commit is a transfer that the specification allows: the checks that
  it has passed are remembered in its phase.\<close>

fun checked :: "tables \<Rightarrow> transfer_call \<Rightarrow> phase \<Rightarrow> transfer option \<Rightarrow> bool" where
  "checked T c (LoadReceiver sa) e \<longleftrightarrow> tbAccounts T (tcSender c) = Some sa \<and> aUserID sa = tcUser c
     \<and> sint (tcAmount c) \<le> sint (aBalance sa)"
| "checked T c (Debit sa ra) e \<longleftrightarrow> transfer_allowed T (tcUser c) (tcRequest c) (tcSender c)"
| "checked T c (Credit sa ra) e \<longleftrightarrow> transfer_allowed T (tcUser c) (tcRequest c) (tcSender c)"
| "checked T c (Record sa ra) e \<longleftrightarrow> transfer_allowed T (tcUser c) (tcRequest c) (tcSender c)"
| "checked T c Commit e \<longleftrightarrow> transfer_allowed T (tcUser c) (tcRequest c) (tcSender c)
     \<and> (\<exists>tr. e = Some tr \<and> fits_varchar 3 (rqCurrency (tcRequest c)) (trCurrency tr) \<and> trDescription tr = rqDescription (tcRequest c))"
| "checked T c ph e \<longleftrightarrow> True"

definition lone_ok :: "(nat \<Rightarrow> transfer_call) \<Rightarrow> nat \<Rightarrow> tables \<Rightarrow> bank \<Rightarrow> bool" where
  "lone_ok calls p T b \<longleftrightarrow> bank_ok calls b
     \<and> (if bkPhase b p = Closed
        then bkTables b = T \<or> (\<exists>tr. transfer_done (tcUser (calls p)) (tcRequest (calls p)) (tcSender (calls p)) T (bkTables b) tr)
        else bkTables b = T \<and> checked T (calls p) (bkPhase b p) (bkEntry b p))"

lemma moved_done:
  assumes "transfer_moved req i T T' tr" "transfer_allowed T uid req i" "tbTransfers T' (trID tr) = Some tr"
    and "fits_varchar 3 (rqCurrency req) (trCurrency tr)" "trDescription tr = rqDescription req"
  shows "\<exists>tr'. transfer_done uid req i T T' tr'"
proof -
  let ?tr = "tr\<lparr>trCurrency := rqCurrency req\<rparr>"
  from assms(1) obtain T1 T2 cur where T: "added (- rqAmount req) i T T1" "added (rqAmount req) (rqReceiverAccountID req) T1 T2"
    "tbTransfers T (trID tr) = None" "T' = T2\<lparr>tbTransfers := (tbTransfers T2)(trID tr \<mapsto> tr\<lparr>trCurrency := cur\<rparr>)\<rparr>"
    and tr: "trSenderAccountID tr = i" "trReceiverAccountID tr = rqReceiverAccountID req" "trAmount tr = rqAmount req"
    unfolding transfer_moved_def by (elim exE conjE) (rule that; assumption)
  have "trCurrency tr = trCurrency (tr\<lparr>trCurrency := cur\<rparr>)" using assms(3) T(4) by simp
  then have "?tr\<lparr>trCurrency := trCurrency tr\<rparr> = tr\<lparr>trCurrency := cur\<rparr>" by simp
  then have "transfer_done uid req i T T' ?tr"
    unfolding transfer_done_def using assms(2,4,5) T tr by (intro conjI exI [of _ T1] exI [of _ T2] exI [of _ "trCurrency tr"]) simp_all
  then show ?thesis ..
qed

lemma add_balance_tables: "bkTables (add_balance p i n t b) = bkTables b"
  by (simp add: add_balance_def split: option.split)

lemma lone_step:
  assumes "transfer_step calls b (Some p) b'" "lone_ok calls p T b"
  shows "lone_ok calls p T b'"
proof -
  have ok: "bank_ok calls b" using assms(2) by (simp add: lone_ok_def)
  note ok' = step_keeps_order [OF assms(1) ok]
  note tx = bank_ok_tx [OF ok, of p]
  show ?thesis using assms(1)
  proof cases
    case (load_sender sa)
    then show ?thesis using assms(2) ok' tx by (simp add: lone_ok_def put_phase_def row_seen_def)
  next
    case (load_receiver sa ra)
    then show ?thesis using assms(2) ok' tx by (simp add: lone_ok_def put_phase_def row_seen_def transfer_allowed_def)
  next
    case (commit)
    let ?c = "calls p"
    from commit_moves [OF ok commit(2)] obtain tr where tr: "bkEntry b p = Some tr"
      "transfer_moved (tcRequest ?c) (tcSender ?c) (bkTables b) (committed_tables b p) tr" .
    have T: "bkTables b = T" "transfer_allowed T (tcUser ?c) (tcRequest ?c) (tcSender ?c)"
      "fits_varchar 3 (rqCurrency (tcRequest ?c)) (trCurrency tr)" "trDescription tr = rqDescription (tcRequest ?c)"
      using assms(2) commit(2) tr(1) by (simp_all add: lone_ok_def)
    have "tbTransfers (committed_tables b p) (trID tr) = Some tr" using tr(1) by (simp add: committed_tables_def Let_def)
    from moved_done [OF tr(2) [unfolded T(1)] T(2) this T(3,4)] show ?thesis
      using ok' commit(1) by (simp add: lone_ok_def close_tx_def)
  qed (use assms(2) ok' in \<open>auto simp: lone_ok_def put_phase_def close_tx_def add_balance_tables\<close>)
qed

lemma lone_run:
  "transfer_steps calls b ps b' \<Longrightarrow> set ps \<subseteq> {Some p} \<Longrightarrow> lone_ok calls p T b \<Longrightarrow> lone_ok calls p T b'"
  by (induction rule: transfer_steps.induct) (auto intro: lone_step)

lemma lone_run_result:
  assumes "keyed T" "transfer_steps calls (fresh_bank T) (replicate n (Some p)) b"
  shows "bkTables b = T \<or> (\<exists>tr. transfer_done (tcUser (calls p)) (tcRequest (calls p)) (tcSender (calls p)) T (bkTables b) tr)"
proof -
  have "lone_ok calls p T (fresh_bank T)"
    using fresh_bank_ok [OF assms(1)] by (simp add: lone_ok_def) (simp add: fresh_bank_def)
  moreover have "set (replicate n (Some p)) \<subseteq> {Some p}" by auto
  ultimately have "lone_ok calls p T b" using lone_run [OF assms(2)] by simp
  then show ?thesis by (auto simp: lone_ok_def split: if_splits)
qed

lemma schema_keyed: "schema_ok T \<Longrightarrow> keyed T"
  by (simp add: schema_ok_def keyed_def)

text \<open>C28: The steps of a request that no other interrupts are the operation itself.  When
  \<open>BankingService_Transfer\<close>, run from a state of the store, succeeds, six steps of the request commit exactly the tables
  that it commits.  When it refuses, no number of steps of the request changes the tables, unless the error was the database's own.
  And a run of the request alone that changes the tables does a transfer that the guards allow.\<close>

theorem steps_of_a_lone_transfer:
  assumes "sql_engine D ok committed tx_view" "ok d" "c = calls p"
    and "BankingService_Transfer D (PgAccountRepo D) (PgTransferRepo D) ctx (tcUser c) (tcRequest c) (tcSender c) d = (d', r)"
  shows "(case r of
      Inr tr \<Rightarrow> \<exists>b. transfer_steps calls (fresh_bank (committed d)) (replicate 6 (Some p)) b \<and> bkPhase b p = Closed
        \<and> bkTables b = committed d'
    | Inl e \<Rightarrow> driver_error e
        \<or> (\<forall>n b. transfer_steps calls (fresh_bank (committed d)) (replicate n (Some p)) b \<longrightarrow> bkTables b = committed d))
    \<and> (\<forall>n b. transfer_steps calls (fresh_bank (committed d)) (replicate n (Some p)) b \<longrightarrow> bkTables b = committed d
         \<or> (\<exists>tr. transfer_done (tcUser c) (tcRequest c) (tcSender c) (committed d) (bkTables b) tr))"
proof -
  have keyed: "keyed (committed d)" by (rule schema_keyed [OF sql_engine.committed_schema [OF assms(1,2)]])
  note lone = lone_run_result [OF keyed, of calls _ p, folded assms(3)]
  show ?thesis
  proof (cases r)
    case (Inr tr)
    then have "transfer_done (tcUser c) (tcRequest c) (tcSender c) (committed d) (committed d') tr"
      using sql_engine.Transfer_cases [OF assms(1,2,4)] by simp
    from lone_run_does_it [where calls = calls and p = p, OF keyed this [unfolded assms(3)]] show ?thesis using Inr lone by simp
  next
    case (Inl e)
    have "driver_error e" if "transfer_allowed (committed d) (tcUser c) (tcRequest c) (tcSender c)"
      by (rule sql_engine.Transfer_allowed_error [OF assms(1,2) that assms(4) [unfolded Inl]])
    then show ?thesis using Inl lone by (auto simp: transfer_done_def)
  qed
qed

section \<open>Two transfers overdraw an account\<close>

definition twin_account :: "int64 \<Rightarrow> int64 \<Rightarrow> int64 \<Rightarrow> account" where
  "twin_account i uid bal = \<lparr>aID = i, aUserID = uid, aCurrency = ''USD'', aBalance = bal, aCreatedAt = 0, aUpdatedAt = 0\<rparr>"

definition twin_tables :: tables where
  "twin_tables = \<lparr>tbUsers = Map.empty, tbTasks = Map.empty,
     tbAccounts = [1 \<mapsto> twin_account 1 1 100, 2 \<mapsto> twin_account 2 2 0], tbTransfers = Map.empty\<rparr>"

definition twin_calls :: "nat \<Rightarrow> transfer_call" where
  "twin_calls p = \<lparr>tcUser = 1, tcRequest = \<lparr>rqReceiverAccountID = 2, rqAmount = 60, rqCurrency = ''USD'',
     rqDescription = []\<rparr>, tcSender = 1\<rparr>"

lemma twin_keyed: "keyed twin_tables"
  by (auto simp: keyed_def twin_tables_def twin_account_def split: if_splits)

lemma twin_transfer:
  assumes "bkPhase b p = LoadReceiver (twin_account 1 1 100)" "quiet b" "tbTransfers (bkTables b) k = None"
    and "tbAccounts (bkTables b) 1 = Some (twin_account 1 1 m)" "tbAccounts (bkTables b) 2 = Some (twin_account 2 2 n)"
    and "bigint_sum_ok m (- 60)" "bigint_sum_ok n 60"
  shows "\<exists>b'. transfer_steps twin_calls b (replicate 5 (Some p)) b' \<and> quiet b' \<and> bkPhase b' = (bkPhase b)(p := Closed)
    \<and> (\<forall>j. j \<noteq> k \<longrightarrow> tbTransfers (bkTables b') j = tbTransfers (bkTables b) j)
    \<and> tbAccounts (bkTables b') 1 = Some (twin_account 1 1 (m - 60)) \<and> tbAccounts (bkTables b') 2 = Some (twin_account 2 2 (n + 60))"
proof -
  let ?T = "bkTables b"
  let ?T1 = "?T\<lparr>tbAccounts := (tbAccounts ?T)(1 \<mapsto> twin_account 1 1 (m - 60))\<rparr>"
  let ?T2 = "?T1\<lparr>tbAccounts := (tbAccounts ?T1)(2 \<mapsto> twin_account 2 2 (n + 60))\<rparr>"
  have T: "added (- 60) 1 ?T ?T1" "added 60 2 ?T1 ?T2"
    unfolding added_def using assms(4-7)
    by (intro exI [of _ "twin_account 1 1 m"] exI [of _ "0 :: int"], simp add: twin_account_def)
      (intro exI [of _ "twin_account 2 2 n"] exI [of _ "0 :: int"], use assms(5,7) in \<open>simp add: twin_account_def\<close>)
  show ?thesis
    using run_from_load [OF assms(1,2) refl, of twin_calls "twin_account 2 2 n" ?T1 ?T2 k "''USD''" 0] T assms
    by (auto simp: twin_calls_def twin_account_def fits_varchar_def utf8_length_def is_cont_def)
qed

text \<open>C29: The check of the funds does not hold under concurrency.  Two requests of 60 each against an account
  with 100 can both pass the check and both commit, although each of them alone leaves the account solvent:
  the balance ends at -20.\<close>

theorem concurrent_overdraft:
  "solvent twin_tables \<and> 0 \<le> sint (tcAmount (twin_calls p)) \<and>
   (\<exists>ps b a. transfer_steps twin_calls (fresh_bank twin_tables) ps b
      \<and> tbAccounts (bkTables b) 1 = Some a \<and> sint (aBalance a) = - 20)"
proof (intro conjI)
  show "solvent twin_tables"
    by (auto simp: solvent_def twin_tables_def twin_account_def split: if_splits)
  show "0 \<le> sint (tcAmount (twin_calls p))" by (simp add: twin_calls_def)
  let ?sa = "twin_account 1 1 100"
  let ?b0 = "fresh_bank twin_tables"
  let ?b1 = "put_phase 0 (LoadReceiver ?sa) ?b0"
  let ?b2 = "put_phase 1 (LoadReceiver ?sa) ?b1"
  have "transfer_step twin_calls ?b0 (Some 0) ?b1" "transfer_step twin_calls ?b1 (Some 1) ?b2"
    by (rule load_first; simp add: fresh_bank_def put_phase_def quiet_def twin_tables_def twin_calls_def twin_account_def)+
  then have "transfer_steps twin_calls ?b0 [Some 0, Some 1] ?b2"
    using steps_snoc [OF one_step] by fastforce
  moreover obtain b3 where b3: "transfer_steps twin_calls ?b2 (replicate 5 (Some 0)) b3" "quiet b3"
      "bkPhase b3 = (bkPhase ?b2)(0 := Closed)" "\<forall>j. j \<noteq> 1 \<longrightarrow> tbTransfers (bkTables b3) j = tbTransfers (bkTables ?b2) j"
      "tbAccounts (bkTables b3) 1 = Some (twin_account 1 1 (100 - 60))"
      "tbAccounts (bkTables b3) 2 = Some (twin_account 2 2 (0 + 60))"
    using twin_transfer [of ?b2 0 1 100 0]
    by (auto simp: put_phase_def fresh_bank_def quiet_def twin_tables_def bigint_sum_ok_def)
  moreover obtain b4 where "transfer_steps twin_calls b3 (replicate 5 (Some 1)) b4"
      "tbAccounts (bkTables b4) 1 = Some (twin_account 1 1 (100 - 60 - 60))"
    using twin_transfer [of b3 1 2 "100 - 60" "0 + 60"] b3
    by (auto simp: put_phase_def fresh_bank_def twin_tables_def bigint_sum_ok_def)
  ultimately have "transfer_steps twin_calls ?b0 (([Some 0, Some 1] @ replicate 5 (Some 0)) @ replicate 5 (Some 1)) b4"
    "tbAccounts (bkTables b4) 1 = Some (twin_account 1 1 (100 - 60 - 60))"
    using steps_trans by blast+
  moreover have "sint (aBalance (twin_account 1 1 (100 - 60 - 60))) = - 20" by (simp add: twin_account_def)
  ultimately show "\<exists>ps b a. transfer_steps twin_calls ?b0 ps b \<and> tbAccounts (bkTables b) 1 = Some a
      \<and> sint (aBalance a) = - 20" by blast
qed

lemma twin_first:
  "\<exists>b. transfer_steps twin_calls (fresh_bank twin_tables) ([Some 0] @ replicate 5 (Some 0)) b
     \<and> tbAccounts (bkTables b) 1 = Some (twin_account 1 1 40)"
proof -
  let ?b1 = "put_phase 0 (LoadReceiver (twin_account 1 1 100)) (fresh_bank twin_tables)"
  have "transfer_step twin_calls (fresh_bank twin_tables) (Some 0) ?b1"
    by (rule load_first; simp add: fresh_bank_def quiet_def twin_tables_def twin_calls_def twin_account_def)
  moreover obtain b where "transfer_steps twin_calls ?b1 (replicate 5 (Some 0)) b"
      "tbAccounts (bkTables b) 1 = Some (twin_account 1 1 (100 - 60))"
    using twin_transfer [of ?b1 0 1 100 0]
    by (auto simp: put_phase_def fresh_bank_def quiet_def twin_tables_def bigint_sum_ok_def)
  ultimately show ?thesis using steps_trans [OF _ one_step] by (intro exI [of _ b]) simp
qed

lemma twin_amounts: "sint (tcAmount (twin_calls p)) \<noteq> - (2 ^ 63)"
  by (simp add: twin_calls_def)

lemma interleaved_transfers_keep_books_witness:
  "\<exists>b :: bank. tbAccounts (bkTables b) 1 = Some (twin_account 1 1 40) \<and> money_in ''USD'' (bkTables b) = money_in ''USD'' twin_tables"
proof -
  obtain b where b: "transfer_steps twin_calls (fresh_bank twin_tables) ([Some 0] @ replicate 5 (Some 0)) b"
    "tbAccounts (bkTables b) 1 = Some (twin_account 1 1 40)"
    using twin_first by (elim exE conjE) (rule that; assumption)
  from interleaved_transfers_keep_books [OF twin_keyed b(1) twin_amounts, of "''USD''"] b(2) show ?thesis
    by (intro exI [of _ b]) simp
qed

definition rent_calls :: "nat \<Rightarrow> transfer_call" where
  "rent_calls p = \<lparr>tcUser = 1, tcRequest = demo_request 30, tcSender = 1\<rparr>"

lemma steps_of_a_lone_transfer_witness:
  "\<exists>b. transfer_steps rent_calls (fresh_bank (pgTables pg_demo)) (replicate 6 (Some 0)) b
     \<and> bkTables b = pgTables (fst (pg_transfer demo_driver background 1 (demo_request 30) 1 pg_demo))"
proof -
  let ?run = "pg_transfer demo_driver background 1 (demo_request 30) 1 pg_demo"
  have "pg_transfer demo_driver background (tcUser (rent_calls 0)) (tcRequest (rent_calls 0)) (tcSender (rent_calls 0)) pg_demo
      = (fst ?run, snd ?run)" by (simp add: rent_calls_def)
  from steps_of_a_lone_transfer [where calls = rent_calls and p = 0, OF pg_engine.sql_engine_axioms pg_demo_inv refl this] show ?thesis
    unfolding transfer_demo_run by auto
qed

end
