(* ===== verification/Transfers_Waiting.thy ===== *)
theory Transfers_Waiting
  imports Transfers_Concurrent
begin

text \<open>
  When concurrent transfers wait, for whom and how long.  A transfer waits for a row that another has written and not
  yet committed; the rows are written in the order sender, receiver, so two transfers in opposite directions can wait
  for each other, and then the server has to break off one of them.
\<close>

section \<open>Waiting for a row\<close>

text \<open>The row that a transfer writes next, and the transfer that holds it.\<close>

fun next_row :: "transfer_call \<Rightarrow> phase \<Rightarrow> int64 option" where
  "next_row c (Debit sa ra) = Some (tcSender c)"
| "next_row c (Credit sa ra) = Some (tcReceiver c)"
| "next_row c ph = None"

definition waits_for :: "(nat \<Rightarrow> transfer_call) \<Rightarrow> bank \<Rightarrow> nat \<Rightarrow> nat \<Rightarrow> int64 \<Rightarrow> bool" where
  "waits_for calls b p q i \<longleftrightarrow> next_row (calls p) (bkPhase b p) = Some i \<and> q \<noteq> p \<and> bkRows b q i \<noteq> None"

lemma waiter_stuck:
  assumes "bank_ok calls b" "waits_for calls b p q i" "transfer_step calls b (Some p) b'"
  shows "b' = close_tx p b"
  using assms(3) bank_ok_tx [OF assms(1), of p] assms(2)
  by (auto simp: waits_for_def can_add_def unlocked_def elim!: transfer_stepE)

lemma holder_steps_left:
  assumes "bank_ok calls b" "bkRows b q i \<noteq> None"
  shows "steps_left (bkPhase b q) \<le> 3"
  using bank_ok_tx [OF assms(1), of q] assms(2) by (cases "bkPhase b q") auto

lemma one_holder: "bank_ok calls b \<Longrightarrow> bkRows b q i \<noteq> None \<Longrightarrow> bkRows b q' i \<noteq> None \<Longrightarrow> q' = q"
  using bank_ok_locks [of calls b q q'] by blast

text \<open>A holder that itself waits has written its sender's row and wants its receiver's.\<close>

lemma waiting_holder:
  assumes "bank_ok calls b" "bkRows b q i \<noteq> None" "waits_for calls b q r j"
  shows "i = tcSender (calls q) \<and> j = tcReceiver (calls q)"
proof (cases "bkPhase b q")
  case (Credit sa ra)
  then have "debit_rows (bkTables b) (calls q) (bkRows b q)" using bank_ok_tx [OF assms(1), of q] by simp
  then have "dom (bkRows b q) = {tcSender (calls q)}" by (rule debit_rows_dom)
  then show ?thesis using assms(2,3) Credit by (auto simp: waits_for_def)
qed (use bank_ok_tx [OF assms(1), of q] assms(2,3) in \<open>auto simp: waits_for_def\<close>)

text \<open>C38: In every reachable state a transfer that waits for a row waits for exactly one other.  Until then no step of its own
  is possible but to be given up, and after at most three steps of the other the row is free.  The other can itself be
  waiting only if it holds its sender's row and wants its receiver's; so two transfers wait for each other only when the sender
  of each is the receiver of the other.\<close>

theorem waiting_for_rows:
  assumes "keyed T" "transfer_steps calls (fresh_bank T) ps b" "waits_for calls b p q i"
  shows "(\<forall>b'. transfer_step calls b (Some p) b' \<longrightarrow> b' = close_tx p b)
    \<and> (\<forall>q'. waits_for calls b p q' i \<longrightarrow> q' = q)
    \<and> (\<forall>qs b'. transfer_steps calls b qs b' \<and> 3 \<le> count_list qs (Some q) \<longrightarrow> bkRows b' q = Map.empty)
    \<and> (\<forall>r j. waits_for calls b q r j \<longrightarrow> i = tcSender (calls q) \<and> j = tcReceiver (calls q))
    \<and> (\<forall>j. waits_for calls b q p j \<longrightarrow> tcSender (calls p) = tcReceiver (calls q) \<and> tcReceiver (calls p) = tcSender (calls q))"
proof -
  have ok: "bank_ok calls b" using steps_keep_order [OF assms(2) fresh_bank_ok [OF assms(1)]] .
  have held: "bkRows b q i \<noteq> None" using assms(3) by (simp add: waits_for_def)
  have free: "bkRows b' q = Map.empty" if run: "transfer_steps calls b qs b'" "3 \<le> count_list qs (Some q)" for qs b'
  proof -
    have "steps_left (bkPhase b' q) = 0" using steps_bound [OF run(1), of q] holder_steps_left [OF ok held] run(2) by linarith
    then have "bkPhase b' q = Closed" by simp
    then show ?thesis using bank_ok_tx [OF steps_keep_order [OF run(1) ok], of q] by simp
  qed
  have mutual: "tcSender (calls p) = tcReceiver (calls q) \<and> tcReceiver (calls p) = tcSender (calls q)"
    if "waits_for calls b q p j" for j
    using waiting_holder [OF ok held that] waiting_holder [OF ok _ assms(3), of j] that by (simp add: waits_for_def)
  have one: "q' = q" if "waits_for calls b p q' i" for q'
    by (rule one_holder [OF ok held]) (use that in \<open>simp add: waits_for_def\<close>)
  show ?thesis using waiter_stuck [OF ok assms(3)] one free waiting_holder [OF ok held] mutual by blast
qed

section \<open>Transfers that wait for each other\<close>

definition cross_tables :: tables where
  "cross_tables = \<lparr>tbUsers = Map.empty, tbTasks = Map.empty,
     tbAccounts = [1 \<mapsto> twin_account 1 1 100, 2 \<mapsto> twin_account 2 2 100], tbTransfers = Map.empty\<rparr>"

definition cross_calls :: "nat \<Rightarrow> transfer_call" where
  "cross_calls p =
     (if p = 0
      then \<lparr>tcUser = 1, tcRequest = \<lparr>rqReceiverAccountID = 2, rqAmount = 60, rqCurrency = ''USD'', rqDescription = []\<rparr>, tcSender = 1\<rparr>
      else \<lparr>tcUser = 2, tcRequest = \<lparr>rqReceiverAccountID = 1, rqAmount = 60, rqCurrency = ''USD'', rqDescription = []\<rparr>, tcSender = 2\<rparr>)"

definition cross_bank :: bank where
  "cross_bank = \<lparr>bkTables = cross_tables,
     bkPhase = (\<lambda>_. LoadSender)(0 := Credit (twin_account 1 1 100) (twin_account 2 2 100), 1 := Credit (twin_account 2 2 100) (twin_account 1 1 100)),
     bkRows = (\<lambda>_. Map.empty)(0 := [1 \<mapsto> twin_account 1 1 40], 1 := [2 \<mapsto> twin_account 2 2 40]), bkEntry = \<lambda>_. None\<rparr>"

text \<open>Loads read without locks, from any state in which the two rows are as committed.\<close>

lemma cross_loads:
  assumes "bkTables b = cross_tables" "bkPhase b p = LoadSender" "bkRows b p = Map.empty" "p < 2"
    and "unlocked b p (tcSender (cross_calls p))"
    and "sa = twin_account (tcSender (cross_calls p)) (tcUser (cross_calls p)) 100"
    and "ra = twin_account (tcReceiver (cross_calls p)) (3 - tcUser (cross_calls p)) 100"
  shows "transfer_steps cross_calls b (replicate 3 (Some p))
    (b\<lparr>bkPhase := (bkPhase b)(p := Credit sa ra),
       bkRows := (bkRows b)(p := [tcSender (cross_calls p) \<mapsto> sa\<lparr>aBalance := 40\<rparr>])\<rparr>)"
proof -
  let ?b1 = "put_phase p (LoadReceiver sa) b" and ?b2 = "put_phase p (Debit sa ra) b"
  let ?b3 = "put_phase p (Credit sa ra) (add_balance p (aID sa) (- tcAmount (cross_calls p)) 0 b)"
  have p: "p = 0 \<or> p = 1" using assms(4) by auto
  have "transfer_step cross_calls b (Some p) ?b1"
    by (rule load_sender) (use assms p in \<open>auto simp: row_seen_def cross_tables_def cross_calls_def twin_account_def\<close>)
  moreover have "transfer_step cross_calls ?b1 (Some p) ?b2"
    using load_receiver [of ?b1 p sa cross_calls ra] assms p
    by (auto simp: put_phase_def row_seen_def cross_tables_def cross_calls_def twin_account_def)
  moreover have "transfer_step cross_calls ?b2 (Some p) ?b3"
    using debit [of ?b2 p sa ra cross_calls 0] assms p
    by (auto simp: put_phase_def can_add_def unlocked_def row_seen_def add_balance_def cross_tables_def cross_calls_def
        twin_account_def bigint_sum_ok_def)
  ultimately have "transfer_steps cross_calls b ([Some p] @ [Some p] @ [Some p]) ?b3"
    by (meson one_step steps_trans)
  moreover have "?b3 = b\<lparr>bkPhase := (bkPhase b)(p := Credit sa ra),
       bkRows := (bkRows b)(p := [tcSender (cross_calls p) \<mapsto> sa\<lparr>aBalance := 40\<rparr>])\<rparr>"
    using assms p by (auto simp: put_phase_def add_balance_def row_seen_def cross_tables_def cross_calls_def twin_account_def)
  ultimately show ?thesis by (simp add: numeral_3_eq_3)
qed

lemma cross_reached: "transfer_steps cross_calls (fresh_bank cross_tables) (replicate 3 (Some 0) @ replicate 3 (Some 1)) cross_bank"
proof -
  let ?b = "fresh_bank cross_tables"
  let ?b1 = "?b\<lparr>bkPhase := (bkPhase ?b)(0 := Credit (twin_account 1 1 100) (twin_account 2 2 100)),
    bkRows := (bkRows ?b)(0 := [1 \<mapsto> twin_account 1 1 40])\<rparr>"
  have "transfer_steps cross_calls ?b (replicate 3 (Some 0)) ?b1"
    using cross_loads [of ?b 0 "twin_account 1 1 100" "twin_account 2 2 100"]
    by (simp add: fresh_bank_def unlocked_def cross_calls_def twin_account_def)
  moreover have "transfer_steps cross_calls ?b1 (replicate 3 (Some 1)) cross_bank"
    using cross_loads [of ?b1 1 "twin_account 2 2 100" "twin_account 1 1 100"]
    by (simp add: fresh_bank_def unlocked_def cross_calls_def twin_account_def cross_bank_def)
  ultimately show ?thesis by (rule steps_trans [rotated])
qed

lemma waiting_step:
  assumes "transfer_step calls b (Some p) b'" "bkPhase b p = Credit sa ra" "\<not> can_add b p (aID ra) (tcAmount (calls p))"
  shows "b' = close_tx p b"
  using assms by (auto elim: transfer_stepE)

text \<open>C39: Two transfers in opposite directions can come to wait for each other.  Each has debited its
  sender, whose row it keeps locked, and needs the row of the other: the only step that either can take is to
  be given up.\<close>

theorem opposite_transfers_deadlock:
  "transfer_steps cross_calls (fresh_bank cross_tables) (replicate 3 (Some 0) @ replicate 3 (Some 1)) cross_bank
   \<and> bkPhase cross_bank 0 = Credit (twin_account 1 1 100) (twin_account 2 2 100)
   \<and> bkPhase cross_bank 1 = Credit (twin_account 2 2 100) (twin_account 1 1 100)
   \<and> (\<nexists>b'. transfer_step cross_calls cross_bank (Some 0) b' \<and> b' \<noteq> close_tx 0 cross_bank)
   \<and> (\<nexists>b'. transfer_step cross_calls cross_bank (Some 1) b' \<and> b' \<noteq> close_tx 1 cross_bank)"
proof -
  have "\<not> can_add cross_bank 0 2 60" "\<not> can_add cross_bank 1 1 60"
    by (auto simp: can_add_def unlocked_def cross_bank_def)
  then show ?thesis using cross_reached waiting_step [of cross_calls cross_bank]
    by (fastforce simp: cross_bank_def cross_calls_def twin_account_def)
qed

lemma waiting_for_rows_witness:
  "waits_for cross_calls cross_bank 0 1 2 \<and> waits_for cross_calls cross_bank 1 0 1
   \<and> (\<nexists>qs b'. transfer_steps cross_calls cross_bank qs b' \<and> 3 \<le> count_list qs (Some 1) \<and> bkRows b' 1 \<noteq> Map.empty)
   \<and> tcSender (cross_calls 0) = tcReceiver (cross_calls 1)"
proof -
  have keyed: "keyed cross_tables" by (auto simp: keyed_def cross_tables_def twin_account_def split: if_splits)
  have waits: "waits_for cross_calls cross_bank 0 1 2" "waits_for cross_calls cross_bank 1 0 1"
    by (simp_all add: waits_for_def cross_bank_def cross_calls_def)
  from waiting_for_rows [OF keyed cross_reached waits(1)] waits show ?thesis by blast
qed

end
