(* ===== verification/Balance_Cache.thy ===== *)
theory Balance_Cache
  imports Redis
begin

text \<open>
  \<^verbatim>\<open>internal/database/balance_cache.go\<close>: account balances in Redis, each under a key
  of its own and for a limited time.  A cache without a client is \<open>None\<close> and stores nothing.
\<close>

record 'r balance_cache =
  bcClient :: "'r redis_client option"
  bcTTL :: duration

definition NewBalanceCache :: "'r redis_client option \<Rightarrow> duration \<Rightarrow> 'r balance_cache" where
  "NewBalanceCache client ttl = \<lparr>bcClient = client, bcTTL = ttl\<rparr>"

definition balanceCacheKey :: "int64 \<Rightarrow> string" where
  "balanceCacheKey accountID = ''balance:'' @ FormatInt accountID"

definition BalanceCache_Get :: "'r balance_cache option \<Rightarrow> int64 \<Rightarrow> gotime \<Rightarrow> 'r
    \<Rightarrow> 'r \<times> (go_error + int64 \<times> bool)" where
  "BalanceCache_Get c accountID now s =
     (case Option.bind c bcClient of
        None \<Rightarrow> (s, Inr (0, False))
      | Some client \<Rightarrow>
          (case redisGet client (balanceCacheKey accountID) now s of
             (s, Inl err) \<Rightarrow>
               if err = RedisNil then (s, Inr (0, False))
               else (s, Inl (WrapError ''redis get balance cache'' err))
           | (s, Inr raw) \<Rightarrow>
               (case ParseInt raw of
                  (_, Some ne) \<Rightarrow> (s, Inl (WrapError ''parse cached balance'' (NumError ne raw)))
                | (balance, None) \<Rightarrow> (s, Inr (balance, True)))))"

definition BalanceCache_Set :: "'r balance_cache option \<Rightarrow> int64 \<Rightarrow> int64 \<Rightarrow> gotime \<Rightarrow> 'r
    \<Rightarrow> 'r \<times> (go_error + unit)" where
  "BalanceCache_Set c accountID balance now s =
     (case Option.bind c bcClient of
        None \<Rightarrow> (s, Inr ())
      | Some client \<Rightarrow>
          (case redisSet client (balanceCacheKey accountID) (FormatInt balance) (bcTTL (the c)) now s of
             (s, Inl err) \<Rightarrow> (s, Inl (WrapError ''redis set balance cache'' err))
           | (s, Inr _) \<Rightarrow> (s, Inr ())))"

definition BalanceCache_Invalidate :: "'r balance_cache option \<Rightarrow> int64 \<Rightarrow> gotime \<Rightarrow> 'r
    \<Rightarrow> 'r \<times> (go_error + unit)" where
  "BalanceCache_Invalidate c accountID now s =
     (case Option.bind c bcClient of
        None \<Rightarrow> (s, Inr ())
      | Some client \<Rightarrow>
          (case redisDel client (balanceCacheKey accountID) now s of
             (s, Inl err) \<Rightarrow> (s, Inl (WrapError ''redis invalidate balance cache'' err))
           | (s, Inr _) \<Rightarrow> (s, Inr ())))"

lemma balanceCacheKey_inj [simp]: "balanceCacheKey a = balanceCacheKey b \<longleftrightarrow> a = b"
  by (simp add: balanceCacheKey_def)

section \<open>A sequence of cache calls\<close>

text \<open>What the cache holds for an account at an instant.\<close>

definition cached :: "timeline \<Rightarrow> gotime \<Rightarrow> int64 \<Rightarrow> int64 option" where
  "cached L t i = map_option (\<lambda>v. fst (ParseInt v)) (L t (balanceCacheKey i))"

text \<open>Every live balance entry is a number.\<close>

definition cache_ok :: "timeline \<Rightarrow> gotime \<Rightarrow> bool" where
  "cache_ok L now \<longleftrightarrow>
     (\<forall>t \<ge> now. \<forall>i v. L t (balanceCacheKey i) = Some v \<longrightarrow> snd (ParseInt v) = None)"

context redis_store
begin

abbreviation (input) cache_of :: "duration \<Rightarrow> 'r balance_cache option" where
  "cache_of ttl \<equiv> Some (NewBalanceCache (Some R) ttl)"

lemma cache_get_cases:
  assumes "inv s" "cache_ok (live s) now" "BalanceCache_Get (cache_of ttl) i now s = (s', r)"
  shows "inv s' \<and> from_on now (live s') (live s)
    \<and> (case r of Inr (b, True) \<Rightarrow> cached (live s) now i = Some b
       | Inr (b, False) \<Rightarrow> cached (live s) now i = None \<and> b = 0
       | Inl e \<Rightarrow> (\<exists>m. e = WrapError ''redis get balance cache'' (LibError m)))"
proof -
  obtain s1 q where q: "redisGet R (balanceCacheKey i) now s = (s1, q)" by fastforce
  have num: "live s now (balanceCacheKey i) = Some v \<Longrightarrow> snd (ParseInt v) = None" for v
    using assms(2) unfolding cache_ok_def by blast
  show ?thesis
  proof (cases q)
    case (Inl e)
    then show ?thesis using get_cases [OF assms(1) q] q assms(3)
      by (auto simp: BalanceCache_Get_def NewBalanceCache_def cached_def split: if_splits)
  next
    case (Inr v)
    with get_cases [OF assms(1) q] have v: "live s now (balanceCacheKey i) = Some v" by simp
    then show ?thesis using get_cases [OF assms(1) q] q assms(3) Inr num [OF v]
      by (cases "ParseInt v") (auto simp: BalanceCache_Get_def NewBalanceCache_def cached_def)
  qed
qed

lemma cache_set_cases:
  assumes "inv s" "0 < ttl" "BalanceCache_Set (cache_of ttl) i b now s = (s', r)"
  shows "inv s' \<and>
    (let stored = from_on now (live s') (set_key (balanceCacheKey i) (FormatInt b) (now + lifetime ttl) (live s))
     in case r of Inr _ \<Rightarrow> stored | Inl e \<Rightarrow> from_on now (live s') (live s) \<or> stored)"
proof -
  obtain s1 q where q: "redisSet R (balanceCacheKey i) (FormatInt b) ttl now s = (s1, q)" by fastforce
  show ?thesis
    using set_ok [OF assms(1,2)] set_error [OF assms(1,2)] q assms(3)
    by (cases q) (fastforce simp: BalanceCache_Set_def NewBalanceCache_def Let_def)+
qed

lemma cache_invalidate_cases:
  assumes "inv s" "BalanceCache_Invalidate (cache_of ttl) i now s = (s', r)"
  shows "inv s' \<and>
    (case r of Inr _ \<Rightarrow> from_on now (live s') (del_key (balanceCacheKey i) (live s))
     | Inl e \<Rightarrow> from_on now (live s') (live s) \<or> from_on now (live s') (del_key (balanceCacheKey i) (live s)))"
proof -
  obtain s1 q where q: "redisDel R (balanceCacheKey i) now s = (s1, q)" by fastforce
  show ?thesis
    using del_ok [OF assms(1)] del_error [OF assms(1)] q assms(2)
    by (cases q) (fastforce simp: BalanceCache_Invalidate_def NewBalanceCache_def)+
qed

lemma cache_ok_set: "cache_ok L now \<Longrightarrow> cache_ok (set_key (balanceCacheKey i) (FormatInt b) e L) now"
  by (auto simp: cache_ok_def set_key_def split: if_splits)

lemma cache_ok_from_on: "from_on now L M \<Longrightarrow> cache_ok M now \<Longrightarrow> cache_ok L now"
  by (simp add: cache_ok_def from_on_def)

lemma cached_set:
  "cached (set_key (balanceCacheKey i) (FormatInt b) e L) t j
   = (if j = i then (if t < e then Some b else None) else cached L t j)"
  by (simp add: cached_def set_key_def)

lemma cached_from_on: "from_on now L M \<Longrightarrow> now \<le> t \<Longrightarrow> cached L t j = cached M t j"
  by (simp add: cached_def from_on_def)

end

text \<open>A balance that was cached is what the cache returns for that account until its lifetime is
  over and a miss after that, never another account's balance; a lookup can also fail.\<close>

theorem cache_set_then_get:
  assumes "redis_store R rinv live" "rinv s" "cache_ok (live s) now" "0 < ttl" "now \<le> t"
    and "BalanceCache_Set (Some (NewBalanceCache (Some R) ttl)) i b now s = (s', Inr ())"
    and "BalanceCache_Get (Some (NewBalanceCache (Some R) ttl)) j t s' = (s'', Inr (v, hit))"
  shows "if j = i then (hit \<longleftrightarrow> t < now + lifetime ttl) \<and> (hit \<longrightarrow> v = b)
         else (if hit then cached (live s) t j = Some v else cached (live s) t j = None)"
proof -
  note set = redis_store.cache_set_cases [OF assms(1,2,4,6), unfolded Let_def sum.case]
  let ?L = "set_key (balanceCacheKey i) (FormatInt b) (now + lifetime ttl) (live s)"
  have on: "from_on now (live s') ?L" and ok: "rinv s'" using set by simp_all
  have "cache_ok (live s') now"
    using redis_store.cache_ok_from_on [OF assms(1) on] redis_store.cache_ok_set [OF assms(1,3)] by simp
  then have "cache_ok (live s') t" using assms(5) unfolding cache_ok_def by (meson order_trans)
  from redis_store.cache_get_cases [OF assms(1) ok this assms(7)]
  have "if hit then cached (live s') t j = Some v else cached (live s') t j = None"
    by (cases hit) auto
  then show ?thesis
    using redis_store.cached_from_on [OF assms(1) on assms(5), of j]
      redis_store.cached_set [OF assms(1), of i b _ "live s" t j]
    by (auto split: if_splits)
qed

lemma cache_set_then_get_witness:
  "snd (BalanceCache_Get (Some (NewBalanceCache (Some (rd_client (\<lambda>_. None))) (5 * nanos_per_second))) 7 1
     (fst (BalanceCache_Set (Some (NewBalanceCache (Some (rd_client (\<lambda>_. None))) (5 * nanos_per_second))) 7 250 0
        rd_empty))) = Inr (250, True)"
proof -
  let ?c = "Some (NewBalanceCache (Some (rd_client (\<lambda>_. None))) (5 * nanos_per_second))"
  let ?set = "BalanceCache_Set ?c 7 250 0 rd_empty"
  let ?get = "BalanceCache_Get ?c 7 1 (fst ?set)"
  have set: "?set = (fst ?set, Inr ())"
    by (simp add: BalanceCache_Set_def NewBalanceCache_def rd_step_def rd_empty_def)
  have "\<exists>v hit. snd ?get = Inr (v, hit)"
    by (auto simp: BalanceCache_Set_def BalanceCache_Get_def NewBalanceCache_def rd_step_def rd_empty_def rd_get_def
        rd_live_put set_key_def lifetime_def millisecond_def nanos_per_second_def)
  then obtain v hit where get: "?get = (fst ?get, Inr (v, hit))" by (metis prod.collapse)
  have "cache_ok (rd_live rd_empty) 0" by (simp add: cache_ok_def rd_live_def rd_empty_def)
  from cache_set_then_get [OF rd_store.redis_store_axioms TrueI this _ _ set get]
  have "hit \<and> v = 250" by (simp add: nanos_per_second_def lifetime_def millisecond_def)
  with get show ?thesis by (metis snd_conv)
qed

end
