(* ===== verification/Rate_Limit.thy ===== *)
theory Rate_Limit
  imports Middleware Balance_Cache
begin

text \<open>
  What the rate limiter lets through, over any sequence of requests from any addresses, and the
  separation of the three kinds of keys that the program stores in one Redis database.
\<close>

section \<open>A sequence of requests at the limiter\<close>

text \<open>A request's address and its three instants: the reading of the clock, \<^verbatim>\<open>INCR\<close>,
  \<^verbatim>\<open>EXPIRE\<close>.\<close>

record rate_call =
  rcAddr :: string
  rcNow :: gotime
  rcIncr :: gotime
  rcExpire :: gotime

abbreviation call_key :: "rate_call \<Rightarrow> string" where
  "call_key c \<equiv> rateLimitKey (rcAddr c) (rcNow c)"

fun rate_run :: "'r redis_client \<Rightarrow> rate_call list \<Rightarrow> 'r \<Rightarrow> (rate_call \<times> (go_error + int64)) list" where
  "rate_run R [] s = []"
| "rate_run R (c # cs) s =
     (case incrementRateCounter R (call_key c) (rcIncr c) (rcExpire c) s of
        (s, count, warnings) \<Rightarrow> (c, count) # rate_run R cs s)"

text \<open>What \<^verbatim>\<open>RedisRateLimit\<close> makes of the count, when its limit is positive.\<close>

definition admitted :: "int64 \<Rightarrow> go_error + int64 \<Rightarrow> bool" where
  "admitted limit count = (case count of Inl _ \<Rightarrow> True | Inr n \<Rightarrow> \<not> isRateLimited n limit)"

definition failed :: "go_error + int64 \<Rightarrow> bool" where
  "failed count = (case count of Inl _ \<Rightarrow> True | Inr _ \<Rightarrow> False)"

text \<open>The clock does not run backwards, and a command runs within a minute of the reading.\<close>

fun calls_ordered :: "gotime \<Rightarrow> rate_call list \<Rightarrow> bool" where
  "calls_ordered t [] = True"
| "calls_ordered t (c # cs) \<longleftrightarrow> t \<le> rcNow c \<and> rcNow c \<le> rcIncr c \<and> rcIncr c \<le> rcExpire c
     \<and> rcIncr c \<le> rcNow c + 60 * nanos_per_second \<and> calls_ordered (rcExpire c) cs"

definition outcomes :: "string \<Rightarrow> (rate_call \<times> (go_error + int64)) list \<Rightarrow> (go_error + int64) list" where
  "outcomes k rs = map snd (filter (\<lambda>(c, _). call_key c = k) rs)"

definition passes :: "int64 \<Rightarrow> (go_error + int64) list \<Rightarrow> nat" where
  "passes limit rs = length (filter (admitted limit) rs)"

definition faults :: "(go_error + int64) list \<Rightarrow> nat" where
  "faults rs = length (filter failed rs)"

lemma outcomes_simps [simp]:
  "outcomes k [] = []"
  "outcomes k ((c, r) # rs) = (if call_key c = k then r # outcomes k rs else outcomes k rs)"
  by (simp_all add: outcomes_def)

lemma passes_simps [simp]:
  "passes limit [] = 0" "passes limit (r # rs) = (if admitted limit r then 1 else 0) + passes limit rs"
  by (simp_all add: passes_def)

lemma faults_simps [simp]:
  "faults [] = 0" "faults (r # rs) = (if failed r then 1 else 0) + faults rs"
  by (simp_all add: faults_def)

section \<open>The counter of one key\<close>

text \<open>The key holds \<open>m\<close> from \<open>t0\<close> until \<open>D\<close>.\<close>

definition holds :: "string \<Rightarrow> nat \<Rightarrow> gotime \<Rightarrow> gotime \<Rightarrow> timeline \<Rightarrow> bool" where
  "holds k m t0 D L \<longleftrightarrow>
     (\<forall>t. t0 \<le> t \<and> t < D \<longrightarrow> L t k = (if m = 0 then None else Some (FormatInt (of_nat m))))"

lemma holds_from_on: "holds k m t0 D L \<Longrightarrow> from_on t M L \<Longrightarrow> t0 \<le> t \<Longrightarrow> holds k m t D M"
  by (simp add: holds_def from_on_def)

lemma holds_later: "holds k m t0 D L \<Longrightarrow> t0 \<le> t \<Longrightarrow> holds k m t D L"
  by (simp add: holds_def)

lemma holds_counter: "holds k m t0 D L \<Longrightarrow> t0 \<le> t \<Longrightarrow> t < D \<Longrightarrow> counter (L t k) = of_nat m"
  by (simp add: holds_def counter_def)

lemma holds_incr:
  assumes "holds k m t0 D L" "t0 \<le> t" "t < D"
  shows "holds k (Suc m) t D (incr_key k t L)"
  using assms by (cases m) (auto simp: holds_def incr_key_def add.commute)

lemma holds_expire:
  assumes "holds k m t0 D L" "t0 \<le> t" "D \<le> e"
  shows "holds k m t D (expire_key k t e L)"
  using assms by (auto simp: holds_def expire_key_def)

lemma holds_others:
  assumes "holds k m t0 D L" "t0 \<le> t" "\<And>u. t \<le> u \<Longrightarrow> M u k = L u k"
  shows "holds k m t D M"
  using assms by (simp add: holds_def)

text \<open>The first instant after the lifetime of a bucket's key.\<close>

definition bucket_end :: "int \<Rightarrow> gotime" where
  "bucket_end b = of_unix (60 * b + 120)"

lemma bucket_start:
  assumes "minute_bucket now = b" "0 \<le> now"
  shows "of_unix (60 * b) \<le> now" "now + 60 * nanos_per_second < bucket_end b"
proof -
  have u: "0 \<le> unix now" using assms(2) by (simp add: unix_def nanos_per_second_def pos_imp_zdiv_nonneg_iff)
  then have b: "60 * b \<le> unix now" "unix now + 1 \<le> 60 * b + 60" using assms(1) by (simp_all add: minute_bucket_def)
  show "of_unix (60 * b) \<le> now" using b(1) by (simp add: of_unix_le_iff)
  have "now < of_unix (unix now + 1)" by (rule less_of_unix_Suc)
  also have "\<dots> \<le> of_unix (60 * b + 60)" using b(2) by (rule of_unix_mono)
  finally show "now + 60 * nanos_per_second < bucket_end b" by (simp add: bucket_end_def of_unix_def algebra_simps)
qed

lemma lifetime_two_minutes: "lifetime (120 * nanos_per_second) = 120 * nanos_per_second"
  by (simp add: lifetime_def millisecond_def nanos_per_second_def)

context redis_store
begin

text \<open>One request on the key: the counter grows by one, or the command failed and it may have.\<close>

lemma incrementRateCounter_own:
  assumes "inv s" "incrementRateCounter R k ti te s = (s', r, ws)"
    and "holds k m t0 D (live s)" "t0 \<le> ti" "ti < D" "ti \<le> te" "D \<le> te + 120 * nanos_per_second"
  shows "inv s' \<and>
    (case r of
       Inr n \<Rightarrow> n = of_nat (Suc m) \<and> holds k (Suc m) te D (live s')
     | Inl _ \<Rightarrow> holds k m te D (live s') \<or> holds k (Suc m) te D (live s'))"
proof -
  obtain s1 q where q: "redisIncr R k ti s = (s1, q)" by fastforce
  show ?thesis
  proof (cases q)
    case (Inl e)
    have run: "s' = s1" "r = Inl e" using assms(2) q Inl by (simp_all add: incrementRateCounter_def)
    have "inv s1" "from_on ti (live s1) (live s) \<or> from_on ti (live s1) (incr_key k ti (live s))"
      using incr_error [OF assms(1)] q Inl by blast+
    then have "holds k m ti D (live s1) \<or> holds k (Suc m) ti D (live s1)"
      using holds_from_on [OF assms(3) _ assms(4)] holds_from_on [OF holds_incr [OF assms(3-5)] _ order_refl]
      by blast
    then show ?thesis using run \<open>inv s1\<close> holds_later [OF _ assms(6)] by auto
  next
    case (Inr n)
    note ok = incr_ok [OF assms(1) q [unfolded Inr]]
    have n: "n = of_nat (Suc m)" using ok holds_counter [OF assms(3-5)] by (simp add: add.commute)
    have h1: "holds k (Suc m) ti D (live s1)"
      using ok holds_from_on [OF holds_incr [OF assms(3-5)] _ order_refl] by blast
    show ?thesis
    proof (cases "n = 1")
      case False
      then have "s' = s1" "r = Inr n" using assms(2) q Inr by (simp_all add: incrementRateCounter_def)
      then show ?thesis using ok n h1 holds_later assms(6) by simp
    next
      case True
      obtain s2 p where p: "redisExpire R k (120 * nanos_per_second) te s1 = (s2, p)" by fastforce
      have run: "s' = s2" "r = Inr n"
        using assms(2) q Inr True p by (cases p; simp add: incrementRateCounter_def)+
      have "inv s2 \<and> (from_on te (live s2) (live s1)
          \<or> from_on te (live s2) (expire_key k te (te + 120 * nanos_per_second) (live s1)))"
        using expire_ok [of s1 "120 * nanos_per_second"] expire_error [of s1 "120 * nanos_per_second"] ok p
        by (cases p) (auto simp: lifetime_two_minutes)
      then have "inv s2 \<and> holds k (Suc m) te D (live s2)"
        using holds_from_on [OF h1 _ assms(6)]
          holds_from_on [OF holds_expire [OF h1 assms(6,7)] _ order_refl] by blast
      then show ?thesis using run n by simp
    qed
  qed
qed

lemma incrementRateCounter_other:
  assumes "inv s" "incrementRateCounter R k' ti te s = (s', r, ws)" "k' \<noteq> k" "ti \<le> te"
  shows "inv s' \<and> (\<forall>u \<ge> te. live s' u k = live s u k)"
proof -
  obtain s1 q where q: "redisIncr R k' ti s = (s1, q)" by fastforce
  have inv1: "inv s1" using incr_ok [OF assms(1)] incr_error [OF assms(1)] q by (cases q) blast+
  have same1: "live s1 u k = live s u k" if "ti \<le> u" for u
    using incr_others [OF assms(1) q _ that] assms(3) by metis
  show ?thesis
  proof (cases "q = Inr 1")
    case False
    then have "s' = s1" using assms(2) q by (cases q) (simp_all add: incrementRateCounter_def)
    then show ?thesis using inv1 same1 assms(4) by simp
  next
    case True
    obtain s2 p where p: "redisExpire R k' (120 * nanos_per_second) te s1 = (s2, p)" by fastforce
    have "s' = s2" using assms(2) q True p by (cases p) (simp_all add: incrementRateCounter_def)
    moreover have pos: "0 < 120 * nanos_per_second" by simp
    have "inv s2" using expire_ok [OF inv1 pos] expire_error [OF inv1 pos] p by (cases p) blast+
    moreover have "live s2 u k = live s1 u k" if "te \<le> u" for u
      using expire_others [OF inv1 pos p _ that] assms(3) by metis
    ultimately show ?thesis using same1 assms(4) by simp
  qed
qed

text \<open>One more request in front of the others: \<open>P m\<close> says that the counter stands at \<open>m\<close>.\<close>

lemma passes_Cons:
  assumes own: "case r of Inr n \<Rightarrow> n = of_nat (Suc m) \<and> P (Suc m) | Inl _ \<Rightarrow> P m \<or> P (Suc m)"
    and rest: "\<And>m'. P m' \<Longrightarrow> m' \<le> Suc m \<Longrightarrow> passes limit rs \<le> (nat (sint limit) - m') + faults rs
      \<and> (faults rs = 0 \<longrightarrow> passes limit rs = min (length rs) (nat (sint limit) - m'))"
    and "Suc m < 2 ^ 63" "0 \<le> sint limit"
  shows "passes limit (r # rs) \<le> (nat (sint limit) - m) + faults (r # rs)
    \<and> (faults (r # rs) = 0 \<longrightarrow> passes limit (r # rs) = min (length (r # rs)) (nat (sint limit) - m))"
proof (cases r)
  case (Inl e)
  then obtain m' where "m' = m \<or> m' = Suc m" "P m'" using own by auto
  then have "passes limit rs \<le> (nat (sint limit) - m') + faults rs" "m \<le> m'" using rest [of m'] by auto
  then have "passes limit rs \<le> (nat (sint limit) - m) + faults rs"
    using diff_le_mono2 [of m m' "nat (sint limit)"] by linarith
  then show ?thesis using Inl by (simp add: passes_def faults_def admitted_def failed_def)
next
  case (Inr n)
  have "sint (of_nat (Suc m) :: int64) = int (Suc m)" using assms(3) by (rule sint_of_nat_int64)
  then have "admitted limit r \<longleftrightarrow> m < nat (sint limit)"
    using own Inr assms(4) by (auto simp: admitted_def isRateLimited_def)
  moreover have "\<not> failed r" using Inr by (simp add: failed_def)
  ultimately show ?thesis using rest [of "Suc m"] own Inr
    by (cases "m < nat (sint limit)") (simp_all add: passes_def faults_def Suc_diff_Suc [symmetric])
qed

text \<open>All requests: \<open>m\<close> counts those of the key so far, within what failures leave open.\<close>

lemma rate_run_bound:
  assumes "inv s" "calls_ordered t cs" "holds k m t (bucket_end b) (live s)" "0 \<le> t"
    and "\<And>c. c \<in> set cs \<Longrightarrow> call_key c = k \<Longrightarrow> minute_bucket (rcNow c) = b"
    and "m + length cs < 2 ^ 63" "0 \<le> sint limit"
  shows "let rs = outcomes k (rate_run R cs s) in
    passes limit rs \<le> (nat (sint limit) - m) + faults rs
    \<and> (faults rs = 0 \<longrightarrow> passes limit rs = min (length rs) (nat (sint limit) - m))"
  using assms(1-6)
proof (induction cs arbitrary: s t m)
  case (Cons c cs)
  obtain s' r ws where step: "incrementRateCounter R (call_key c) (rcIncr c) (rcExpire c) s = (s', r, ws)"
    by (cases "incrementRateCounter R (call_key c) (rcIncr c) (rcExpire c) s") auto
  have order: "t \<le> rcNow c" "rcNow c \<le> rcIncr c" "rcIncr c \<le> rcExpire c"
    "rcIncr c \<le> rcNow c + 60 * nanos_per_second" "calls_ordered (rcExpire c) cs"
    using Cons.prems(2) by simp_all
  show ?case
  proof (cases "call_key c = k")
    case False
    from incrementRateCounter_other [OF Cons.prems(1) step False order(3)]
    have "inv s'" "holds k m (rcExpire c) (bucket_end b) (live s')"
      using holds_others [OF Cons.prems(3), of "rcExpire c" "live s'"] order(1-3) by auto
    then show ?thesis
      using Cons.IH [of s' "rcExpire c" m] order Cons.prems(4-6) step False by (simp add: Let_def)
  next
    case True
    then have b: "minute_bucket (rcNow c) = b" using Cons.prems(5) by simp
    note start = bucket_start [OF b order_trans [OF Cons.prems(4) order(1)]]
    have D: "rcIncr c < bucket_end b" "bucket_end b \<le> rcExpire c + 120 * nanos_per_second"
      using start order(2-4) by (simp_all add: bucket_end_def of_unix_def algebra_simps)
    note own = incrementRateCounter_own [OF Cons.prems(1) step [unfolded True] Cons.prems(3)
        order_trans [OF order(1,2)] D(1) order(3) D(2)]
    have IH: "passes limit (outcomes k (rate_run R cs s')) \<le> (nat (sint limit) - m') + faults (outcomes k (rate_run R cs s'))
        \<and> (faults (outcomes k (rate_run R cs s')) = 0 \<longrightarrow> passes limit (outcomes k (rate_run R cs s'))
              = min (length (outcomes k (rate_run R cs s'))) (nat (sint limit) - m'))"
      if "holds k m' (rcExpire c) (bucket_end b) (live s')" "m' \<le> Suc m" for m'
      using Cons.IH [of s' "rcExpire c" m', unfolded Let_def] own order Cons.prems(4-6) that by auto
    have "outcomes k (rate_run R (c # cs) s) = r # outcomes k (rate_run R cs s')" using step True by simp
    with passes_Cons [OF conjunct2 [OF own] IH] Cons.prems(6) assms(7) show ?thesis by (simp add: Let_def)
  qed
qed (simp add: Let_def)

end

section \<open>Keys\<close>

lemma append_last_eq:
  assumes "x @ c # f = y @ c # g" "c \<notin> set f" "c \<notin> set g"
  shows "x = y \<and> f = g"
proof -
  have "takeWhile (\<lambda>a. a \<noteq> c) (rev (x @ c # f)) = rev f" "takeWhile (\<lambda>a. a \<noteq> c) (rev (y @ c # g)) = rev g"
    using assms(2,3) by (simp_all add: takeWhile_append)
  then have "f = g" using assms(1) by (metis rev_rev_ident)
  then show ?thesis using assms(1) by simp
qed

text \<open>The bucket number fits in 64 bits.\<close>

definition clock_ok :: "gotime \<Rightarrow> bool" where
  "clock_ok t \<longleftrightarrow> 0 \<le> t \<and> unix t < 2 ^ 63"

lemma sint_minute_bucket:
  assumes "clock_ok t"
  shows "sint (word_of_int (minute_bucket t) :: int64) = minute_bucket t"
proof (rule sint_of_int_int64)
  have u: "0 \<le> unix t" using assms by (simp add: clock_ok_def unix_def nanos_per_second_def pos_imp_zdiv_nonneg_iff)
  then have m: "minute_bucket t = unix t div 60" by (simp add: minute_bucket_def)
  have "0 \<le> unix t div 60" "unix t div 60 \<le> unix t" using u by (linarith)+
  then show "- (2 ^ 63) \<le> minute_bucket t" "minute_bucket t < 2 ^ 63"
    using m assms by (simp_all add: clock_ok_def)
qed
lemma rateLimitKey_eq:
  assumes "clock_ok t" "clock_ok u"
  shows "rateLimitKey a t = rateLimitKey b u \<longleftrightarrow> clientIP a = clientIP b \<and> minute_bucket t = minute_bucket u"
proof
  assume "rateLimitKey a t = rateLimitKey b u"
  then have "clientIP a @ CHR '':'' # FormatInt (word_of_int (minute_bucket t))
      = clientIP b @ CHR '':'' # FormatInt (word_of_int (minute_bucket u))"
    by (simp add: rateLimitKey_def)
  from append_last_eq [OF this FormatInt_no_colon FormatInt_no_colon]
  have "clientIP a = clientIP b" "(word_of_int (minute_bucket t) :: int64) = word_of_int (minute_bucket u)"
    by (simp_all only: FormatInt_inj)
  then show "clientIP a = clientIP b \<and> minute_bucket t = minute_bucket u"
    using sint_minute_bucket [OF assms(1)] sint_minute_bucket [OF assms(2)] by metis
qed (simp add: rateLimitKey_def)

text \<open>In one Redis database the sessions, the request counters and the cached balances never share a
  key, and within each kind different sessions, address-minute pairs and accounts have different
  keys.\<close>

theorem redis_keys_separate:
  assumes "clock_ok t" "clock_ok u"
  shows "sessionRedisKey sid \<noteq> rateLimitKey addr t \<and> sessionRedisKey sid \<noteq> balanceCacheKey i
    \<and> rateLimitKey addr t \<noteq> balanceCacheKey i
    \<and> (sessionRedisKey sid = sessionRedisKey sid' \<longleftrightarrow> sid = sid')
    \<and> (balanceCacheKey i = balanceCacheKey j \<longleftrightarrow> i = j)
    \<and> (rateLimitKey addr t = rateLimitKey addr' u
        \<longleftrightarrow> clientIP addr = clientIP addr' \<and> minute_bucket t = minute_bucket u)"
  using rateLimitKey_eq [OF assms]
  by (simp add: sessionRedisKey_def balanceCacheKey_def) (simp add: rateLimitKey_def)

lemma redis_keys_separate_witness:
  "rateLimitKey ''10.0.0.1:80'' 0 \<noteq> rateLimitKey ''10.0.0.1:80'' (60 * nanos_per_second)"
  using redis_keys_separate [of 0 "60 * nanos_per_second" "[]" "''10.0.0.1:80''" 0 "[]" 0 "''10.0.0.1:80''"]
  by (simp add: clock_ok_def unix_def nanos_per_second_def minute_bucket_def)

section \<open>What gets through\<close>

text \<open>C10: With a positive limit (without one \<^verbatim>\<open>RedisRateLimit\<close> counts nothing and lets everything pass), in one minute at most
  \<open>limit\<close> requests of one address get through, plus one for every
  failed Redis command; without failures exactly the first \<open>limit\<close> do.  This holds whatever
  other addresses send in between.\<close>

theorem rate_limit_bound:
  assumes "redis_store R rinv live" "rinv s" "calls_ordered t cs" "0 \<le> t"
    and "\<forall>c \<in> set cs. clock_ok (rcNow c)" "clock_ok now" "length cs < 2 ^ 63" "0 \<le> sint limit"
    and "\<forall>u \<ge> t. live s u (rateLimitKey addr now) = None"
  shows "let rs = outcomes (rateLimitKey addr now) (rate_run R cs s) in
    passes limit rs \<le> nat (sint limit) + faults rs
    \<and> (faults rs = 0 \<longrightarrow> passes limit rs = min (length rs) (nat (sint limit)))"
proof -
  have "minute_bucket (rcNow c) = minute_bucket now" if "c \<in> set cs" "call_key c = rateLimitKey addr now" for c
    using that assms(5) rateLimitKey_eq [OF _ assms(6)] by blast
  moreover have "holds (rateLimitKey addr now) 0 t (bucket_end (minute_bucket now)) (live s)"
    using assms(9) by (simp add: holds_def)
  ultimately show ?thesis
    using redis_store.rate_run_bound [OF assms(1,2,3) _ assms(4) _ _ assms(8),
        of "rateLimitKey addr now" 0 "minute_bucket now"] assms(7) by simp
qed

definition demo_calls :: "rate_call list" where
  "demo_calls = map (\<lambda>n. \<lparr>rcAddr = ''10.0.0.1:80'', rcNow = n, rcIncr = n, rcExpire = n\<rparr>) [1, 2, 3]"

lemma rate_limit_bound_witness:
  "passes 2 (outcomes (rateLimitKey ''10.0.0.1:80'' 1) (rate_run (rd_client (\<lambda>_. None)) demo_calls rd_empty)) \<le> 2
     + faults (outcomes (rateLimitKey ''10.0.0.1:80'' 1) (rate_run (rd_client (\<lambda>_. None)) demo_calls rd_empty))"
  using rate_limit_bound [OF rd_store.redis_store_axioms TrueI, of 0 demo_calls 1 2 rd_empty "''10.0.0.1:80''" "\<lambda>_. None"]
  by (simp add: demo_calls_def Let_def clock_ok_def unix_def nanos_per_second_def rd_live_def rd_empty_def)

text \<open>The window is the calendar minute, not the last sixty seconds: with a limit of one, two
  requests two nanoseconds apart get through when a minute begins between them.\<close>

theorem rate_limit_window_is_fixed:
  "map (admitted 1 \<circ> snd) (rate_run (rd_client (\<lambda>_. None))
     [\<lparr>rcAddr = ''10.0.0.1:80'', rcNow = 60 * nanos_per_second - 1, rcIncr = 60 * nanos_per_second - 1,
       rcExpire = 60 * nanos_per_second - 1\<rparr>,
      \<lparr>rcAddr = ''10.0.0.1:80'', rcNow = 60 * nanos_per_second + 1, rcIncr = 60 * nanos_per_second + 1,
       rcExpire = 60 * nanos_per_second + 1\<rparr>] rd_empty) = [True, True]"
proof -
  have "rateLimitKey ''10.0.0.1:80'' (60 * nanos_per_second - 1) \<noteq> rateLimitKey ''10.0.0.1:80'' (60 * nanos_per_second + 1)"
    by (subst rateLimitKey_eq) (simp_all add: clock_ok_def unix_def nanos_per_second_def minute_bucket_def)
  then show ?thesis
    by (simp add: incrementRateCounter_def rd_step_def rd_empty_def rd_incr_def rd_live_def rd_put_def rd_expire_def
        admitted_def isRateLimited_def)
qed

text \<open>The number of seconds that a refused client is told to wait is between 1 and 60 and leads
  into the next minute.\<close>

theorem retry_after_next_minute:
  assumes "0 \<le> now"
  shows "1 \<le> retry_after now \<and> retry_after now \<le> 60
    \<and> minute_bucket (now + retry_after now * nanos_per_second) = minute_bucket now + 1"
proof -
  have u: "0 \<le> unix now" using assms by (simp add: unix_def nanos_per_second_def pos_imp_zdiv_nonneg_iff)
  have r: "retry_after now = 60 - unix now mod 60" by (simp add: retry_after_def Second_def Let_def)
  have "unix (now + retry_after now * nanos_per_second) = unix now + retry_after now"
    by (simp add: unix_def nanos_per_second_def)
  then have "minute_bucket (now + retry_after now * nanos_per_second) = (unix now + (60 - unix now mod 60)) div 60"
    using u r by (simp add: minute_bucket_def)
  also have "unix now + (60 - unix now mod 60) = 60 * (unix now div 60 + 1)"
    using mult_div_mod_eq [of 60 "unix now"] by (simp add: algebra_simps)
  also have "60 * (unix now div 60 + 1) div 60 = unix now div 60 + 1" by simp
  finally show ?thesis using u r by (simp add: minute_bucket_def)
qed

lemma retry_after_next_minute_witness: "retry_after (59 * nanos_per_second) \<le> 60"
  using retry_after_next_minute [of "59 * nanos_per_second"] by (simp add: nanos_per_second_def)

end
