(* ===== verification/Rate_Limit_Concurrent.thy ===== *)
theory Rate_Limit_Concurrent
  imports Rate_Limit
begin

text \<open>
  Requests that are at the rate limiter at the same time.  \<^verbatim>\<open>incrementRateCounter\<close> sends up to two
  commands, and between them Redis serves those of other requests, and what the sessions and the
  balances do to keys of their own.
\<close>

section \<open>The limiter in steps\<close>

text \<open>A request reads the clock for its key, counts itself with \<^verbatim>\<open>INCR\<close>, and sends
  \<^verbatim>\<open>EXPIRE\<close> when it was the first.\<close>

datatype limiter_phase = Arrived | Keyed gotime | Expiring gotime | Decided gotime "go_error + int64"

record 'r limiter =
  lmClock :: gotime
  lmRedis :: 'r
  lmPhase :: "nat \<Rightarrow> limiter_phase"

inductive limiter_step :: "'r redis_client \<Rightarrow> (nat \<Rightarrow> string) \<Rightarrow> 'r limiter \<Rightarrow> 'r limiter \<Rightarrow> bool" for R addr where
  read_clock: "lmPhase l p = Arrived \<Longrightarrow> lmClock l \<le> now \<Longrightarrow> clock_ok now \<Longrightarrow>
    limiter_step R addr l (l\<lparr>lmClock := now, lmPhase := (lmPhase l)(p := Keyed now)\<rparr>)"
| count: "lmPhase l p = Keyed now \<Longrightarrow> lmClock l \<le> t \<Longrightarrow> t \<le> now + 60 * nanos_per_second \<Longrightarrow>
    redisIncr R (rateLimitKey (addr p) now) t (lmRedis l) = (s, r) \<Longrightarrow>
    limiter_step R addr l (l\<lparr>lmClock := t, lmRedis := s,
      lmPhase := (lmPhase l)(p := if r = Inr 1 then Expiring now else Decided now r)\<rparr>)"
| expire: "lmPhase l p = Expiring now \<Longrightarrow> lmClock l \<le> t \<Longrightarrow>
    redisExpire R (rateLimitKey (addr p) now) (120 * nanos_per_second) t (lmRedis l) = (s, x) \<Longrightarrow>
    limiter_step R addr l (l\<lparr>lmClock := t, lmRedis := s, lmPhase := (lmPhase l)(p := Decided now (Inr 1))\<rparr>)"
| other_get: "(\<And>a u. k \<noteq> rateLimitKey a u) \<Longrightarrow> lmClock l \<le> t \<Longrightarrow> redisGet R k t (lmRedis l) = (s, g) \<Longrightarrow>
    limiter_step R addr l (l\<lparr>lmClock := t, lmRedis := s\<rparr>)"
| other_set: "(\<And>a u. k \<noteq> rateLimitKey a u) \<Longrightarrow> lmClock l \<le> t \<Longrightarrow> 0 < ttl \<Longrightarrow>
    redisSet R k v ttl t (lmRedis l) = (s, x) \<Longrightarrow> limiter_step R addr l (l\<lparr>lmClock := t, lmRedis := s\<rparr>)"
| other_del: "(\<And>a u. k \<noteq> rateLimitKey a u) \<Longrightarrow> lmClock l \<le> t \<Longrightarrow> redisDel R k t (lmRedis l) = (s, x) \<Longrightarrow>
    limiter_step R addr l (l\<lparr>lmClock := t, lmRedis := s\<rparr>)"

inductive limiter_steps :: "'r redis_client \<Rightarrow> (nat \<Rightarrow> string) \<Rightarrow> nat \<Rightarrow> 'r limiter \<Rightarrow> 'r limiter \<Rightarrow> bool" for R addr where
  none: "limiter_steps R addr 0 l l"
| more: "limiter_steps R addr n l l1 \<Longrightarrow> limiter_step R addr l1 l2 \<Longrightarrow> limiter_steps R addr (Suc n) l l2"

text \<open>A request that is served alone takes the steps of \<^verbatim>\<open>incrementRateCounter\<close>.\<close>

lemma steps_of_a_lone_request:
  assumes "incrementRateCounter R (rateLimitKey (addr p) now) ti te s = (s', r, ws)"
    and "lmPhase l p = Keyed now" "lmRedis l = s" "lmClock l \<le> ti" "ti \<le> te" "ti \<le> now + 60 * nanos_per_second"
  obtains n l' where "n \<le> 2" "limiter_steps R addr n l l'" "lmRedis l' = s'" "lmPhase l' = (lmPhase l)(p := Decided now r)"
proof -
  obtain s1 q where q: "redisIncr R (rateLimitKey (addr p) now) ti s = (s1, q)" by fastforce
  let ?l1 = "l\<lparr>lmClock := ti, lmRedis := s1, lmPhase := (lmPhase l)(p := if q = Inr 1 then Expiring now else Decided now q)\<rparr>"
  have "limiter_step R addr l ?l1" by (rule count) (use assms(2-4,6) q in simp_all)
  then have one: "limiter_steps R addr (Suc 0) l ?l1" by (rule more [OF none])
  show thesis
  proof (cases "q = Inr 1")
    case False
    then have "s' = s1" "r = q" using assms(1) q by (cases q; simp add: incrementRateCounter_def)+
    then show thesis using one False that [of 1 ?l1] by (simp add: One_nat_def)
  next
    case True
    obtain s2 x where x: "redisExpire R (rateLimitKey (addr p) now) (120 * nanos_per_second) te s1 = (s2, x)" by fastforce
    then have "s' = s2" "r = Inr 1" using assms(1) q True by (cases x; simp add: incrementRateCounter_def)+
    moreover have "limiter_step R addr ?l1 (?l1\<lparr>lmClock := te, lmRedis := s2, lmPhase := (lmPhase ?l1)(p := Decided now (Inr 1))\<rparr>)"
      by (rule expire) (use True x assms(5) in simp_all)
    ultimately show thesis using that [OF _ more [OF one]] by simp
  qed
qed

section \<open>Who has been counted\<close>

fun read_at :: "limiter_phase \<Rightarrow> gotime option" where
  "read_at Arrived = None"
| "read_at (Keyed now) = Some now"
| "read_at (Expiring now) = Some now"
| "read_at (Decided now r) = Some now"

fun count_of :: "limiter_phase \<Rightarrow> (go_error + int64) option" where
  "count_of (Expiring now) = Some (Inr 1)"
| "count_of (Decided now r) = Some r"
| "count_of _ = None"

text \<open>The requests with the key \<open>k\<close> that have sent \<^verbatim>\<open>INCR\<close>.\<close>

definition reached :: "(nat \<Rightarrow> string) \<Rightarrow> string \<Rightarrow> 'r limiter \<Rightarrow> nat set" where
  "reached addr k l = {p. count_of (lmPhase l p) \<noteq> None \<and> (\<forall>now. read_at (lmPhase l p) = Some now \<longrightarrow> rateLimitKey (addr p) now = k)}"

definition limiter_ok :: "('r \<Rightarrow> bool) \<Rightarrow> ('r \<Rightarrow> timeline) \<Rightarrow> (nat \<Rightarrow> string) \<Rightarrow> string \<Rightarrow> gotime \<Rightarrow> nat \<Rightarrow> 'r limiter \<Rightarrow> bool" where
  "limiter_ok rinv live addr k D m l \<longleftrightarrow>
     rinv (lmRedis l) \<and> holds k m (lmClock l) D (live (lmRedis l))
     \<and> (\<forall>p now. read_at (lmPhase l p) = Some now \<longrightarrow> clock_ok now \<and> now \<le> lmClock l)
     \<and> finite (reached addr k l) \<and> m \<le> card (reached addr k l)
     \<and> (\<forall>p \<in> reached addr k l. \<forall>n. count_of (lmPhase l p) = Some (Inr n) \<longrightarrow> (\<exists>j. n = of_nat j \<and> 1 \<le> j \<and> j \<le> m))
     \<and> (\<forall>p \<in> reached addr k l. \<forall>q \<in> reached addr k l. \<forall>n.
          count_of (lmPhase l p) = Some (Inr n) \<longrightarrow> count_of (lmPhase l q) = Some (Inr n) \<longrightarrow> p = q)"

lemma limiter_okD:
  assumes "limiter_ok rinv live addr k D m l"
  shows "rinv (lmRedis l)" "holds k m (lmClock l) D (live (lmRedis l))"
    "read_at (lmPhase l p) = Some now \<Longrightarrow> clock_ok now \<and> now \<le> lmClock l"
    "finite (reached addr k l)" "m \<le> card (reached addr k l)"
    "p \<in> reached addr k l \<Longrightarrow> count_of (lmPhase l p) = Some (Inr n) \<Longrightarrow> \<exists>j. n = of_nat j \<and> 1 \<le> j \<and> j \<le> m"
    "p \<in> reached addr k l \<Longrightarrow> q \<in> reached addr k l \<Longrightarrow> count_of (lmPhase l p) = Some (Inr n) \<Longrightarrow>
       count_of (lmPhase l q) = Some (Inr n) \<Longrightarrow> p = q"
  using assms unfolding limiter_ok_def by blast+

lemma limiter_okI:
  assumes "rinv (lmRedis l)" "holds k m (lmClock l) D (live (lmRedis l))" "finite (reached addr k l)" "m \<le> card (reached addr k l)"
    and "\<And>p now. read_at (lmPhase l p) = Some now \<Longrightarrow> clock_ok now \<and> now \<le> lmClock l"
    and "\<And>p n. p \<in> reached addr k l \<Longrightarrow> count_of (lmPhase l p) = Some (Inr n) \<Longrightarrow> \<exists>j. n = of_nat j \<and> 1 \<le> j \<and> j \<le> m"
    and "\<And>p q n. p \<in> reached addr k l \<Longrightarrow> q \<in> reached addr k l \<Longrightarrow> count_of (lmPhase l p) = Some (Inr n) \<Longrightarrow>
       count_of (lmPhase l q) = Some (Inr n) \<Longrightarrow> p = q"
  shows "limiter_ok rinv live addr k D m l"
  unfolding limiter_ok_def using assms by blast

text \<open>A step of \<open>p\<close> after which the same requests have been counted.\<close>

lemma limiter_ok_same:
  assumes "limiter_ok rinv live addr k D m l" "rinv (lmRedis l')" "holds k m (lmClock l') D (live (lmRedis l'))"
    and "lmClock l \<le> lmClock l'" "\<And>q. q \<noteq> p \<Longrightarrow> lmPhase l' q = lmPhase l q"
    and "p \<in> reached addr k l' \<longleftrightarrow> p \<in> reached addr k l"
    and "p \<in> reached addr k l \<Longrightarrow> count_of (lmPhase l' p) = count_of (lmPhase l p)"
    and "\<And>now. read_at (lmPhase l' p) = Some now \<Longrightarrow> clock_ok now \<and> now \<le> lmClock l'"
  shows "limiter_ok rinv live addr k D m l'"
proof -
  have "q \<in> reached addr k l' \<longleftrightarrow> q \<in> reached addr k l" for q
    using assms(5,6) by (cases "q = p") (simp_all add: reached_def)
  then have same: "reached addr k l' = reached addr k l" by blast
  have count: "count_of (lmPhase l' q) = count_of (lmPhase l q)" if "q \<in> reached addr k l" for q
    using assms(5,7) that by (cases "q = p") simp_all
  note ok = limiter_okD [OF assms(1)]
  show ?thesis
  proof (rule limiter_okI)
    show "clock_ok now \<and> now \<le> lmClock l'" if "read_at (lmPhase l' q) = Some now" for q now
      using ok(3) [of q now] assms(4,5,8) that by (cases "q = p") fastforce+
  qed (use assms(2,3) ok(4-7) same count in \<open>simp_all\<close>)
qed

context redis_store
begin

text \<open>An \<^verbatim>\<open>INCR\<close> that is answered returns the next count; one that fails may have counted.\<close>

lemma incr_counted:
  assumes "inv s" "holds k m t0 D (live s)" "t0 \<le> t" "t < D" "redisIncr R k t s = (s', r)"
  shows "\<exists>m'. (m' = m \<or> m' = Suc m) \<and> inv s' \<and> holds k m' t D (live s') \<and> (\<forall>n. r = Inr n \<longrightarrow> n = of_nat (Suc m) \<and> m' = Suc m)"
proof (cases r)
  case (Inl e)
  then have "inv s'" "from_on t (live s') (live s) \<or> from_on t (live s') (incr_key k t (live s))"
    using incr_error [OF assms(1)] assms(5) by blast+
  then show ?thesis using Inl holds_from_on [OF assms(2) _ assms(3)]
      holds_from_on [OF holds_incr [OF assms(2-4)] _ order_refl] by blast
next
  case (Inr n)
  note ok = incr_ok [OF assms(1) assms(5) [unfolded Inr]]
  have "n = of_nat (Suc m)" using ok holds_counter [OF assms(2-4)] by (simp add: add.commute)
  then show ?thesis using ok Inr holds_from_on [OF holds_incr [OF assms(2-4)] _ order_refl] by blast
qed

text \<open>The request \<open>p\<close> counts itself on the key.\<close>

lemma count_ok:
  assumes "limiter_ok inv live addr k D m l" "Suc m < 2 ^ 63"
    and "lmPhase l p = Keyed now" "lmClock l \<le> t" "t < D" "rateLimitKey (addr p) now = k"
    and "redisIncr R k t (lmRedis l) = (s, r)"
    and "l' = l\<lparr>lmClock := t, lmRedis := s, lmPhase := (lmPhase l)(p := if r = Inr 1 then Expiring now else Decided now r)\<rparr>"
  shows "\<exists>m' \<le> Suc m. limiter_ok inv live addr k D m' l'"
proof -
  note ok = limiter_okD [OF assms(1)]
  have new: "p \<notin> reached addr k l" using assms(3) by (simp add: reached_def)
  have r': "count_of (lmPhase l' p) = Some r" "read_at (lmPhase l' p) = Some now" using assms(8) by simp_all
  have others: "lmPhase l' q = lmPhase l q" if "q \<noteq> p" for q using assms(8) that by simp
  have "q \<in> reached addr k l' \<longleftrightarrow> q = p \<or> q \<in> reached addr k l" for q
    using r' others assms(6) new by (cases "q = p") (auto simp: reached_def)
  then have reached: "reached addr k l' = insert p (reached addr k l)" by blast
  obtain m' where m': "m' = m \<or> m' = Suc m" "inv s" "holds k m' t D (live s)" "\<And>n. r = Inr n \<Longrightarrow> n = of_nat (Suc m) \<and> m' = Suc m"
    using incr_counted [OF ok(1,2) assms(4,5,7)] by blast
  have "clock_ok u \<and> u \<le> lmClock l'" if "read_at (lmPhase l' q) = Some u" for q u
    using that ok(3) [of q u] ok(3) [of p now] assms(3,4,8) r'(2) others [of q] by (cases "q = p") fastforce+
  note times = this
  have counts: "\<exists>j. n = of_nat j \<and> 1 \<le> j \<and> j \<le> m'" if "q \<in> reached addr k l'" "count_of (lmPhase l' q) = Some (Inr n)" for q n
    using that ok(6) [of q n] reached m'(1,4) r'(1) others [of q] by (cases "q = p") fastforce+
  have distinct: "q = p'" if "q \<in> reached addr k l'" "p' \<in> reached addr k l'" "count_of (lmPhase l' q) = Some (Inr n)"
    "count_of (lmPhase l' p') = Some (Inr n)" for q p' n
  proof -
    have fresh: "count_of (lmPhase l q) \<noteq> Some (Inr (of_nat (Suc m)))" if "q \<in> reached addr k l" for q
      using ok(6) [OF that] of_nat_int64_inj [of "Suc m"] assms(2) by (metis Suc_n_not_le_n le_less_trans le_SucI)
    show ?thesis using that reached m'(4) r'(1) fresh ok(7) [of q p' n] others by (cases "q = p"; cases "p' = p") auto
  qed
  have "finite (reached addr k l')" "m' \<le> card (reached addr k l')" using m'(1) ok(4,5) new reached by auto
  then have "limiter_ok inv live addr k D m' l'"
    using m'(2,3) times counts distinct assms(8) by (intro limiter_okI) simp_all
  then show ?thesis using m'(1) by (intro exI [of _ m']) auto
qed

text \<open>The request \<open>p\<close> sends \<^verbatim>\<open>EXPIRE\<close> for a key.\<close>

lemma expire_keeps:
  assumes "limiter_ok inv live addr k D m l" "lmPhase l p = Expiring now" "lmClock l \<le> t"
    and "rateLimitKey (addr p) now = k \<Longrightarrow> D \<le> t + 120 * nanos_per_second"
    and "redisExpire R (rateLimitKey (addr p) now) (120 * nanos_per_second) t (lmRedis l) = (s, x)"
    and "l' = l\<lparr>lmClock := t, lmRedis := s, lmPhase := (lmPhase l)(p := Decided now (Inr 1))\<rparr>"
  shows "limiter_ok inv live addr k D m l'"
proof -
  note ok = limiter_okD [OF assms(1)]
  have pos: "0 < 120 * nanos_per_second" by simp
  have e: "inv s \<and> (from_on t (live s) (live (lmRedis l))
      \<or> from_on t (live s) (expire_key (rateLimitKey (addr p) now) t (t + 120 * nanos_per_second) (live (lmRedis l))))"
    using expire_ok [OF ok(1) pos] expire_error [OF ok(1) pos] assms(5) by (cases x) (auto simp: lifetime_two_minutes)
  have "holds k m t D (live s)"
  proof (cases "rateLimitKey (addr p) now = k")
    case True
    then show ?thesis using e holds_from_on [OF ok(2) _ assms(3)]
        holds_from_on [OF holds_expire [OF ok(2) assms(3) assms(4) [OF True]] _ order_refl] by blast
  next
    case False
    then show ?thesis using holds_others [OF ok(2) assms(3)] expire_others [OF ok(1) pos assms(5)] by metis
  qed
  then show ?thesis using e assms(2,3,6) ok(3) [of p now]
    by (intro limiter_ok_same [OF assms(1), of l' p]) (auto simp: reached_def)
qed

lemma other_keeps:
  assumes "limiter_ok inv live addr k D m l" "inv s" "lmClock l \<le> t" "\<And>u. t \<le> u \<Longrightarrow> live s u k = live (lmRedis l) u k"
  shows "limiter_ok inv live addr k D m (l\<lparr>lmClock := t, lmRedis := s\<rparr>)"
proof (rule limiter_ok_same [OF assms(1), where p = undefined])
  have "holds k m t D (live s)"
    by (rule holds_others [OF limiter_okD(2) [OF assms(1)] assms(3)]) (rule assms(4))
  then show "holds k m (lmClock (l\<lparr>lmClock := t, lmRedis := s\<rparr>)) D (live (lmRedis (l\<lparr>lmClock := t, lmRedis := s\<rparr>)))" by simp
  show "clock_ok now \<and> now \<le> lmClock (l\<lparr>lmClock := t, lmRedis := s\<rparr>)"
    if "read_at (lmPhase (l\<lparr>lmClock := t, lmRedis := s\<rparr>) undefined) = Some now" for now
    using limiter_okD(3) [OF assms(1), of undefined now] assms(3) that by simp
qed (use assms(2,3) in \<open>simp_all add: reached_def\<close>)

lemma limiter_step_ok:
  assumes "limiter_step R addr l l'" "limiter_ok inv live addr k D m l" "Suc m < 2 ^ 63" "k = rateLimitKey a u"
    and key: "\<And>p now. clock_ok now \<Longrightarrow> rateLimitKey (addr p) now = k \<Longrightarrow>
      now + 60 * nanos_per_second < D \<and> D \<le> now + 120 * nanos_per_second"
  shows "\<exists>m' \<le> Suc m. limiter_ok inv live addr k D m' l'"
proof -
  note ok = limiter_okD [OF assms(2)]
  have same: "limiter_ok inv live addr k D m l' \<Longrightarrow> ?thesis" by (intro exI [of _ m]) simp
  from assms(1) show ?thesis
  proof cases
    case (read_clock p now)
    then have "limiter_ok inv live addr k D m l'" using ok(1) holds_later [OF ok(2)]
      by (intro limiter_ok_same [OF assms(2), of l' p]) (auto simp: reached_def)
    then show ?thesis by (rule same)
  next
    case (count p now t s r)
    have now: "clock_ok now" "now \<le> lmClock l" using ok(3) [of p now] count(2) by simp_all
    show ?thesis
    proof (cases "rateLimitKey (addr p) now = k")
      case True
      then show ?thesis using count_ok [OF assms(2,3) count(2,3) _ True _ count(1)] key [OF now(1) True] count(4,5) by auto
    next
      case False
      have "inv s" using incr_ok [OF ok(1)] incr_error [OF ok(1)] count(5) by (cases r) blast+
      moreover have "live s v k = live (lmRedis l) v k" if "t \<le> v" for v
        using incr_others [OF ok(1) count(5) _ that] False by metis
      ultimately have "limiter_ok inv live addr k D m l'" using count(1-3) False now holds_others [OF ok(2) count(3)]
        by (intro limiter_ok_same [OF assms(2), of l' p]) (auto simp: reached_def split: if_splits)
      then show ?thesis by (rule same)
    qed
  next
    case (expire p now t s x)
    have now: "clock_ok now" "now \<le> lmClock l" using ok(3) [of p now] expire(2) by simp_all
    have "D \<le> t + 120 * nanos_per_second" if "rateLimitKey (addr p) now = k"
      using key [OF now(1) that] now(2) expire(3) by linarith
    from expire_keeps [OF assms(2) expire(2,3) this expire(4,1)] show ?thesis by (rule same)
  next
    case (other_get k' t s g)
    then have "k' \<noteq> k" using assms(4) by simp
    then show ?thesis using other_keeps [OF assms(2), of s t] get_frame [OF ok(1) other_get(4)] other_get(1,3) from_on_at
      by (intro same) metis
  next
    case (other_set k' t ttl v s x)
    then have "k \<noteq> k'" using assms(4) by metis
    moreover have "inv s" using set_ok [OF ok(1)] set_error [OF ok(1)] other_set(4,5) by (cases x) blast+
    ultimately show ?thesis using other_keeps [OF assms(2), of s t] set_others [OF ok(1) other_set(4,5)] other_set(1,3)
      by (intro same) metis
  next
    case (other_del k' t s x)
    then have "k \<noteq> k'" using assms(4) by metis
    moreover have "inv s" using del_ok [OF ok(1)] del_error [OF ok(1)] other_del(4) by (cases x) blast+
    ultimately show ?thesis using other_keeps [OF assms(2), of s t] del_others [OF ok(1) other_del(4)] other_del(1,3)
      by (intro same) metis
  qed
qed

lemma limiter_steps_ok:
  assumes "limiter_steps R addr n l l'" "limiter_ok inv live addr k D 0 l" "n < 2 ^ 63" "k = rateLimitKey a u"
    and "\<And>p now. clock_ok now \<Longrightarrow> rateLimitKey (addr p) now = k \<Longrightarrow>
      now + 60 * nanos_per_second < D \<and> D \<le> now + 120 * nanos_per_second"
  shows "\<exists>m \<le> n. limiter_ok inv live addr k D m l'"
  using assms(1-3)
proof (induction rule: limiter_steps.induct)
  case (more n l l1 l2)
  then obtain m where m: "m \<le> n" "limiter_ok inv live addr k D m l1" by auto
  then have "Suc m < 2 ^ 63" using more.prems(2) by linarith
  from limiter_step_ok [OF more.hyps(2) m(2) this assms(4)] assms(5)
  obtain m' where "m' \<le> Suc m" "limiter_ok inv live addr k D m' l2" by blast
  then show ?case using m(1) by (intro exI [of _ m']) simp
qed auto

end

section \<open>What gets through\<close>

definition let_through :: "int64 \<Rightarrow> (nat \<Rightarrow> string) \<Rightarrow> string \<Rightarrow> 'r limiter \<Rightarrow> nat set" where
  "let_through limit addr k l = {p \<in> reached addr k l. \<forall>r. count_of (lmPhase l p) = Some r \<longrightarrow> admitted limit r}"

definition unanswered :: "(nat \<Rightarrow> string) \<Rightarrow> string \<Rightarrow> 'r limiter \<Rightarrow> nat set" where
  "unanswered addr k l = {p \<in> reached addr k l. \<forall>r. count_of (lmPhase l p) = Some r \<longrightarrow> failed r}"

lemma limiter_ok_bound:
  assumes "limiter_ok rinv live addr k D m l" "m < 2 ^ 63" "0 \<le> sint limit"
  shows "card (let_through limit addr k l) \<le> nat (sint limit) + card (unanswered addr k l)"
proof -
  note ok = limiter_okD [OF assms(1)]
  let ?f = "\<lambda>p. case count_of (lmPhase l p) of Some (Inr n) \<Rightarrow> nat (sint n) | _ \<Rightarrow> 0"
  let ?A = "let_through limit addr k l - unanswered addr k l"
  have A: "\<exists>n j. count_of (lmPhase l p) = Some (Inr n) \<and> n = of_nat j \<and> 1 \<le> j \<and> j \<le> nat (sint limit) \<and> sint n = int j
      \<and> p \<in> reached addr k l" if "p \<in> ?A" for p
  proof -
    have "p \<in> reached addr k l" "\<forall>r. count_of (lmPhase l p) = Some r \<longrightarrow> admitted limit r"
      "\<exists>r. count_of (lmPhase l p) = Some r \<and> \<not> failed r" using that by (auto simp: let_through_def unanswered_def)
    then obtain r where r: "p \<in> reached addr k l" "count_of (lmPhase l p) = Some r" "admitted limit r" "\<not> failed r"
      by blast
    then obtain n where n: "count_of (lmPhase l p) = Some (Inr n)" "admitted limit (Inr n)"
      by (cases r) (simp_all add: failed_def)
    obtain j where "n = of_nat j" "1 \<le> j" "j \<le> m" using ok(6) [OF r(1) n(1)] by blast
    then show ?thesis using n r(1) sint_of_nat_int64 [of j] assms(2) by (auto simp: admitted_def isRateLimited_def)
  qed
  have "inj_on ?f ?A"
  proof (rule inj_onI)
    fix p q assume pq: "p \<in> ?A" "q \<in> ?A" "?f p = ?f q"
    with A [OF pq(1)] A [OF pq(2)] show "p = q" using ok(7) [of p q] by auto
  qed
  moreover have "?f ` ?A \<subseteq> {1..nat (sint limit)}" using A by fastforce
  ultimately have "card ?A \<le> nat (sint limit)" using card_inj_on_le [of ?f ?A "{1..nat (sint limit)}"] by simp
  moreover have "finite (unanswered addr k l)" using ok(4) by (simp add: unanswered_def)
  then have "card (let_through limit addr k l) \<le> card ?A + card (unanswered addr k l)"
    using card_Un_le [of ?A "unanswered addr k l"] ok(4)
      card_mono [of "?A \<union> unanswered addr k l" "let_through limit addr k l"] by (force simp: let_through_def)
  ultimately show ?thesis by linarith
qed

text \<open>C11: With a positive limit, however the commands of requests that are at the limiter together interleave, at most \<open>limit\<close> requests of
  one address and minute get through, plus one for each whose command was not answered; and none is
  refused before more than \<open>limit\<close> of them have counted themselves.\<close>

theorem concurrent_rate_limit:
  assumes "redis_store R rinv live" "limiter_steps R addr n l l'" "n < 2 ^ 63" "0 \<le> sint limit"
    and "rinv (lmRedis l)" "\<forall>p. lmPhase l p = Arrived" "k = rateLimitKey ip now" "clock_ok now"
    and "\<forall>u \<ge> lmClock l. live (lmRedis l) u k = None"
  shows "card (let_through limit addr k l') \<le> nat (sint limit) + card (unanswered addr k l')
    \<and> (\<forall>p u c. lmPhase l' p = Decided u (Inr c) \<longrightarrow> rateLimitKey (addr p) u = k \<longrightarrow> isRateLimited c limit
         \<longrightarrow> nat (sint limit) < card (reached addr k l'))"
proof -
  let ?D = "bucket_end (minute_bucket now)"
  have "u + 60 * nanos_per_second < ?D \<and> ?D \<le> u + 120 * nanos_per_second" if "clock_ok u" "rateLimitKey (addr p) u = k" for p u
  proof -
    have "minute_bucket u = minute_bucket now" using that assms(7) rateLimitKey_eq [OF that(1) assms(8)] by blast
    then show ?thesis using bucket_start [of u] that(1) by (auto simp: clock_ok_def bucket_end_def of_unix_def algebra_simps)
  qed
  moreover have "limiter_ok rinv live addr k ?D 0 l"
    using assms(5,6,9) by (intro limiter_okI) (simp_all add: reached_def holds_def)
  ultimately obtain m where m: "m \<le> n" "limiter_ok rinv live addr k ?D m l'"
    using redis_store.limiter_steps_ok [OF assms(1,2) _ assms(3,7)] by blast
  have "nat (sint limit) < card (reached addr k l')"
    if "lmPhase l' p = Decided u (Inr c)" "rateLimitKey (addr p) u = k" "isRateLimited c limit" for p u c
  proof -
    have "p \<in> reached addr k l'" "count_of (lmPhase l' p) = Some (Inr c)" using that(1,2) by (simp_all add: reached_def)
    then obtain j where "c = of_nat j" "j \<le> m" using limiter_okD(6) [OF m(2)] by blast
    then show ?thesis using that(3) limiter_okD(5) [OF m(2)] sint_of_nat_int64 [of j] m(1) assms(3,4)
      by (simp add: isRateLimited_def nat_less_iff)
  qed
  then show ?thesis using limiter_ok_bound [OF m(2) _ assms(4)] m(1) assms(3) by auto
qed

text \<open>Two requests of one address with a limit of one: both read the clock, the second counts itself first, and the
  first is refused although no \<^verbatim>\<open>EXPIRE\<close> has been sent yet.\<close>

definition two_arrived :: "rd limiter" where
  "two_arrived = \<lparr>lmClock = 1, lmRedis = rd_empty, lmPhase = \<lambda>_. Arrived\<rparr>"

lemma concurrent_rate_limit_witness:
  "\<exists>l'. limiter_steps (rd_client (\<lambda>_. None)) (\<lambda>_. ''10.0.0.1:80'') 4 two_arrived l'
     \<and> lmPhase l' 0 = Decided 1 (Inr 2) \<and> lmPhase l' 1 = Expiring 1
     \<and> card (let_through 1 (\<lambda>_. ''10.0.0.1:80'') (rateLimitKey ''10.0.0.1:80'' 1) l')
         \<le> 1 + card (unanswered (\<lambda>_. ''10.0.0.1:80'') (rateLimitKey ''10.0.0.1:80'' 1) l')"
proof -
  let ?R = "rd_client (\<lambda>_. None)" and ?a = "\<lambda>_ :: nat. ''10.0.0.1:80''" and ?k = "rateLimitKey ''10.0.0.1:80'' 1"
  obtain s1 where s1: "redisIncr ?R ?k 1 rd_empty = (s1, Inr 1)" "rd_live s1 1 ?k = Some (FormatInt 1)"
    by (simp add: rd_step_def rd_empty_def rd_incr_def rd_live_def rd_put_def)
  obtain s2 where s2: "redisIncr ?R ?k 1 s1 = (s2, Inr 2)"
    using s1(2) by (simp add: rd_step_def rd_incr_def Let_def)
  define l1 where "l1 = two_arrived\<lparr>lmClock := 1, lmPhase := (lmPhase two_arrived)(0 := Keyed 1)\<rparr>"
  define l2 where "l2 = l1\<lparr>lmClock := 1, lmPhase := (lmPhase l1)(1 := Keyed 1)\<rparr>"
  define l3 where "l3 = l2\<lparr>lmClock := 1, lmRedis := s1, lmPhase := (lmPhase l2)(1 := if Inr 1 = (Inr 1 :: go_error + int64) then Expiring 1 else Decided 1 (Inr 1))\<rparr>"
  define l4 where "l4 = l3\<lparr>lmClock := 1, lmRedis := s2, lmPhase := (lmPhase l3)(0 := if Inr 2 = (Inr 1 :: go_error + int64) then Expiring 1 else Decided 1 (Inr 2))\<rparr>"
  have one: "clock_ok 1" by (simp add: clock_ok_def unix_def nanos_per_second_def)
  have "limiter_step ?R ?a two_arrived l1" unfolding l1_def by (rule read_clock) (simp_all add: two_arrived_def one)
  moreover have "limiter_step ?R ?a l1 l2" unfolding l2_def by (rule read_clock) (simp_all add: l1_def two_arrived_def one)
  moreover have "limiter_step ?R ?a l2 l3" unfolding l3_def
    by (rule count) (use s1 in \<open>simp_all add: l2_def l1_def two_arrived_def nanos_per_second_def del: rd_client_sel\<close>)
  moreover have "limiter_step ?R ?a l3 l4" unfolding l4_def
    by (rule count) (use s2 in \<open>simp_all add: l3_def l2_def l1_def two_arrived_def nanos_per_second_def del: rd_client_sel\<close>)
  ultimately have "limiter_steps ?R ?a (Suc (Suc (Suc (Suc 0)))) two_arrived l4" by (intro more) (rule none, assumption+)
  then have steps: "limiter_steps ?R ?a 4 two_arrived l4" by (simp add: numeral_eq_Suc)
  have "card (let_through 1 ?a ?k l4) \<le> nat (sint (1 :: int64)) + card (unanswered ?a ?k l4)"
    using concurrent_rate_limit [OF rd_store.redis_store_axioms steps _ _ TrueI _ refl one, of 1]
    by (simp add: two_arrived_def rd_live_def rd_empty_def)
  then show ?thesis using steps by (intro exI [of _ l4]) (simp add: l4_def l3_def l2_def l1_def two_arrived_def)
qed

end
