(* ===== verification/Resources.thy ===== *)
theory Resources
  imports Domain
begin

text \<open>
  The connections and files that a process opens, and the order in which it opens and closes them.
  An opening function returns the events it caused beside its result; \<open>properly_nested\<close> is what
  \<^verbatim>\<open>defer\<close> is for: everything that was opened is closed, the last one first.
\<close>

datatype resource = Postgres | RedisClient | BoltFile

datatype process_event = Opens resource | Closes resource | Serves

text \<open>The stack holds what is open.  A server needs everything.\<close>

fun properly_nested :: "resource list \<Rightarrow> process_event list \<Rightarrow> bool" where
  "properly_nested rs [] \<longleftrightarrow> rs = []"
| "properly_nested rs (Opens r # es) \<longleftrightarrow> r \<notin> set rs \<and> properly_nested (r # rs) es"
| "properly_nested rs (Closes r # es) \<longleftrightarrow> rs \<noteq> [] \<and> hd rs = r \<and> properly_nested (tl rs) es"
| "properly_nested rs (Serves # es) \<longleftrightarrow> {Postgres, RedisClient, BoltFile} \<subseteq> set rs \<and> properly_nested rs es"

text \<open>An opening function that fails leaves nothing open, one that succeeds leaves its resource.\<close>

definition opens_only :: "resource \<Rightarrow> process_event list \<times> (go_error + 'a) \<Rightarrow> bool" where
  "opens_only r p \<longleftrightarrow> (case p of
     (es, Inl _) \<Rightarrow> es = [] \<or> es = [Opens r, Closes r]
   | (es, Inr _) \<Rightarrow> es = [Opens r])"

end
