(* ===== verification/Migrations.thy ===== *)
theory Migrations
  imports Sql Resources "HOL-Library.List_Lexorder" "HOL-Library.Char_ord"
begin

text \<open>
  Connecting to the stores and preparing the database: \<^verbatim>\<open>OpenPostgres\<close> of
  \<^verbatim>\<open>internal/database/postgres.go\<close>, \<^verbatim>\<open>OpenRedis\<close> of \<^verbatim>\<open>redis.go\<close>,
  \<^verbatim>\<open>Migrate\<close> of \<^verbatim>\<open>migrate.go\<close> with the embedded scripts
  \<^verbatim>\<open>migrations/*.up.sql\<close>, and \<^verbatim>\<open>Seed\<close> of \<^verbatim>\<open>seed.go\<close>.

  A script is a list of the statements that the repository's scripts use; the server is a parameter with
  the laws of \<open>migration_engine\<close>.
\<close>

section \<open>Opening the connections\<close>

text \<open>The arguments are what \<^verbatim>\<open>sql.Open\<close> and the ping answered.\<close>

definition OpenPostgres :: "(string \<Rightarrow> go_error option) \<Rightarrow> go_error option \<Rightarrow> string \<Rightarrow> process_event list \<times> (go_error + unit)" where
  "OpenPostgres sql_Open ping dsn =
     (case sql_Open dsn of
        Some err \<Rightarrow> ([], Inl (WrapError ''postgres open'' err))
      | None \<Rightarrow>
          (case ping of
             Some err \<Rightarrow> ([Opens Postgres, Closes Postgres], Inl (WrapError ''postgres ping'' err))
           | None \<Rightarrow> ([Opens Postgres], Inr ())))"

text \<open>\<^verbatim>\<open>redis.NewClient\<close> does not fail.\<close>

definition OpenRedis :: "(string \<Rightarrow> string \<Rightarrow> int64 \<Rightarrow> go_error option) \<Rightarrow> string \<Rightarrow> string \<Rightarrow> int64
    \<Rightarrow> process_event list \<times> (go_error + unit)" where
  "OpenRedis ping addr password db =
     (case ping addr password db of
        Some err \<Rightarrow> ([Opens RedisClient, Closes RedisClient], Inl (WrapError ''redis ping'' err))
      | None \<Rightarrow> ([Opens RedisClient], Inr ()))"

lemma OpenPostgres_events: "opens_only Postgres (OpenPostgres sql_Open ping dsn)"
  by (auto simp: OpenPostgres_def opens_only_def split: option.splits)

lemma OpenRedis_events: "opens_only RedisClient (OpenRedis rping addr password db)"
  by (auto simp: OpenRedis_def opens_only_def split: option.splits)

section \<open>The scripts\<close>

text \<open>A relation of the database: a table with its columns and the tables its foreign keys name, or an
  index on a column of a table.\<close>

datatype relation = Table "string list" "string list" | Index string string

datatype ddl = CreateIfNotExists string relation

type_synonym catalog = "string \<rightharpoonup> relation"

definition refers_to :: "relation \<Rightarrow> string list" where
  "refers_to r = (case r of Table _ refs \<Rightarrow> refs | Index t _ \<Rightarrow> [t])"

definition is_table :: "catalog \<Rightarrow> string \<Rightarrow> bool" where
  "is_table C t \<longleftrightarrow> (\<exists>cols refs. C t = Some (Table cols refs))"

text \<open>\<^verbatim>\<open>IF NOT EXISTS\<close> looks at the name only.\<close>

fun ddl_effect :: "ddl \<Rightarrow> catalog \<Rightarrow> catalog option" where
  "ddl_effect (CreateIfNotExists n r) C =
     (if C n \<noteq> None then Some C
      else if list_all (\<lambda>t. case C t of Some (Table _ _) \<Rightarrow> True | _ \<Rightarrow> False) (refers_to r) then Some (C(n \<mapsto> r))
      else None)"

fun script_effect :: "ddl list \<Rightarrow> catalog \<Rightarrow> catalog option" where
  "script_effect [] C = Some C"
| "script_effect (s # ss) C = (case ddl_effect s C of None \<Rightarrow> None | Some C' \<Rightarrow> script_effect ss C')"

lemma script_effect_append:
  "script_effect (xs @ ys) C = (case script_effect xs C of None \<Rightarrow> None | Some C' \<Rightarrow> script_effect ys C')"
  by (induction xs arbitrary: C) (auto split: option.splits)

text \<open>An embedded directory: names, whether they are directories, and the files.\<close>

record embed_fs =
  fsReadDir :: "go_error + (string \<times> bool) list"
  fsReadFile :: "string \<Rightarrow> go_error + ddl list"

definition init_up :: "ddl list" where
  "init_up =
    [CreateIfNotExists ''users'' (Table [''id'', ''email'', ''name'', ''password'', ''created_at'', ''updated_at''] []),
     CreateIfNotExists ''tasks'' (Table [''id'', ''user_id'', ''title'', ''description'', ''status'', ''created_at'',
        ''updated_at''] [''users'']),
     CreateIfNotExists ''idx_tasks_user_id'' (Index ''tasks'' ''user_id'')]"

definition banking_up :: "ddl list" where
  "banking_up =
    [CreateIfNotExists ''accounts'' (Table [''id'', ''user_id'', ''currency'', ''balance'', ''created_at'', ''updated_at''] [''users'']),
     CreateIfNotExists ''transfers'' (Table [''id'', ''sender_account_id'', ''receiver_account_id'', ''amount'', ''currency'',
        ''description'', ''created_at''] [''accounts'', ''accounts'']),
     CreateIfNotExists ''idx_accounts_user_id'' (Index ''accounts'' ''user_id''),
     CreateIfNotExists ''idx_transfers_sender'' (Index ''transfers'' ''sender_account_id''),
     CreateIfNotExists ''idx_transfers_receiver'' (Index ''transfers'' ''receiver_account_id'')]"

definition migrationsFS :: embed_fs where
  "migrationsFS = \<lparr>
     fsReadDir = Inr [(''001_init.up.sql'', False), (''002_banking.up.sql'', False)],
     fsReadFile = (\<lambda>p. if p = ''migrations/001_init.up.sql'' then Inr init_up
                     else if p = ''migrations/002_banking.up.sql'' then Inr banking_up
                     else Inl (LibError ''file does not exist''))\<rparr>"

section \<open>Migrate\<close>

text \<open>\<^verbatim>\<open>sort.Strings\<close> compares bytes, as the order on strings of \<open>List_Lexorder\<close> and \<open>Char_ord\<close> does.\<close>

definition has_suffix :: "string \<Rightarrow> string \<Rightarrow> bool" where
  "has_suffix s suf \<longleftrightarrow> length suf \<le> length s \<and> drop (length s - length suf) s = suf"

definition migration_files :: "(string \<times> bool) list \<Rightarrow> string list" where
  "migration_files entries = sort (map fst (filter (\<lambda>(n, dir). \<not> dir \<and> has_suffix n ''.up.sql'') entries))"

record 'd migration_driver =
  mgBeginTx :: "'d \<Rightarrow> 'd \<times> (go_error + nat)"
  mgExec :: "nat \<Rightarrow> ddl list \<Rightarrow> 'd \<Rightarrow> 'd \<times> (go_error + unit)"
  mgCommit :: "nat \<Rightarrow> 'd \<Rightarrow> 'd \<times> (go_error + unit)"
  mgRollback :: "nat \<Rightarrow> 'd \<Rightarrow> 'd \<times> (go_error + unit)"

fun apply_files :: "'d migration_driver \<Rightarrow> embed_fs \<Rightarrow> nat \<Rightarrow> string list \<Rightarrow> 'd \<Rightarrow> 'd \<times> go_error option" where
  "apply_files M F tx [] d = (d, None)"
| "apply_files M F tx (name # names) d =
     (case fsReadFile F (''migrations/'' @ name) of
        Inl err \<Rightarrow> (fst (mgRollback M tx d), Some (WrapError (''read '' @ name) err))
      | Inr data \<Rightarrow>
          (case mgExec M tx data d of
             (d, Inl err) \<Rightarrow> (fst (mgRollback M tx d), Some (WrapError (''exec '' @ name) err))
           | (d, Inr _) \<Rightarrow> apply_files M F tx names d))"

definition Migrate :: "'d migration_driver \<Rightarrow> embed_fs \<Rightarrow> 'd \<Rightarrow> 'd \<times> go_error option" where
  "Migrate M F d =
     (case fsReadDir F of
        Inl err \<Rightarrow> (d, Some (WrapError ''read migrations dir'' err))
      | Inr entries \<Rightarrow>
          (let files = migration_files entries in
           case mgBeginTx M d of
             (d, Inl err) \<Rightarrow> (d, Some (WrapError ''begin migration tx'' err))
           | (d, Inr tx) \<Rightarrow>
               (case apply_files M F tx files d of
                  (d, Some err) \<Rightarrow> (d, Some err)
                | (d, None) \<Rightarrow>
                    (case mgCommit M tx d of
                       (d, Inl err) \<Rightarrow> (d, Some (WrapError ''commit migrations'' err))
                     | (d, Inr _) \<Rightarrow> (d, None)))))"

text \<open>\<^verbatim>\<open>Seed\<close>: one batch of statements on the pool, a parameter here.\<close>

definition Seed :: "('d \<Rightarrow> 'd \<times> (go_error + unit)) \<Rightarrow> 'd \<Rightarrow> 'd \<times> go_error option" where
  "Seed exec_fixtures d =
     (case exec_fixtures d of
        (d, Inl err) \<Rightarrow> (d, Some (WrapError ''seed'' err))
      | (d, Inr _) \<Rightarrow> (d, None))"

definition migrated :: "embed_fs \<Rightarrow> catalog \<Rightarrow> catalog \<Rightarrow> bool" where
  "migrated F C C' \<longleftrightarrow>
     (\<exists>entries scripts. fsReadDir F = Inr entries
        \<and> map (\<lambda>n. fsReadFile F (''migrations/'' @ n)) (migration_files entries) = map Inr scripts
        \<and> script_effect (concat scripts) C = Some C')"

section \<open>What the code relies on, and what Migrate promises\<close>

text \<open>\<^verbatim>\<open>CREATE\<close> statements are transactional in PostgreSQL.  \<open>schema\<close> is the committed
  catalog, \<open>view\<close> the one an open transaction sees.\<close>

locale migration_engine =
  fixes M :: "'d migration_driver"
    and inv :: "'d \<Rightarrow> bool"
    and schema :: "'d \<Rightarrow> catalog"
    and view :: "'d \<Rightarrow> nat \<Rightarrow> catalog option"
  assumes begin_any: "inv d \<Longrightarrow> mgBeginTx M d = (d', r) \<Longrightarrow>
          inv d' \<and> schema d' = schema d \<and> (\<forall>x. r = Inr x \<longrightarrow> view d' x = Some (schema d))"
    and exec_any: "inv d \<Longrightarrow> mgExec M x ss d = (d', q) \<Longrightarrow> inv d' \<and> schema d' = schema d"
    and exec_ok: "inv d \<Longrightarrow> mgExec M x ss d = (d', Inr u) \<Longrightarrow> view d x = Some C \<Longrightarrow>
          \<exists>C'. script_effect ss C = Some C' \<and> view d' x = Some C'"
    and commit_ok: "inv d \<Longrightarrow> mgCommit M x d = (d', Inr u) \<Longrightarrow> view d x = Some C \<Longrightarrow> inv d' \<and> schema d' = C"
    and commit_error: "inv d \<Longrightarrow> mgCommit M x d = (d', Inl e) \<Longrightarrow> view d x = Some C \<Longrightarrow>
          inv d' \<and> (schema d' = schema d \<or> schema d' = C)"
    and rollback_any: "inv d \<Longrightarrow> mgRollback M x d = (d', q) \<Longrightarrow> inv d' \<and> schema d' = schema d"
begin

lemma apply_files_cases:
  assumes "inv d" "view d x = Some C" "apply_files M F x names d = (d', r)"
  shows "inv d' \<and> schema d' = schema d \<and>
    (case r of
       None \<Rightarrow> \<exists>scripts C'. map (\<lambda>n. fsReadFile F (''migrations/'' @ n)) names = map Inr scripts
           \<and> script_effect (concat scripts) C = Some C' \<and> view d' x = Some C'
     | Some e \<Rightarrow> \<exists>n \<in> set names. \<exists>err. e = WrapError (''read '' @ n) err \<or> e = WrapError (''exec '' @ n) err)"
  using assms
proof (induction names arbitrary: d C)
  case (Cons n ns)
  show ?case
  proof (cases "fsReadFile F (''migrations/'' @ n)")
    case (Inl err)
    then show ?thesis using Cons.prems rollback_any [of d x] by (cases "mgRollback M x d") auto
  next
    case (Inr ss)
    obtain d1 q where e: "mgExec M x ss d = (d1, q)" by fastforce
    note frame = exec_any [OF Cons.prems(1) e]
    show ?thesis
    proof (cases q)
      case (Inl err)
      then show ?thesis using Cons.prems Inr e frame rollback_any [of d1 x] by (cases "mgRollback M x d1") auto
    next
      case (Inr u)
      then obtain C1 where C1: "script_effect ss C = Some C1" "view d1 x = Some C1"
        using exec_ok [OF Cons.prems(1) e [unfolded Inr] Cons.prems(2)] by blast
      have "apply_files M F x ns d1 = (d', r)"
        using Cons.prems(3) \<open>fsReadFile F (''migrations/'' @ n) = Inr ss\<close> e Inr by simp
      note rest = Cons.IH [OF _ C1(2) this]
      show ?thesis
      proof (cases r)
        case None
        then obtain scripts C' where "map (\<lambda>n. fsReadFile F (''migrations/'' @ n)) ns = map Inr scripts"
          "script_effect (concat scripts) C1 = Some C'" "view d' x = Some C'" using rest frame by auto
        then have "map (\<lambda>n. fsReadFile F (''migrations/'' @ n)) (n # ns) = map Inr (ss # scripts)
            \<and> script_effect (concat (ss # scripts)) C = Some C' \<and> view d' x = Some C'"
          using C1(1) \<open>fsReadFile F (''migrations/'' @ n) = Inr ss\<close> by (simp add: script_effect_append)
        then show ?thesis using None rest frame by (auto simp del: list.map)
      qed (use rest frame in auto)
    qed
  qed
qed auto

lemma migrate_cases:
  assumes "inv d" "Migrate M F d = (d', r)"
  shows "inv d' \<and>
    (case r of
       None \<Rightarrow> migrated F (schema d) (schema d')
     | Some e \<Rightarrow> schema d' = schema d
         \<or> (\<exists>err. e = WrapError ''commit migrations'' err \<and> migrated F (schema d) (schema d')))"
proof (cases "fsReadDir F")
  case (Inl err)
  then show ?thesis using assms by (auto simp: Migrate_def)
next
  case dir: (Inr entries)
  obtain d1 b where b: "mgBeginTx M d = (d1, b)" by fastforce
  note start = begin_any [OF assms(1) b]
  show ?thesis
  proof (cases b)
    case (Inl err)
    then show ?thesis using assms(2) dir b start by (auto simp: Migrate_def)
  next
    case (Inr x)
    obtain d2 a where a: "apply_files M F x (migration_files entries) d1 = (d2, a)" by fastforce
    note files = apply_files_cases [OF _ _ a, of "schema d"]
    show ?thesis
    proof (cases a)
      case (Some err)
      then show ?thesis using assms(2) dir b Inr a start files by (auto simp: Migrate_def)
    next
      case None
      obtain scripts C where C: "map (\<lambda>n. fsReadFile F (''migrations/'' @ n)) (migration_files entries) = map Inr scripts"
        "script_effect (concat scripts) (schema d) = Some C" "view d2 x = Some C"
        using files start Inr None by auto
      then have scripted: "migrated F (schema d) C" using dir by (auto simp: migrated_def)
      have d2: "inv d2" "schema d2 = schema d" using files start Inr by auto
      obtain d3 c where c: "mgCommit M x d2 = (d3, c)" by fastforce
      show ?thesis
        using assms(2) dir b Inr a None c scripted d2 commit_ok [OF d2(1) _ C(3)] commit_error [OF d2(1) _ C(3)]
        by (cases c) (fastforce simp: Migrate_def)+
    qed
  qed
qed

end

section \<open>A reference server\<close>

text \<open>The catalog, the open transactions and a count of the calls; any call can fail.\<close>

record migration_server =
  msCatalog :: catalog
  msOpen :: "nat \<rightharpoonup> catalog"
  msCalls :: nat

definition ms_call :: "(nat \<Rightarrow> bool) \<Rightarrow> (migration_server \<Rightarrow> (migration_server \<times> 'a) option) \<Rightarrow>
    migration_server \<Rightarrow> migration_server \<times> (go_error + 'a)" where
  "ms_call fault f d =
     (let d = d\<lparr>msCalls := Suc (msCalls d)\<rparr> in
      if fault (msCalls d) then (d, Inl (LibError ''connection reset''))
      else case f d of None \<Rightarrow> (d, Inl (LibError ''error'')) | Some (d', a) \<Rightarrow> (d', Inr a))"

definition ref_migrations :: "(nat \<Rightarrow> bool) \<Rightarrow> migration_server migration_driver" where
  "ref_migrations fault = \<lparr>
     mgBeginTx = ms_call fault (\<lambda>d. Some (d\<lparr>msOpen := (msOpen d)(msCalls d \<mapsto> msCatalog d)\<rparr>, msCalls d)),
     mgExec = (\<lambda>x ss. ms_call fault (\<lambda>d.
        case msOpen d x of None \<Rightarrow> None
        | Some C \<Rightarrow> map_option (\<lambda>C'. (d\<lparr>msOpen := (msOpen d)(x \<mapsto> C')\<rparr>, ())) (script_effect ss C))),
     mgCommit = (\<lambda>x. ms_call fault (\<lambda>d.
        map_option (\<lambda>C. (d\<lparr>msCatalog := C, msOpen := (msOpen d)(x := None)\<rparr>, ())) (msOpen d x))),
     mgRollback = (\<lambda>x. ms_call fault (\<lambda>d. Some (d\<lparr>msOpen := (msOpen d)(x := None)\<rparr>, ())))\<rparr>"

interpretation ref_migrations: migration_engine "ref_migrations fault" "\<lambda>_. True" msCatalog msOpen for fault
  by unfold_locales
    (auto simp: ref_migrations_def ms_call_def Let_def split: if_splits option.splits)

section \<open>The migrations of the repository\<close>

fun created_name :: "ddl \<Rightarrow> string" where
  "created_name (CreateIfNotExists n r) = n"

lemma ddl_effect_extends:
  "ddl_effect s C = Some C' \<Longrightarrow> C \<subseteq>\<^sub>m C' \<and> dom C' = insert (created_name s) (dom C)"
  by (cases s) (auto simp: map_le_def split: if_splits)

lemma script_effect_extends:
  "script_effect ss C = Some C' \<Longrightarrow> C \<subseteq>\<^sub>m C' \<and> dom C' = created_name ` set ss \<union> dom C"
proof (induction ss arbitrary: C)
  case (Cons s ss)
  then obtain C1 where C1: "ddl_effect s C = Some C1" "script_effect ss C1 = Some C'" by (auto split: option.splits)
  have "C \<subseteq>\<^sub>m C1" "dom C1 = insert (created_name s) (dom C)" using ddl_effect_extends [OF C1(1)] by auto
  moreover have "C1 \<subseteq>\<^sub>m C'" "dom C' = created_name ` set ss \<union> dom C1" using Cons.IH [OF C1(2)] by auto
  ultimately show ?case by (auto intro: map_le_trans)
qed simp

lemma script_effect_again: "created_name ` set ss \<subseteq> dom C \<Longrightarrow> script_effect ss C = Some C"
proof (induction ss)
  case (Cons s ss)
  then have "ddl_effect s C = Some C" by (cases s) auto
  then show ?case using Cons by simp
qed simp

definition program_relations :: "string list" where
  "program_relations = map created_name (init_up @ banking_up)"

lemma migrations_order:
  "migration_files [(''001_init.up.sql'', False), (''002_banking.up.sql'', False)] = [''001_init.up.sql'', ''002_banking.up.sql'']"
  by code_simp

lemma map_Inr_pair: "[Inr a, Inr b] = map Inr xs \<longleftrightarrow> xs = [a, b]"
  by (cases xs; cases "tl xs") auto

lemma migrated_here: "migrated migrationsFS C C' \<longleftrightarrow> script_effect (init_up @ banking_up) C = Some C'"
proof -
  have "map (\<lambda>n. fsReadFile migrationsFS (''migrations/'' @ n)) [''001_init.up.sql'', ''002_banking.up.sql'']
      = [Inr init_up, Inr banking_up]" by (simp add: migrationsFS_def)
  moreover have "fsReadDir migrationsFS = Inr [(''001_init.up.sql'', False), (''002_banking.up.sql'', False)]"
    by (simp add: migrationsFS_def)
  ultimately show ?thesis
    by (simp only: migrated_def sum.inject simp_thms ex_simps HOL.simp_thms) (simp only: migrations_order map_Inr_pair; simp)
qed

text \<open>C37: A migration happens as a whole or not at all: after a success the catalog is what the scripts,
  in the order of their names, make of the old one; after an error it is the old one, unless the reply
  to the commit was lost.\<close>

theorem migrate_all_or_nothing:
  assumes "migration_engine M ok schema view" "ok d" "Migrate M F d = (d', r)"
  shows "ok d' \<and>
    (case r of
       None \<Rightarrow> migrated F (schema d) (schema d')
     | Some e \<Rightarrow> schema d' = schema d
         \<or> (\<exists>err. e = WrapError ''commit migrations'' err \<and> migrated F (schema d) (schema d')))"
  by (rule migration_engine.migrate_cases [OF assms])

definition blank_server :: migration_server where
  "blank_server = \<lparr>msCatalog = Map.empty, msOpen = Map.empty, msCalls = 0\<rparr>"

text \<open>The third call, the second script, fails: the tables of the first script are gone too.\<close>

lemma migrate_all_or_nothing_witness:
  "msCatalog (fst (Migrate (ref_migrations (\<lambda>n. n = 3)) migrationsFS blank_server)) = Map.empty"
proof -
  obtain d' r where run: "Migrate (ref_migrations (\<lambda>n. n = 3)) migrationsFS blank_server = (d', r)" by fastforce
  have "r = Some (WrapError ''exec 002_banking.up.sql'' (LibError ''connection reset''))"
    using run by (simp add: Migrate_def migrationsFS_def migrations_order ref_migrations_def ms_call_def blank_server_def
        Let_def init_up_def refers_to_def)
  then show ?thesis
    using migrate_all_or_nothing [OF ref_migrations.migration_engine_axioms TrueI run] run by (simp add: blank_server_def)
qed

text \<open>It is safe to migrate on every start: a migration keeps every relation that was there, as it was,
  all relations of the program exist afterwards, and a further migration changes nothing.\<close>

theorem migrations_idempotent:
  assumes "migration_engine M ok schema view" "ok d" "Migrate M migrationsFS d = (d1, None)"
    and "Migrate M migrationsFS d1 = (d2, r)"
  shows "schema d \<subseteq>\<^sub>m schema d1 \<and> dom (schema d1) = set program_relations \<union> dom (schema d) \<and> schema d2 = schema d1"
proof -
  have first: "ok d1" "script_effect (init_up @ banking_up) (schema d) = Some (schema d1)"
    using migration_engine.migrate_cases [OF assms(1-3)] by (simp_all add: migrated_here)
  have extends: "schema d \<subseteq>\<^sub>m schema d1" "dom (schema d1) = set program_relations \<union> dom (schema d)"
    using script_effect_extends [OF first(2)] by (auto simp: program_relations_def)
  then have "script_effect (init_up @ banking_up) (schema d1) = Some (schema d1)"
    by (intro script_effect_again) (auto simp: program_relations_def)
  then have "schema d2 = schema d1"
    using migration_engine.migrate_cases [OF assms(1) first(1) assms(4)] by (auto simp: migrated_here split: option.splits)
  with extends show ?thesis by simp
qed

lemma migrations_idempotent_witness:
  "dom (msCatalog (fst (Migrate (ref_migrations (\<lambda>_. False)) migrationsFS blank_server))) = set program_relations"
proof -
  obtain d1 r where run: "Migrate (ref_migrations (\<lambda>_. False)) migrationsFS blank_server = (d1, r)" by fastforce
  obtain d2 q where again: "Migrate (ref_migrations (\<lambda>_. False)) migrationsFS d1 = (d2, q)" by fastforce
  have "r = None"
    using run by (simp add: Migrate_def migrationsFS_def migrations_order ref_migrations_def ms_call_def blank_server_def
        Let_def init_up_def banking_up_def refers_to_def)
  then show ?thesis
    using migrations_idempotent [OF ref_migrations.migration_engine_axioms TrueI _ again, of blank_server] run
    by (simp add: blank_server_def)
qed

end
