(* ===== verification/Bolt.thy ===== *)
theory Bolt
  imports Repositories Resources
begin

text \<open>
  The BoltDB store: \<^verbatim>\<open>internal/database/boltdb.go\<close> and \<^verbatim>\<open>audit_bolt.go\<close>.
  The library bbolt is the record \<open>bolt_db\<close>, a parameter; \<^verbatim>\<open>encoding/json\<close> on the
  three record types is the record \<open>json_codec\<close> over a type \<open>'v\<close> of encoded values.

  A closure that the code passes to \<^verbatim>\<open>db.Update\<close> changes a transaction \<open>'x\<close> and the
  variables it captures, \<open>'m\<close>.  \<open>boltUpdate\<close> sees the transaction part and also reports the transaction that it
  ran the closure on, if it ran it, from which \<open>db_Update\<close> reads the captured variables.
  A store is a database with the number of times the clock has been read.
\<close>

section \<open>The library\<close>

record ('d, 'x, 'v) bolt_db =
  boltUpdate :: "('x \<Rightarrow> 'x \<times> go_error option) \<Rightarrow> 'd \<Rightarrow> 'd \<times> 'x option \<times> go_error option"
  boltView :: "('x \<Rightarrow> go_error option) \<Rightarrow> 'd \<Rightarrow> 'd \<times> 'x option \<times> go_error option"
  boltHasBucket :: "string \<Rightarrow> 'x \<Rightarrow> bool" \<comment> \<open>\<^verbatim>\<open>tx.Bucket(name) != nil\<close>\<close>
  boltCreateBucket :: "string \<Rightarrow> 'x \<Rightarrow> 'x \<times> (go_error + unit)"
  boltNextSequence :: "string \<Rightarrow> 'x \<Rightarrow> 'x \<times> (go_error + int64)"
  boltGet :: "string \<Rightarrow> string \<Rightarrow> 'x \<Rightarrow> 'v option"
  boltPut :: "string \<Rightarrow> string \<Rightarrow> 'v \<Rightarrow> 'x \<Rightarrow> 'x \<times> (go_error + unit)"
  boltDelete :: "string \<Rightarrow> string \<Rightarrow> 'x \<Rightarrow> 'x \<times> (go_error + unit)"
  boltPairs :: "string \<Rightarrow> 'x \<Rightarrow> (string \<times> 'v) list" \<comment> \<open>what \<^verbatim>\<open>ForEach\<close> visits, in order\<close>

record 'v json_codec =
  marshalUser :: "user \<Rightarrow> go_error + 'v"
  unmarshalUser :: "'v \<Rightarrow> go_error + user"
  marshalTask :: "task \<Rightarrow> go_error + 'v"
  unmarshalTask :: "'v \<Rightarrow> go_error + task"
  marshalAudit :: "audit_record \<Rightarrow> go_error + 'v"

definition db_Update :: "('d, 'x, 'v) bolt_db \<Rightarrow> ('x \<Rightarrow> 'm \<Rightarrow> 'x \<times> 'm \<times> go_error option) \<Rightarrow> 'd \<Rightarrow> 'm
    \<Rightarrow> 'd \<times> 'm \<times> go_error option" where
  "db_Update B f d m =
     (case boltUpdate B (\<lambda>x. case f x m of (x', _, e) \<Rightarrow> (x', e)) d of
        (d', None, e) \<Rightarrow> (d', m, e)
      | (d', Some x, e) \<Rightarrow> (d', fst (snd (f x m)), e))"

definition db_View :: "('d, 'x, 'v) bolt_db \<Rightarrow> ('x \<Rightarrow> 'm \<Rightarrow> 'm \<times> go_error option) \<Rightarrow> 'd \<Rightarrow> 'm
    \<Rightarrow> 'd \<times> 'm \<times> go_error option" where
  "db_View B f d m =
     (case boltView B (\<lambda>x. snd (f x m)) d of
        (d', None, e) \<Rightarrow> (d', m, e)
      | (d', Some x, e) \<Rightarrow> (d', fst (f x m), e))"

text \<open>A method of a nil bucket panics.  \<^verbatim>\<open>OpenBolt\<close> creates the buckets and no code removes
  one, so this value stands in a branch that is not reached (\<open>bolt_ok\<close> below holds from there on).\<close>

definition nil_dereference :: go_error where
  "nil_dereference = LibError ''runtime error: invalid memory address or nil pointer dereference''"

section \<open>Opening\<close>

definition bucketUsers :: string where
  "bucketUsers = ''users''"

definition bucketTasks :: string where
  "bucketTasks = ''tasks''"

definition bucketAuditLog :: string where
  "bucketAuditLog = ''audit_log''"

lemmas bucket_names = bucketUsers_def bucketTasks_def bucketAuditLog_def

fun create_buckets :: "('d, 'x, 'v) bolt_db \<Rightarrow> string list \<Rightarrow> 'x \<Rightarrow> 'x \<times> go_error option" where
  "create_buckets B [] x = (x, None)"
| "create_buckets B (b # bs) x =
     (case boltCreateBucket B b x of
        (x, Inl err) \<Rightarrow> (x, Some err)
      | (x, Inr _) \<Rightarrow> create_buckets B bs x)"

text \<open>\<open>opened\<close> is what \<^verbatim>\<open>bbolt.Open\<close> returned.\<close>

definition OpenBolt :: "('d, 'x, 'v) bolt_db \<Rightarrow> go_error + 'd \<Rightarrow> process_event list \<times> (go_error + 'd)" where
  "OpenBolt B opened =
     (case opened of
        Inl err \<Rightarrow> ([], Inl (WrapError ''bolt open'' err))
      | Inr db \<Rightarrow>
          (case boltUpdate B (create_buckets B [bucketUsers, bucketTasks, bucketAuditLog]) db of
             (db, _, Some err) \<Rightarrow> ([Opens BoltFile, Closes BoltFile], Inl (WrapError ''bolt init buckets'' err))
           | (db, _, None) \<Rightarrow> ([Opens BoltFile], Inr db)))"

lemma OpenBolt_events: "opens_only BoltFile (OpenBolt B opened)"
  by (auto simp: OpenBolt_def opens_only_def split: sum.splits option.splits prod.splits)

section \<open>What the two repositories share\<close>

text \<open>
  The methods of \<^verbatim>\<open>BoltUserRepo\<close> and \<^verbatim>\<open>BoltTaskRepo\<close> are the same code
  on another bucket and another type.  \<open>stamp\<close> sets the id and both times, \<open>touch\<close> the time of the update.
\<close>

definition bolt_insert :: "('d, 'x, 'v) bolt_db \<Rightarrow> string \<Rightarrow> ('e \<Rightarrow> go_error + 'v) \<Rightarrow> ('e \<Rightarrow> int64)
    \<Rightarrow> (int64 \<Rightarrow> gotime \<Rightarrow> 'e \<Rightarrow> 'e) \<Rightarrow> (nat \<Rightarrow> gotime) \<Rightarrow> 'x \<Rightarrow> 'e \<times> nat \<Rightarrow> 'x \<times> ('e \<times> nat) \<times> go_error option" where
  "bolt_insert B b marshal key stamp clock x m =
     (case m of (e, tick) \<Rightarrow>
        if \<not> boltHasBucket B b x then (x, (e, tick), Some nil_dereference)
        else case boltNextSequence B b x of (x, q) \<Rightarrow>
          let i = (case q of Inl _ \<Rightarrow> 0 | Inr n \<Rightarrow> n); e = stamp i (clock tick) e; m = (e, Suc tick) in
          (case marshal e of
             Inl err \<Rightarrow> (x, m, Some err)
           | Inr data \<Rightarrow>
               (case boltPut B b (itob (key e)) data x of
                  (x, Inl err) \<Rightarrow> (x, m, Some err)
                | (x, Inr _) \<Rightarrow> (x, m, None))))"

definition bolt_read :: "('d, 'x, 'v) bolt_db \<Rightarrow> string \<Rightarrow> ('v \<Rightarrow> go_error + 'e) \<Rightarrow> go_error \<Rightarrow> int64
    \<Rightarrow> 'x \<Rightarrow> 'e \<Rightarrow> 'e \<times> go_error option" where
  "bolt_read B b unmarshal missing i x m =
     (if \<not> boltHasBucket B b x then (m, Some nil_dereference)
      else case boltGet B b (itob i) x of
        None \<Rightarrow> (m, Some missing)
      | Some data \<Rightarrow> (case unmarshal data of Inl err \<Rightarrow> (m, Some err) | Inr e \<Rightarrow> (e, None)))"

text \<open>\<^verbatim>\<open>ForEach\<close> stops at the first error of its callback.\<close>

fun bolt_scan :: "('v \<Rightarrow> go_error + 'e) \<Rightarrow> ('e \<Rightarrow> 'm \<Rightarrow> 'm) \<Rightarrow> (string \<times> 'v) list \<Rightarrow> 'm \<Rightarrow> 'm \<times> go_error option" where
  "bolt_scan unmarshal f [] m = (m, None)"
| "bolt_scan unmarshal f ((k, v) # ps) m =
     (case unmarshal v of
        Inl err \<Rightarrow> (m, Some err)
      | Inr e \<Rightarrow> bolt_scan unmarshal f ps (f e m))"

definition bolt_each :: "('d, 'x, 'v) bolt_db \<Rightarrow> string \<Rightarrow> ('v \<Rightarrow> go_error + 'e) \<Rightarrow> ('e \<Rightarrow> 'm \<Rightarrow> 'm)
    \<Rightarrow> 'x \<Rightarrow> 'm \<Rightarrow> 'm \<times> go_error option" where
  "bolt_each B b unmarshal f x m =
     (if \<not> boltHasBucket B b x then (m, Some nil_dereference)
      else bolt_scan unmarshal f (boltPairs B b x) m)"

definition bolt_replace :: "('d, 'x, 'v) bolt_db \<Rightarrow> string \<Rightarrow> ('e \<Rightarrow> go_error + 'v) \<Rightarrow> ('e \<Rightarrow> int64)
    \<Rightarrow> (gotime \<Rightarrow> 'e \<Rightarrow> 'e) \<Rightarrow> go_error \<Rightarrow> (nat \<Rightarrow> gotime) \<Rightarrow> 'x \<Rightarrow> 'e \<times> nat
    \<Rightarrow> 'x \<times> ('e \<times> nat) \<times> go_error option" where
  "bolt_replace B b marshal key touch missing clock x m =
     (case m of (e, tick) \<Rightarrow>
        if \<not> boltHasBucket B b x then (x, (e, tick), Some nil_dereference)
        else if boltGet B b (itob (key e)) x = None then (x, (e, tick), Some missing)
        else let e = touch (clock tick) e; m = (e, Suc tick) in
          (case marshal e of
             Inl err \<Rightarrow> (x, m, Some err)
           | Inr data \<Rightarrow>
               (case boltPut B b (itob (key e)) data x of
                  (x, Inl err) \<Rightarrow> (x, m, Some err)
                | (x, Inr _) \<Rightarrow> (x, m, None))))"

definition bolt_remove :: "('d, 'x, 'v) bolt_db \<Rightarrow> string \<Rightarrow> int64 \<Rightarrow> 'x \<Rightarrow> unit \<Rightarrow> 'x \<times> unit \<times> go_error option" where
  "bolt_remove B b i x m =
     (if \<not> boltHasBucket B b x then (x, m, Some nil_dereference)
      else case boltDelete B b (itob i) x of
        (x, Inl err) \<Rightarrow> (x, m, Some err)
      | (x, Inr _) \<Rightarrow> (x, m, None))"

text \<open>The result of a method from the error of the transaction and the captured variables.\<close>

definition returned :: "'d \<times> ('e \<times> nat) \<times> go_error option \<Rightarrow> ('d \<times> nat) \<times> (go_error + 'e)" where
  "returned r = (case r of (d, (e, tick), None) \<Rightarrow> ((d, tick), Inr e) | (d, (e, tick), Some err) \<Rightarrow> ((d, tick), Inl err))"

definition read_result :: "nat \<Rightarrow> 'd \<times> 'e \<times> go_error option \<Rightarrow> ('d \<times> nat) \<times> (go_error + 'e)" where
  "read_result tick r = (case r of (d, e, None) \<Rightarrow> ((d, tick), Inr e) | (d, e, Some err) \<Rightarrow> ((d, tick), Inl err))"

section \<open>BoltUserRepo\<close>

definition zero_user :: user where
  "zero_user = \<lparr>uID = 0, uEmail = [], uName = [], uPassword = [], uCreatedAt = zero_time, uUpdatedAt = zero_time\<rparr>"

definition stamp_user :: "int64 \<Rightarrow> gotime \<Rightarrow> user \<Rightarrow> user" where
  "stamp_user i now u = u\<lparr>uID := i, uCreatedAt := now, uUpdatedAt := now\<rparr>"

definition user_not_found :: "int64 \<Rightarrow> go_error" where
  "user_not_found i = ErrorString (Text (''user '' @ FormatInt i @ '' not found''))"

definition BoltUserRepo_Create :: "('d, 'x, 'v) bolt_db \<Rightarrow> 'v json_codec \<Rightarrow> (nat \<Rightarrow> gotime)
    \<Rightarrow> 'c \<Rightarrow> user \<Rightarrow> 'd \<times> nat \<Rightarrow> ('d \<times> nat) \<times> (go_error + user)" where
  "BoltUserRepo_Create B J clock ctx u s =
     returned (db_Update B (bolt_insert B bucketUsers (marshalUser J) uID stamp_user clock) (fst s) (u, snd s))"

definition BoltUserRepo_GetByID :: "('d, 'x, 'v) bolt_db \<Rightarrow> 'v json_codec
    \<Rightarrow> 'c \<Rightarrow> int64 \<Rightarrow> 'd \<times> nat \<Rightarrow> ('d \<times> nat) \<times> (go_error + user)" where
  "BoltUserRepo_GetByID B J ctx i s =
     read_result (snd s)
       (db_View B (bolt_read B bucketUsers (unmarshalUser J) (user_not_found i) i) (fst s) zero_user)"

definition BoltUserRepo_GetByEmail :: "('d, 'x, 'v) bolt_db \<Rightarrow> 'v json_codec
    \<Rightarrow> 'c \<Rightarrow> string \<Rightarrow> 'd \<times> nat \<Rightarrow> ('d \<times> nat) \<times> (go_error + user)" where
  "BoltUserRepo_GetByEmail B J ctx email s =
     (case db_View B (bolt_each B bucketUsers (unmarshalUser J)
              (\<lambda>u found. if uEmail u = email then Some u else found)) (fst s) None of
        (d, found, Some err) \<Rightarrow> ((d, snd s), Inl err)
      | (d, None, None) \<Rightarrow> ((d, snd s), Inl (ErrorString (Quoted ''user with email '' email '' not found'')))
      | (d, Some u, None) \<Rightarrow> ((d, snd s), Inr u))"

definition BoltUserRepo_Update :: "('d, 'x, 'v) bolt_db \<Rightarrow> 'v json_codec \<Rightarrow> (nat \<Rightarrow> gotime)
    \<Rightarrow> 'c \<Rightarrow> user \<Rightarrow> 'd \<times> nat \<Rightarrow> ('d \<times> nat) \<times> (go_error + user)" where
  "BoltUserRepo_Update B J clock ctx u s =
     returned (db_Update B (bolt_replace B bucketUsers (marshalUser J) uID (\<lambda>now u. u\<lparr>uUpdatedAt := now\<rparr>)
       (user_not_found (uID u)) clock) (fst s) (u, snd s))"

definition BoltUserRepo_Delete :: "('d, 'x, 'v) bolt_db
    \<Rightarrow> 'c \<Rightarrow> int64 \<Rightarrow> 'd \<times> nat \<Rightarrow> ('d \<times> nat) \<times> (go_error + unit)" where
  "BoltUserRepo_Delete B ctx i s = read_result (snd s) (db_Update B (bolt_remove B bucketUsers i) (fst s) ())"

definition BoltUserRepo :: "('d, 'x, 'v) bolt_db \<Rightarrow> 'v json_codec \<Rightarrow> (nat \<Rightarrow> gotime)
    \<Rightarrow> ('c, 'd \<times> nat) user_repository" where
  "BoltUserRepo B J clock =
     \<lparr>userCreate = BoltUserRepo_Create B J clock, userGetByID = BoltUserRepo_GetByID B J,
      userGetByEmail = BoltUserRepo_GetByEmail B J, userUpdate = BoltUserRepo_Update B J clock,
      userDelete = BoltUserRepo_Delete B\<rparr>"

section \<open>BoltTaskRepo\<close>

definition zero_task :: task where
  "zero_task = \<lparr>tID = 0, tUserID = 0, tTitle = [], tDescription = [], tStatus = [],
     tCreatedAt = zero_time, tUpdatedAt = zero_time\<rparr>"

definition stamp_task :: "int64 \<Rightarrow> gotime \<Rightarrow> task \<Rightarrow> task" where
  "stamp_task i now t = t\<lparr>tID := i, tCreatedAt := now, tUpdatedAt := now\<rparr>"

definition task_not_found :: "int64 \<Rightarrow> go_error" where
  "task_not_found i = ErrorString (Text (''task '' @ FormatInt i @ '' not found''))"

definition BoltTaskRepo_Create :: "('d, 'x, 'v) bolt_db \<Rightarrow> 'v json_codec \<Rightarrow> (nat \<Rightarrow> gotime)
    \<Rightarrow> 'c \<Rightarrow> task \<Rightarrow> 'd \<times> nat \<Rightarrow> ('d \<times> nat) \<times> (go_error + task)" where
  "BoltTaskRepo_Create B J clock ctx t s =
     returned (db_Update B (bolt_insert B bucketTasks (marshalTask J) tID stamp_task clock) (fst s) (t, snd s))"

definition BoltTaskRepo_GetByID :: "('d, 'x, 'v) bolt_db \<Rightarrow> 'v json_codec
    \<Rightarrow> 'c \<Rightarrow> int64 \<Rightarrow> 'd \<times> nat \<Rightarrow> ('d \<times> nat) \<times> (go_error + task)" where
  "BoltTaskRepo_GetByID B J ctx i s =
     read_result (snd s)
       (db_View B (bolt_read B bucketTasks (unmarshalTask J) (task_not_found i) i) (fst s) zero_task)"

definition BoltTaskRepo_ListByUser :: "('d, 'x, 'v) bolt_db \<Rightarrow> 'v json_codec
    \<Rightarrow> 'c \<Rightarrow> int64 \<Rightarrow> 'd \<times> nat \<Rightarrow> ('d \<times> nat) \<times> (go_error + task list)" where
  "BoltTaskRepo_ListByUser B J ctx userID s =
     read_result (snd s)
       (db_View B (bolt_each B bucketTasks (unmarshalTask J)
          (\<lambda>t tasks. if tUserID t = userID then tasks @ [t] else tasks)) (fst s) [])"

definition BoltTaskRepo_Update :: "('d, 'x, 'v) bolt_db \<Rightarrow> 'v json_codec \<Rightarrow> (nat \<Rightarrow> gotime)
    \<Rightarrow> 'c \<Rightarrow> task \<Rightarrow> 'd \<times> nat \<Rightarrow> ('d \<times> nat) \<times> (go_error + task)" where
  "BoltTaskRepo_Update B J clock ctx t s =
     returned (db_Update B (bolt_replace B bucketTasks (marshalTask J) tID (\<lambda>now t. t\<lparr>tUpdatedAt := now\<rparr>)
       (task_not_found (tID t)) clock) (fst s) (t, snd s))"

definition BoltTaskRepo_Delete :: "('d, 'x, 'v) bolt_db
    \<Rightarrow> 'c \<Rightarrow> int64 \<Rightarrow> 'd \<times> nat \<Rightarrow> ('d \<times> nat) \<times> (go_error + unit)" where
  "BoltTaskRepo_Delete B ctx i s = read_result (snd s) (db_Update B (bolt_remove B bucketTasks i) (fst s) ())"

definition BoltTaskRepo :: "('d, 'x, 'v) bolt_db \<Rightarrow> 'v json_codec \<Rightarrow> (nat \<Rightarrow> gotime)
    \<Rightarrow> ('c, 'd \<times> nat) task_repository" where
  "BoltTaskRepo B J clock =
     \<lparr>taskCreate = BoltTaskRepo_Create B J clock, taskGetByID = BoltTaskRepo_GetByID B J,
      taskListByUser = BoltTaskRepo_ListByUser B J, taskUpdate = BoltTaskRepo_Update B J clock,
      taskDelete = BoltTaskRepo_Delete B\<rparr>"

section \<open>BoltAuditLogger\<close>

definition append_record :: "('d, 'x, 'v) bolt_db \<Rightarrow> 'v json_codec \<Rightarrow> audit_record \<Rightarrow> 'x \<Rightarrow> unit
    \<Rightarrow> 'x \<times> unit \<times> go_error option" where
  "append_record B J rec x m =
     (if \<not> boltHasBucket B bucketAuditLog x then (x, m, Some (ErrorString (Text ''audit bucket not found'')))
      else case boltNextSequence B bucketAuditLog x of
        (x, Inl err) \<Rightarrow> (x, m, Some (WrapError ''next audit sequence'' err))
      | (x, Inr i) \<Rightarrow>
          (case marshalAudit J rec of
             Inl err \<Rightarrow> (x, m, Some (WrapError ''marshal audit record'' err))
           | Inr payload \<Rightarrow>
               (case boltPut B bucketAuditLog (itob i) payload x of
                  (x, Inl err) \<Rightarrow> (x, m, Some (WrapError ''store audit record'' err))
                | (x, Inr _) \<Rightarrow> (x, m, None))))"

definition BoltAuditLogger_Append :: "('d, 'x, 'v) bolt_db \<Rightarrow> 'v json_codec \<Rightarrow> audit_record \<Rightarrow> 'd
    \<Rightarrow> 'd \<times> (go_error + unit)" where
  "BoltAuditLogger_Append B J rec d =
     (case db_Update B (append_record B J rec) d () of
        (d, _, Some err) \<Rightarrow> (d, Inl err)
      | (d, _, None) \<Rightarrow> (d, Inr ()))"

end
