(* ===== verification/Bolt_Laws.thy ===== *)
theory Bolt_Laws
  imports Bolt
begin

text \<open>
  What the Bolt repositories promise on any database that behaves as bbolt documents (the locale
  \<open>bolt_engine\<close>): the rows of a bucket are a map from ids to entities, and each method of a
  repository is the map operation of its name.  \<open>Bolt_Reference\<close> has a database that meets the locale.
\<close>

section \<open>The library's promises\<close>

text \<open>The contents of a transaction or a database: per bucket its sequence number and its pairs.\<close>

type_synonym 'v bolt_data = "string \<rightharpoonup> int64 \<times> (string \<rightharpoonup> 'v)"

text \<open>The code takes the next number of a sequence, a \<^verbatim>\<open>uint64\<close>, for a positive
  \<^verbatim>\<open>int64\<close>: a bucket sees fewer than \<open>2 ^ 63\<close> insertions.\<close>

definition sequences_left :: "'v bolt_data \<Rightarrow> bool" where
  "sequences_left M \<longleftrightarrow> (\<forall>b q m. M b = Some (q, m) \<longrightarrow> 0 \<le> sint q \<and> sint q < 2 ^ 63 - 1)"

lemma sequence_next:
  assumes "sequences_left M" "M b = Some (q, m)"
  shows "0 < sint (q + 1)" "unat (q + 1) = unat q + 1"
proof -
  have q: "0 \<le> sint q" "sint q < 2 ^ 63 - 1" using assms by (auto simp: sequences_left_def)
  then have "sint (q + 1) = sint q + 1" using sint_add_no_overflow [of q 1] by simp
  then show "0 < sint (q + 1)" "unat (q + 1) = unat q + 1"
    using q sint_nonneg_unat [of q] sint_nonneg_unat [of "q + 1"] by linarith+
qed

locale bolt_engine =
  fixes B :: "('d, 'x, 'v) bolt_db"
    and buckets :: "'x \<Rightarrow> 'v bolt_data"
    and writable :: "'x \<Rightarrow> bool"
    and stored :: "'d \<Rightarrow> 'v bolt_data"
  assumes update_ran: "boltUpdate B f d = (d', Some x, r) \<Longrightarrow> f x = (x', e) \<Longrightarrow>
          writable x \<and> buckets x = stored d \<and> sequences_left (stored d) \<and>
          (case e of
             Some err \<Rightarrow> r = Some err \<and> stored d' = stored d
           | None \<Rightarrow> (r = None \<and> stored d' = buckets x')
               \<or> ((\<exists>m. r = Some (LibError m)) \<and> (stored d' = stored d \<or> stored d' = buckets x')))"
    and update_not_run: "boltUpdate B f d = (d', None, r) \<Longrightarrow> stored d' = stored d \<and> (\<exists>m. r = Some (LibError m))"
    and view_ran: "boltView B g d = (d', Some x, r) \<Longrightarrow> stored d' = stored d \<and> buckets x = stored d \<and> r = g x"
    and view_not_run: "boltView B g d = (d', None, r) \<Longrightarrow> stored d' = stored d \<and> (\<exists>m. r = Some (LibError m))"
    and has_bucket: "boltHasBucket B b x \<longleftrightarrow> buckets x b \<noteq> None"
    and create_bucket_ok: "writable x \<Longrightarrow> boltCreateBucket B b x = (x', Inr u) \<Longrightarrow> writable x' \<and>
          buckets x' = (if buckets x b = None then (buckets x)(b \<mapsto> (0, Map.empty)) else buckets x)"
    and create_bucket_error: "writable x \<Longrightarrow> boltCreateBucket B b x = (x', Inl err) \<Longrightarrow> \<exists>m. err = LibError m"
    and next_sequence: "writable x \<Longrightarrow> buckets x b = Some (q, m) \<Longrightarrow> boltNextSequence B b x = (x', n) \<Longrightarrow>
          n = Inr (q + 1) \<and> writable x' \<and> buckets x' = (buckets x)(b \<mapsto> (q + 1, m))"
    and get: "buckets x b = Some (q, m) \<Longrightarrow> boltGet B b k x = m k"
    and put_ok: "writable x \<Longrightarrow> buckets x b = Some (q, m) \<Longrightarrow> boltPut B b k v x = (x', Inr u) \<Longrightarrow>
          writable x' \<and> buckets x' = (buckets x)(b \<mapsto> (q, m(k \<mapsto> v)))"
    and put_error: "writable x \<Longrightarrow> boltPut B b k v x = (x', Inl err) \<Longrightarrow> \<exists>msg. err = LibError msg"
    and delete_ok: "writable x \<Longrightarrow> buckets x b = Some (q, m) \<Longrightarrow> boltDelete B b k x = (x', Inr u) \<Longrightarrow>
          writable x' \<and> buckets x' = (buckets x)(b \<mapsto> (q, m(k := None)))"
    and delete_error: "writable x \<Longrightarrow> boltDelete B b k x = (x', Inl err) \<Longrightarrow> \<exists>msg. err = LibError msg"
    and pairs: "buckets x b = Some (q, m) \<Longrightarrow>
          sorted_wrt (\<lambda>p p'. bytes_less (fst p) (fst p')) (boltPairs B b x) \<and> map_of (boltPairs B b x) = m"
begin

text \<open>An update that fails leaves the data alone or, if only the commit failed, may have taken effect.\<close>

lemma update_cases:
  assumes "db_Update B f d m = (d', m', r)"
  obtains (not_run) msg where "r = Some (LibError msg)" "stored d' = stored d" "m' = m"
  | (rolled_back) x x' err where "writable x" "buckets x = stored d" "f x m = (x', m', Some err)"
      "r = Some err" "stored d' = stored d"
  | (committed) x x' where "writable x" "buckets x = stored d" "f x m = (x', m', None)"
      "r = None" "stored d' = buckets x'" "sequences_left (stored d)"
  | (commit_failed) x x' msg where "writable x" "buckets x = stored d" "f x m = (x', m', None)"
      "r = Some (LibError msg)" "stored d' = stored d \<or> stored d' = buckets x'" "sequences_left (stored d)"
proof -
  let ?g = "\<lambda>x. case f x m of (x', _, e) \<Rightarrow> (x', e)"
  obtain d1 ran r1 where u: "boltUpdate B ?g d = (d1, ran, r1)" by (rule prod_cases3)
  show ?thesis
  proof (cases ran)
    case None
    then show ?thesis
      using update_not_run [of ?g d d1 r1] u assms not_run by (auto simp: db_Update_def)
  next
    case (Some x)
    obtain x' m1 e where f: "f x m = (x', m1, e)" by (rule prod_cases3)
    have m1: "m1 = m'" "r1 = r" "d1 = d'" using assms u Some f by (auto simp: db_Update_def)
    have "?g x = (x', e)" using f by simp
    from update_ran [OF u [unfolded Some] this]
    have w: "writable x" "buckets x = stored d" and left: "sequences_left (stored d)" and
      "case e of Some err \<Rightarrow> r1 = Some err \<and> stored d1 = stored d
       | None \<Rightarrow> (r1 = None \<and> stored d1 = buckets x')
           \<or> ((\<exists>m. r1 = Some (LibError m)) \<and> (stored d1 = stored d \<or> stored d1 = buckets x'))"
      by auto
    then show ?thesis
      using f m1 rolled_back [OF w] committed [OF w] commit_failed [OF w] left by (auto split: option.splits)
  qed
qed

lemma view_cases:
  assumes "db_View B f d m = (d', m', r)"
  obtains (not_run) msg where "r = Some (LibError msg)" "stored d' = stored d"
  | (ran) x where "buckets x = stored d" "f x m = (m', r)" "stored d' = stored d"
proof -
  obtain d1 x r1 where v: "boltView B (\<lambda>x. snd (f x m)) d = (d1, x, r1)" by (rule prod_cases3)
  show ?thesis
  proof (cases x)
    case None
    then show ?thesis
      using v view_not_run [of "\<lambda>x. snd (f x m)" d d1 r1] assms not_run by (auto simp: db_View_def)
  next
    case (Some y)
    then show ?thesis
      using v view_ran [of "\<lambda>x. snd (f x m)" d d1 y r1] assms ran [of y]
      by (cases "f y m") (simp add: db_View_def)
  qed
qed

end

section \<open>Rows\<close>

definition bolt_rows :: "('v \<Rightarrow> go_error + 'e) \<Rightarrow> string \<Rightarrow> 'v bolt_data \<Rightarrow> int64 \<rightharpoonup> 'e" where
  "bolt_rows unmarshal b M i =
     (case M b of
        None \<Rightarrow> None
      | Some (q, m) \<Rightarrow>
          (case m (itob i) of
             None \<Rightarrow> None
           | Some v \<Rightarrow> (case unmarshal v of Inl _ \<Rightarrow> None | Inr e \<Rightarrow> Some e)))"

definition bolt_sequence :: "string \<Rightarrow> 'v bolt_data \<Rightarrow> int64" where
  "bolt_sequence b M = (case M b of None \<Rightarrow> 0 | Some (q, m) \<Rightarrow> q)"

text \<open>The bucket exists, every pair is an entity under its id, and no id is above the sequence number.\<close>

definition bolt_ok :: "('v \<Rightarrow> go_error + 'e) \<Rightarrow> ('e \<Rightarrow> int64) \<Rightarrow> string \<Rightarrow> 'v bolt_data \<Rightarrow> bool" where
  "bolt_ok unmarshal key b M \<longleftrightarrow>
     (case M b of
        None \<Rightarrow> False
      | Some (q, m) \<Rightarrow> \<forall>k v. m k = Some v \<longrightarrow>
          (\<exists>e. unmarshal v = Inr e \<and> k = itob (key e) \<and> unat (key e) \<le> unat q))"

lemma bolt_okE:
  assumes "bolt_ok unmarshal key b M"
  obtains q m where "M b = Some (q, m)" "bolt_sequence b M = q"
    "\<And>k v. m k = Some v \<Longrightarrow> \<exists>e. unmarshal v = Inr e \<and> k = itob (key e) \<and> unat (key e) \<le> unat q"
  using assms by (auto simp: bolt_ok_def bolt_sequence_def split: option.splits)

lemma bolt_rows_key: "bolt_ok unmarshal key b M \<Longrightarrow> bolt_rows unmarshal b M i = Some e \<Longrightarrow> key e = i"
  by (fastforce simp: bolt_ok_def bolt_rows_def split: option.splits sum.splits)

lemma bolt_rows_bound:
  "bolt_ok unmarshal key b M \<Longrightarrow> bolt_rows unmarshal b M i = Some e \<Longrightarrow> unat i \<le> unat (bolt_sequence b M)"
  by (fastforce simp: bolt_ok_def bolt_rows_def bolt_sequence_def split: option.splits sum.splits)

lemma bolt_rows_None:
  "bolt_ok unmarshal key b M \<Longrightarrow> M b = Some (q, m) \<Longrightarrow> bolt_rows unmarshal b M i = None \<longleftrightarrow> m (itob i) = None"
  by (fastforce simp: bolt_ok_def bolt_rows_def split: option.splits sum.splits)

lemma bolt_put_rows:
  assumes "bolt_ok unmarshal key b M" "M b = Some (q, m)" "unmarshal v = Inr e" "unat (key e) \<le> unat q'" "unat q \<le> unat q'"
  shows "bolt_ok unmarshal key b (M(b \<mapsto> (q', m(itob (key e) \<mapsto> v))))"
    and "bolt_rows unmarshal b (M(b \<mapsto> (q', m(itob (key e) \<mapsto> v)))) = (bolt_rows unmarshal b M)(key e \<mapsto> e)"
  using assms by (fastforce simp: bolt_ok_def bolt_rows_def fun_eq_iff)+

lemma bolt_remove_rows:
  assumes "bolt_ok unmarshal key b M" "M b = Some (q, m)"
  shows "bolt_ok unmarshal key b (M(b \<mapsto> (q, m(itob i := None))))"
    and "bolt_rows unmarshal b (M(b \<mapsto> (q, m(itob i := None)))) = (bolt_rows unmarshal b M)(i := None)"
  using assms by (auto simp: bolt_ok_def bolt_rows_def fun_eq_iff)

text \<open>The entities of some rows in the order of their ids.\<close>

definition visits :: "('e \<Rightarrow> int64) \<Rightarrow> (int64 \<rightharpoonup> 'e) \<Rightarrow> 'e list \<Rightarrow> bool" where
  "visits key R es \<longleftrightarrow> set es = ran R \<and> sorted_wrt (\<lambda>e e'. unat (key e) < unat (key e')) es"

section \<open>Keys\<close>

lemma bytes_less_itob_unat: "bytes_less (itob i) (itob j) \<longleftrightarrow> unat i < unat j"
  unfolding itob_def by (rule bytes_less_be_bytes) (use unsigned_less [of i] unsigned_less [of j] in simp_all)

lemma bytes_less_irrefl [simp]: "\<not> bytes_less k k"
  by (induction k) auto

lemma sorted_keys_distinct: "sorted_wrt (\<lambda>p p'. bytes_less (fst p) (fst p')) ps \<Longrightarrow> distinct (map fst ps)"
proof (induction ps)
  case (Cons p ps)
  then show ?case by (force simp: image_iff)
qed simp

section \<open>One bucket with its codec\<close>

locale bolt_entity = bolt_engine B buckets writable stored
    for B :: "('d, 'x, 'v) bolt_db"
    and buckets :: "'x \<Rightarrow> 'v bolt_data"
    and writable :: "'x \<Rightarrow> bool"
    and stored :: "'d \<Rightarrow> 'v bolt_data" +
  fixes b :: string
    and marshal :: "'e \<Rightarrow> go_error + 'v"
    and unmarshal :: "'v \<Rightarrow> go_error + 'e"
    and key :: "'e \<Rightarrow> int64"
    and kept :: "'e \<Rightarrow> 'e" \<comment> \<open>what the encoding keeps\<close>
  assumes marshal_ok: "marshal e = Inr v \<Longrightarrow> unmarshal v = Inr (kept e)"
    and marshal_error: "marshal e = Inl err \<Longrightarrow> \<exists>m. err = LibError m"
    and unmarshal_error: "unmarshal v = Inl err \<Longrightarrow> \<exists>m. err = LibError m"
    and key_kept: "key (kept e) = key e"
begin

abbreviation good where
  "good d \<equiv> bolt_ok unmarshal key b (stored d)"

abbreviation rows where
  "rows d \<equiv> bolt_rows unmarshal b (stored d)"

lemma insert_closure:
  assumes "writable x" "buckets x b = Some (q, m)" "\<And>i t e. key (stamp i t e) = i"
    and "bolt_insert B b marshal key stamp clock x (e, tick) = (x', (e', tick'), r)"
  shows "e' = stamp (q + 1) (clock tick) e \<and> tick' = Suc tick
    \<and> (case r of
         Some err \<Rightarrow> \<exists>m. err = LibError m
       | None \<Rightarrow> \<exists>v. unmarshal v = Inr (kept e')
           \<and> buckets x' = (buckets x)(b \<mapsto> (q + 1, m(itob (q + 1) \<mapsto> v))))"
proof -
  obtain x1 s where n: "boltNextSequence B b x = (x1, s)" by fastforce
  have ns: "s = Inr (q + 1)" "writable x1" "buckets x1 = (buckets x)(b \<mapsto> (q + 1, m))"
    using next_sequence [OF assms(1,2) n] by auto
  have b1: "buckets x1 b = Some (q + 1, m)" by (simp add: ns)
  have hb: "boltHasBucket B b x" using assms(2) by (simp add: has_bucket)
  show ?thesis
    using assms(4) n ns hb assms(3) marshal_ok marshal_error put_ok [OF ns(2) b1] put_error [OF ns(2)]
    by (fastforce simp: bolt_insert_def Let_def split: sum.splits prod.splits)
qed

lemma insert_cases:
  assumes "good d" "\<And>i t e. key (stamp i t e) = i"
    and "db_Update B (bolt_insert B b marshal key stamp clock) d (e, tick) = (d', (e', tick'), r)"
  shows "good d' \<and> (\<forall>c. c \<noteq> b \<longrightarrow> stored d' c = stored d c)
    \<and> (case r of
         None \<Rightarrow> e' = stamp (bolt_sequence b (stored d) + 1) (clock tick) e \<and> 0 < sint (key e') \<and> rows d (key e') = None
           \<and> rows d' = (rows d)(key e' \<mapsto> kept e')
       | Some err \<Rightarrow> untyped err \<and> (rows d' = rows d
           \<or> (\<exists>i t. rows d i = None \<and> rows d' = (rows d)(i \<mapsto> kept (stamp i t e)))))"
proof -
  obtain q m where M: "stored d b = Some (q, m)" "bolt_sequence b (stored d) = q"
    and M_ok: "\<And>k v. m k = Some v \<Longrightarrow> \<exists>e. unmarshal v = Inr e \<and> k = itob (key e) \<and> unat (key e) \<le> unat q"
    using assms(1) by (rule bolt_okE) blast
  let ?n = "q + 1"
  have free: "m (itob ?n) = None" if "sequences_left (stored d)"
    using M_ok sequence_next(2) [OF that M(1)] by (metis add_le_same_cancel1 itob_inj not_one_le_zero option.exhaust)
  have closure: "e1 = stamp ?n (clock tick) e \<and> (case r1 of Some err \<Rightarrow> \<exists>msg. err = LibError msg
      | None \<Rightarrow> \<exists>v. unmarshal v = Inr (kept e1) \<and> buckets x1 = (stored d)(b \<mapsto> (?n, m(itob ?n \<mapsto> v))))"
    if "writable x" "buckets x = stored d"
      "bolt_insert B b marshal key stamp clock x (e, tick) = (x1, (e1, t1), r1)" for x x1 e1 t1 r1
    using insert_closure [OF that(1) _ assms(2) that(3), of q m] that(2) M(1) by (cases r1) auto
  have new: "bolt_ok unmarshal key b M' \<and> (\<forall>c. c \<noteq> b \<longrightarrow> M' c = stored d c) \<and> rows d ?n = None
      \<and> bolt_rows unmarshal b M' = (rows d)(?n \<mapsto> kept (stamp ?n (clock tick) e))"
    if left: "sequences_left (stored d)" and v: "unmarshal v = Inr (kept (stamp ?n (clock tick) e))"
      and M': "M' = (stored d)(b \<mapsto> (?n, m(itob ?n \<mapsto> v)))" for M' v
    using bolt_put_rows [OF assms(1) M(1) v, of ?n] sequence_next(2) [OF left M(1)] free [OF left] M' assms(2)
    by (simp add: key_kept bolt_rows_None [OF assms(1) M(1)])
  from assms(3) show ?thesis
  proof (cases rule: update_cases)
    case (not_run msg)
    then show ?thesis using assms(1) by simp
  next
    case (rolled_back x x' err)
    then show ?thesis using assms(1) closure [OF rolled_back(1-3)] by auto
  next
    case (committed x x')
    then show ?thesis using closure [OF committed(1-3)] new [OF committed(6)] M(2) sequence_next(1) [OF committed(6) M(1)] assms(2) by auto
  next
    case (commit_failed x x' msg)
    from closure [OF commit_failed(1-3)] obtain v where
      "unmarshal v = Inr (kept (stamp ?n (clock tick) e))" "buckets x' = (stored d)(b \<mapsto> (?n, m(itob ?n \<mapsto> v)))"
      by auto
    from new [OF commit_failed(6) this] commit_failed(4,5) assms(1) show ?thesis
      by (elim disjE) (simp_all, blast)
  qed
qed

lemma read_cases:
  assumes "good d" "db_View B (bolt_read B b unmarshal missing i) d z = (d', e, r)"
  shows "stored d' = stored d
    \<and> (case r of
         None \<Rightarrow> rows d i = Some e
       | Some err \<Rightarrow> (\<exists>m. err = LibError m) \<or> (err = missing \<and> rows d i = None))"
proof -
  obtain q m where M: "stored d b = Some (q, m)"
    using assms(1) by (rule bolt_okE) blast
  from assms(2) show ?thesis
  proof (cases rule: view_cases)
    case (ran x)
    then have hb: "boltHasBucket B b x" "boltGet B b (itob i) x = m (itob i)"
      using M by (simp_all add: has_bucket get [of x b q m])
    with ran M show ?thesis
      using unmarshal_error by (fastforce simp: bolt_read_def bolt_rows_def split: option.splits sum.splits)
  qed simp
qed

lemma replace_closure:
  assumes "writable x" "buckets x b = Some (q, m)" "\<And>t e. key (touch t e) = key e"
    and "bolt_replace B b marshal key touch missing clock x (e, tick) = (x', (e', tick'), r)"
  shows "case r of
         Some err \<Rightarrow> (\<exists>m. err = LibError m) \<or> (err = missing \<and> m (itob (key e)) = None)
       | None \<Rightarrow> m (itob (key e)) \<noteq> None \<and> e' = touch (clock tick) e
           \<and> (\<exists>v. unmarshal v = Inr (kept e') \<and> buckets x' = (buckets x)(b \<mapsto> (q, m(itob (key e) \<mapsto> v))))"
proof -
  have hb: "boltHasBucket B b x" using assms(2) by (simp add: has_bucket)
  show ?thesis
    using assms(4) hb assms(3) get [OF assms(2)] marshal_ok marshal_error put_ok [OF assms(1,2)] put_error [OF assms(1)]
    by (fastforce simp: bolt_replace_def Let_def split: sum.splits prod.splits if_splits)
qed

lemma replace_cases:
  assumes "good d" "\<And>t e. key (touch t e) = key e"
    and "db_Update B (bolt_replace B b marshal key touch missing clock) d (e, tick) = (d', (e', tick'), r)"
  shows "good d' \<and> (\<forall>c. c \<noteq> b \<longrightarrow> stored d' c = stored d c) \<and> bolt_sequence b (stored d') = bolt_sequence b (stored d)
    \<and> (case r of
         None \<Rightarrow> rows d (key e) \<noteq> None \<and> e' = touch (clock tick) e \<and> rows d' = (rows d)(key e \<mapsto> kept e')
       | Some err \<Rightarrow> ((\<exists>m. err = LibError m) \<or> (err = missing \<and> rows d (key e) = None))
           \<and> (rows d' = rows d \<or> (\<exists>t. rows d (key e) \<noteq> None \<and> rows d' = (rows d)(key e \<mapsto> kept (touch t e)))))"
proof -
  obtain q m where M: "stored d b = Some (q, m)" "bolt_sequence b (stored d) = q"
    and M_ok: "\<And>k v. m k = Some v \<Longrightarrow> \<exists>e. unmarshal v = Inr e \<and> k = itob (key e) \<and> unat (key e) \<le> unat q"
    using assms(1) by (rule bolt_okE) blast
  have rows_iff: "rows d i = None \<longleftrightarrow> m (itob i) = None" for i
    by (rule bolt_rows_None [OF assms(1) M(1)])
  have closure: "case r1 of Some err \<Rightarrow> (\<exists>msg. err = LibError msg) \<or> (err = missing \<and> rows d (key e) = None)
      | None \<Rightarrow> rows d (key e) \<noteq> None \<and> e1 = touch (clock tick) e
          \<and> (\<exists>v. unmarshal v = Inr (kept e1) \<and> buckets x1 = (stored d)(b \<mapsto> (q, m(itob (key e) \<mapsto> v))))"
    if "writable x" "buckets x = stored d"
      "bolt_replace B b marshal key touch missing clock x (e, tick) = (x1, (e1, t1), r1)" for x x1 e1 t1 r1
    using replace_closure [OF that(1) _ assms(2) that(3), of q m, folded rows_iff] that(2) M(1) by (cases r1) auto
  have new: "bolt_ok unmarshal key b M' \<and> (\<forall>c. c \<noteq> b \<longrightarrow> M' c = stored d c)
      \<and> bolt_sequence b M' = q \<and> bolt_rows unmarshal b M' = (rows d)(key e \<mapsto> kept (touch (clock tick) e))"
    if "rows d (key e) \<noteq> None" "unmarshal v = Inr (kept (touch (clock tick) e))"
      "M' = (stored d)(b \<mapsto> (q, m(itob (key e) \<mapsto> v)))" for M' v
  proof -
    have "unat (key e) \<le> unat q"
      using that(1) bolt_rows_bound [OF assms(1)] M(2) by fastforce
    then show ?thesis
      using bolt_put_rows [OF assms(1) M(1) that(2), of q] that(3) assms(2)
      by (simp add: key_kept bolt_sequence_def)
  qed
  from assms(3) show ?thesis
  proof (cases rule: update_cases)
    case (not_run msg)
    then show ?thesis using assms(1) by simp
  next
    case (rolled_back x x' err)
    then show ?thesis using assms(1) closure [OF rolled_back(1-3)] by auto
  next
    case (committed x x')
    then show ?thesis using closure [OF committed(1-3)] new M(2) by auto
  next
    case (commit_failed x x' msg)
    then show ?thesis using closure [OF commit_failed(1-3)] new [of _ "buckets x'"] assms(1) M(2) by auto
  qed
qed

lemma remove_cases:
  assumes "good d" "db_Update B (bolt_remove B b i) d m0 = (d', u, r)"
  shows "good d' \<and> (\<forall>c. c \<noteq> b \<longrightarrow> stored d' c = stored d c) \<and> bolt_sequence b (stored d') = bolt_sequence b (stored d)
    \<and> (case r of
         None \<Rightarrow> rows d' = (rows d)(i := None)
       | Some err \<Rightarrow> (\<exists>m. err = LibError m) \<and> (rows d' = rows d \<or> rows d' = (rows d)(i := None)))"
proof -
  obtain q m where M: "stored d b = Some (q, m)" "bolt_sequence b (stored d) = q"
    using assms(1) by (rule bolt_okE) blast
  have closure: "case r1 of Some err \<Rightarrow> \<exists>msg. err = LibError msg
      | None \<Rightarrow> buckets x1 = (stored d)(b \<mapsto> (q, m(itob i := None)))"
    if w: "writable x" and x: "buckets x = stored d" and f: "bolt_remove B b i x m0 = (x1, u1, r1)" for x x1 u1 r1
  proof -
    have bx: "buckets x b = Some (q, m)" using x M(1) by simp
    then have "boltHasBucket B b x" by (simp add: has_bucket)
    then show ?thesis
      using f delete_ok [OF w bx] delete_error [OF w] x by (fastforce simp: bolt_remove_def split: sum.splits prod.splits)
  qed
  have new: "bolt_ok unmarshal key b M' \<and> (\<forall>c. c \<noteq> b \<longrightarrow> M' c = stored d c)
      \<and> bolt_sequence b M' = q \<and> bolt_rows unmarshal b M' = (rows d)(i := None)"
    if "M' = (stored d)(b \<mapsto> (q, m(itob i := None)))" for M'
    using bolt_remove_rows [OF assms(1) M(1), of i] that by (simp add: bolt_sequence_def)
  from assms(2) show ?thesis
  proof (cases rule: update_cases)
    case (not_run msg)
    then show ?thesis using assms(1) by simp
  next
    case (rolled_back x x' err)
    then show ?thesis using assms(1) closure [OF rolled_back(1-3)] by auto
  next
    case (committed x x')
    then show ?thesis using closure [OF committed(1-3)] new M(2) by simp
  next
    case (commit_failed x x' msg)
    then show ?thesis using closure [OF commit_failed(1-3)] new [of "buckets x'"] assms(1) M(2) by auto
  qed
qed

lemma scan_fold:
  "\<forall>(k, v) \<in> set ps. \<exists>e. unmarshal v = Inr e \<Longrightarrow>
     bolt_scan unmarshal f ps a = (fold f (map (\<lambda>(k, v). projr (unmarshal v)) ps) a, None)"
  by (induction unmarshal f ps a rule: bolt_scan.induct) (auto split: sum.splits)

lemma pairs_visited:
  assumes "bolt_ok unmarshal key b (buckets x)" "buckets x = stored d"
  shows "\<exists>es. visits key (rows d) es \<and> bolt_scan unmarshal f (boltPairs B b x) a = (fold f es a, None)"
proof -
  obtain q m where M: "buckets x b = Some (q, m)"
    and M_ok: "\<And>k v. m k = Some v \<Longrightarrow> \<exists>e. unmarshal v = Inr e \<and> k = itob (key e) \<and> unat (key e) \<le> unat q"
    using assms(1) by (rule bolt_okE) blast
  let ?ps = "boltPairs B b x" and ?e = "\<lambda>(k, v). projr (unmarshal v)"
  have sorted: "sorted_wrt (\<lambda>p p'. bytes_less (fst p) (fst p')) ?ps" and map: "map_of ?ps = m"
    using pairs [OF M] by auto
  have elem: "(k, v) \<in> set ?ps \<longleftrightarrow> m k = Some v" for k v
    using map_of_eq_Some_iff [OF sorted_keys_distinct [OF sorted], of k v] map by metis
  have dec: "\<exists>e. unmarshal v = Inr e \<and> k = itob (key e)" if "(k, v) \<in> set ?ps" for k v
    using that elem M_ok by blast
  have rows_eq: "rows d i = (case m (itob i) of None \<Rightarrow> None | Some v \<Rightarrow> Some (projr (unmarshal v)))" for i
    using M assms(2) by (auto simp: bolt_rows_def dest!: M_ok split: option.splits)
  have "set (map ?e ?ps) = ran (rows d)"
  proof (intro equalityI subsetI)
    fix e assume "e \<in> set (map ?e ?ps)"
    then obtain k v where kv: "(k, v) \<in> set ?ps" "e = projr (unmarshal v)" by auto
    with dec elem have "rows d (key e) = Some e" by (fastforce simp: rows_eq)
    then show "e \<in> ran (rows d)" by (rule ranI)
  next
    fix e assume "e \<in> ran (rows d)"
    then obtain i v where "m (itob i) = Some v" "e = projr (unmarshal v)"
      by (auto simp: ran_def rows_eq split: option.splits)
    then show "e \<in> set (map ?e ?ps)" using elem by force
  qed
  moreover have "sorted_wrt (\<lambda>e e'. unat (key e) < unat (key e')) (map ?e ?ps)"
    unfolding sorted_wrt_map
    by (rule sorted_wrt_mono_rel [OF _ sorted]) (fastforce dest!: dec simp: bytes_less_itob_unat)
  ultimately have "visits key (rows d) (map ?e ?ps)" by (simp add: visits_def)
  moreover have "bolt_scan unmarshal f ?ps a = (fold f (map ?e ?ps) a, None)"
    by (rule scan_fold) (use dec in blast)
  ultimately show ?thesis by blast
qed

lemma each_cases:
  assumes "good d" "db_View B (bolt_each B b unmarshal f) d a = (d', a', r)"
  shows "stored d' = stored d
    \<and> (case r of
         None \<Rightarrow> \<exists>es. visits key (rows d) es \<and> a' = fold f es a
       | Some err \<Rightarrow> \<exists>m. err = LibError m)"
  using assms(2)
proof (cases rule: view_cases)
  case (ran x)
  then have "boltHasBucket B b x" using assms(1) by (auto simp: has_bucket elim: bolt_okE)
  with ran show ?thesis using pairs_visited [of x d f a] assms(1) by (auto simp: bolt_each_def)
qed simp

end

end
