(* ===== verification/Bolt_Repos.thy ===== *)
theory Bolt_Repos
  imports Bolt_Laws User_Service
begin

text \<open>
  The contracts of the Bolt repositories.  \<^verbatim>\<open>BoltUserRepo\<close> is a \<open>user_store\<close>, so every
  lemma on the user service holds over it; what it keeps of a user has no password, because the field is
  tagged \<^verbatim>\<open>json:"-"\<close>.  \<^verbatim>\<open>BoltTaskRepo\<close> refines a map from ids to
  tasks.  The audit logger only appends.
\<close>

section \<open>What the encoding keeps\<close>

text \<open>\<^verbatim>\<open>encoding/json\<close> writes U+FFFD for every byte that is not part of valid UTF-8.\<close>

function utf8_text :: "string \<Rightarrow> string" where
  "utf8_text s =
     (if s = [] then []
      else let (r, w) = decode_rune (map of_char s) in
        (if r = 0xFFFD \<and> w = 1 then [CHR 0xEF, CHR 0xBF, CHR 0xBD] else take w s) @ utf8_text (drop w s))"
  by pat_completeness auto
termination
  by (relation "measure length") (simp_all add: decode_rune_drop)

declare utf8_text.simps [simp del]

definition kept_user :: "user \<Rightarrow> user" where
  "kept_user u = u\<lparr>uEmail := utf8_text (uEmail u), uName := utf8_text (uName u), uPassword := []\<rparr>"

definition kept_task :: "task \<Rightarrow> task" where
  "kept_task t = t\<lparr>tTitle := utf8_text (tTitle t), tDescription := utf8_text (tDescription t),
     tStatus := utf8_text (tStatus t)\<rparr>"

lemma utf8_text_ascii: "\<forall>c \<in> set s. (of_char c :: nat) < 0x80 \<Longrightarrow> utf8_text s = s"
proof (induction s rule: utf8_text.induct)
  case (1 s)
  show ?case
  proof (cases s)
    case (Cons c cs)
    with "1.prems" have "decode_rune (map of_char s) = (of_char c, 1)" by simp
    then show ?thesis using "1.IH" [of "(of_char c, 1)" "of_char c" 1] Cons "1.prems"
      by (simp add: utf8_text.simps [of "c # cs"])
  qed (simp add: utf8_text.simps)
qed

locale bolt_store = bolt_engine B buckets writable stored
    for B :: "('d, 'x, 'v) bolt_db"
    and buckets :: "'x \<Rightarrow> 'v bolt_data"
    and writable :: "'x \<Rightarrow> bool"
    and stored :: "'d \<Rightarrow> 'v bolt_data" +
  fixes J :: "'v json_codec"
  assumes user_codec: "marshalUser J u = Inr v \<Longrightarrow> unmarshalUser J v = Inr (kept_user u)"
    and user_marshal_error: "marshalUser J u = Inl err \<Longrightarrow> \<exists>m. err = LibError m"
    and user_unmarshal_error: "unmarshalUser J v = Inl err \<Longrightarrow> \<exists>m. err = LibError m"
    and user_no_password: "unmarshalUser J v = Inr u \<Longrightarrow> uPassword u = []"
    and task_codec: "marshalTask J t = Inr v \<Longrightarrow> unmarshalTask J v = Inr (kept_task t)"
    and task_marshal_error: "marshalTask J t = Inl err \<Longrightarrow> \<exists>m. err = LibError m"
    and task_unmarshal_error: "unmarshalTask J v = Inl err \<Longrightarrow> \<exists>m. err = LibError m"
    and audit_marshal_error: "marshalAudit J rec = Inl err \<Longrightarrow> \<exists>m. err = LibError m"

sublocale bolt_store \<subseteq> users: bolt_entity B buckets writable stored bucketUsers "marshalUser J" "unmarshalUser J"
    uID kept_user
  by unfold_locales (auto simp: user_codec user_marshal_error user_unmarshal_error kept_user_def)

sublocale bolt_store \<subseteq> tasks: bolt_entity B buckets writable stored bucketTasks "marshalTask J" "unmarshalTask J"
    tID kept_task
  by unfold_locales (auto simp: task_codec task_marshal_error task_unmarshal_error kept_task_def)

section \<open>Users\<close>

lemma fold_last_match:
  "fold (\<lambda>u found. if P u then Some u else found) us a =
     (case filter P us of [] \<Rightarrow> a | ms \<Rightarrow> Some (last ms))"
  by (induction us arbitrary: a) (auto split: list.splits)

lemma fold_collect: "fold (\<lambda>t ts. if P t then ts @ [t] else ts) us a = a @ filter P us"
  by (induction us arbitrary: a) auto

lemma same_input_stamp [simp]: "same_user_input u (stamp_user i t u)"
  "same_user_input (kept_user u) (kept_user (u\<lparr>uUpdatedAt := t\<rparr>))"
  by (simp_all add: same_user_input_def stamp_user_def kept_user_def)

lemma stamp_user_ID [simp]: "uID (stamp_user i t u) = i"
  by (simp add: stamp_user_def)

lemma stamp_task_ID [simp]: "tID (stamp_task i t k) = i"
  by (simp add: stamp_task_def)

lemma BoltUserRepo_sel [simp]:
  "userCreate (BoltUserRepo B J clock) = BoltUserRepo_Create B J clock"
  "userGetByID (BoltUserRepo B J clock) = BoltUserRepo_GetByID B J"
  "userGetByEmail (BoltUserRepo B J clock) = BoltUserRepo_GetByEmail B J"
  "userUpdate (BoltUserRepo B J clock) = BoltUserRepo_Update B J clock"
  "userDelete (BoltUserRepo B J clock) = BoltUserRepo_Delete B"
  by (simp_all add: BoltUserRepo_def)

lemma BoltTaskRepo_sel [simp]:
  "taskCreate (BoltTaskRepo B J clock) = BoltTaskRepo_Create B J clock"
  "taskGetByID (BoltTaskRepo B J clock) = BoltTaskRepo_GetByID B J"
  "taskListByUser (BoltTaskRepo B J clock) = BoltTaskRepo_ListByUser B J"
  "taskUpdate (BoltTaskRepo B J clock) = BoltTaskRepo_Update B J clock"
  "taskDelete (BoltTaskRepo B J clock) = BoltTaskRepo_Delete B"
  by (simp_all add: BoltTaskRepo_def)

definition bolt_users_ok :: "('d \<Rightarrow> 'v bolt_data) \<Rightarrow> 'v json_codec \<Rightarrow> 'd \<times> nat \<Rightarrow> bool" where
  "bolt_users_ok stored J s = bolt_ok (unmarshalUser J) uID bucketUsers (stored (fst s))"

definition bolt_users :: "('d \<Rightarrow> 'v bolt_data) \<Rightarrow> 'v json_codec \<Rightarrow> 'd \<times> nat \<Rightarrow> int64 \<rightharpoonup> user" where
  "bolt_users stored J s = bolt_rows (unmarshalUser J) bucketUsers (stored (fst s))"

definition bolt_tasks_ok :: "('d \<Rightarrow> 'v bolt_data) \<Rightarrow> 'v json_codec \<Rightarrow> 'd \<times> nat \<Rightarrow> bool" where
  "bolt_tasks_ok stored J s = bolt_ok (unmarshalTask J) tID bucketTasks (stored (fst s))"

definition bolt_tasks :: "('d \<Rightarrow> 'v bolt_data) \<Rightarrow> 'v json_codec \<Rightarrow> 'd \<times> nat \<Rightarrow> int64 \<rightharpoonup> task" where
  "bolt_tasks stored J s = bolt_rows (unmarshalTask J) bucketTasks (stored (fst s))"

context bolt_store
begin

lemma user_create:
  assumes "bolt_users_ok stored J s" "BoltUserRepo_Create B J clock ctx u s = (s', r)"
  shows "bolt_users_ok stored J s' \<and>
    (case r of
       Inr u' \<Rightarrow> same_user_input u u' \<and> 0 < sint (uID u') \<and> bolt_users stored J s (uID u') = None
         \<and> bolt_users stored J s' = (bolt_users stored J s)(uID u' \<mapsto> kept_user u')
     | Inl e \<Rightarrow> untyped e \<and> (bolt_users stored J s' = bolt_users stored J s
         \<or> (\<exists>u'. same_user_input u u' \<and> bolt_users stored J s (uID u') = None
              \<and> bolt_users stored J s' = (bolt_users stored J s)(uID u' \<mapsto> kept_user u'))))"
proof -
  obtain d u1 t1 e where q: "db_Update B (bolt_insert B bucketUsers (marshalUser J) uID stamp_user clock) (fst s) (u, snd s)
      = (d, (u1, t1), e)" by (metis prod.exhaust)
  note c = users.insert_cases [OF assms(1) [unfolded bolt_users_ok_def] stamp_user_ID q]
  show ?thesis
  proof (cases e)
    case None
    then show ?thesis using c assms(2) q
      by (clarsimp simp: BoltUserRepo_Create_def returned_def bolt_users_ok_def bolt_users_def)
  next
    case (Some err)
    have new: "\<exists>u'. same_user_input u u' \<and> users.rows (fst s) (uID u') = None
        \<and> users.rows d = (users.rows (fst s))(uID u' \<mapsto> kept_user u')"
      if "users.rows (fst s) i = None" "users.rows d = (users.rows (fst s))(i \<mapsto> kept_user (stamp_user i t u))" for i t
      using that by (intro exI [of _ "stamp_user i t u"]) simp
    from c Some have "untyped err" and "users.rows d = users.rows (fst s)
        \<or> (\<exists>i t. users.rows (fst s) i = None \<and> users.rows d = (users.rows (fst s))(i \<mapsto> kept_user (stamp_user i t u)))"
      by simp_all
    then have "users.rows d = users.rows (fst s) \<or> (\<exists>u'. same_user_input u u' \<and> users.rows (fst s) (uID u') = None
        \<and> users.rows d = (users.rows (fst s))(uID u' \<mapsto> kept_user u'))"
      by (elim disjE exE conjE) (simp, rule disjI2, rule new)
    with \<open>untyped err\<close> c Some assms(2) q show ?thesis
      by (clarsimp simp: BoltUserRepo_Create_def returned_def bolt_users_ok_def bolt_users_def)
  qed
qed

lemma user_get:
  assumes "bolt_users_ok stored J s" "BoltUserRepo_GetByID B J ctx i s = (s', r)"
  shows "stored (fst s') = stored (fst s) \<and>
    (case r of
       Inr u \<Rightarrow> bolt_users stored J s i = Some u
     | Inl e \<Rightarrow> is_fault e \<or> (e = user_not_found i \<and> bolt_users stored J s i = None))"
proof -
  obtain d u e where q: "db_View B (bolt_read B bucketUsers (unmarshalUser J) (user_not_found i) i) (fst s) zero_user
      = (d, u, e)" by (rule prod_cases3)
  show ?thesis
    using users.read_cases [OF assms(1) [unfolded bolt_users_ok_def] q] assms(2) q
    by (cases e) (auto simp: BoltUserRepo_GetByID_def read_result_def bolt_users_def is_fault_def)
qed

lemma visits_last_match:
  assumes "visits key M es" "filter P es \<noteq> []" "v \<in> set es" "P v"
  shows "unat (key v) \<le> unat (key (last (filter P es)))"
proof -
  let ?ms = "filter P es"
  have "sorted_wrt (\<lambda>a b. unat (key a) < unat (key b)) ?ms"
    using assms(1) by (simp add: visits_def sorted_wrt_filter)
  then have "sorted_wrt (\<lambda>a b. unat (key a) < unat (key b)) (butlast ?ms @ [last ?ms])" using assms(2) by simp
  moreover have "v \<in> set (butlast ?ms @ [last ?ms])" using assms(2-4) by simp
  ultimately show ?thesis by (auto simp: sorted_wrt_append less_imp_le)
qed

lemma user_find:
  assumes "bolt_users_ok stored J s" "BoltUserRepo_GetByEmail B J ctx email s = (s', r)"
  shows "stored (fst s') = stored (fst s) \<and>
    (case r of
       Inr u \<Rightarrow> bolt_users stored J s (uID u) = Some u \<and> uEmail u = email
         \<and> (\<forall>v \<in> ran (bolt_users stored J s). uEmail v = email \<longrightarrow> unat (uID v) \<le> unat (uID u))
     | Inl e \<Rightarrow> untyped e \<and> (is_fault e \<or> (\<forall>u \<in> ran (bolt_users stored J s). uEmail u \<noteq> email)))"
proof -
  let ?f = "\<lambda>u found. if uEmail u = email then Some u else found"
  note ok = assms(1) [unfolded bolt_users_ok_def]
  obtain d found e where q: "db_View B (bolt_each B bucketUsers (unmarshalUser J) ?f) (fst s) None = (d, found, e)"
    by (rule prod_cases3)
  note c = users.each_cases [OF ok q]
  show ?thesis
  proof (cases e)
    case (Some err)
    then show ?thesis using c assms(2) q by (cases found) (auto simp: BoltUserRepo_GetByEmail_def)
  next
    case None
    then obtain es where es: "visits uID (bolt_users stored J s) es" "found = fold ?f es None"
      using c by (auto simp: bolt_users_def)
    let ?ms = "filter (\<lambda>u. uEmail u = email) es"
    have found: "found = (if ?ms = [] then None else Some (last ?ms))"
      using es(2) by (simp add: fold_last_match split: list.splits)
    have in_es: "u \<in> set es \<longleftrightarrow> u \<in> ran (bolt_users stored J s)" for u
      using es(1) by (simp add: visits_def)
    have row: "bolt_users stored J s (uID u) = Some u" if "u \<in> set es" for u
      using that in_es bolt_rows_key [OF ok] by (auto simp: ran_def bolt_users_def)
    show ?thesis
    proof (cases "?ms = []")
      case True
      then show ?thesis using None found c assms(2) q in_es
        by (auto simp: BoltUserRepo_GetByEmail_def filter_empty_conv)
    next
      case False
      have l: "last ?ms \<in> set ?ms" using False by (rule last_in_set)
      have "unat (uID v) \<le> unat (uID (last ?ms))" if "v \<in> set ?ms" for v
        using visits_last_match [OF es(1) False] that by simp
      then show ?thesis using False None found c assms(2) q in_es l row
        by (auto simp: BoltUserRepo_GetByEmail_def)
    qed
  qed
qed

lemma user_update:
  assumes "bolt_users_ok stored J s" "BoltUserRepo_Update B J clock ctx u s = (s', r)"
  shows "bolt_users_ok stored J s' \<and>
    (case r of
       Inr u' \<Rightarrow> bolt_users stored J s (uID u) \<noteq> None \<and> (\<exists>t. u' = u\<lparr>uUpdatedAt := t\<rparr>
         \<and> bolt_users stored J s' = (bolt_users stored J s)(uID u \<mapsto> kept_user u'))
     | Inl e \<Rightarrow> untyped e \<and> (bolt_users stored J s' = bolt_users stored J s
         \<or> (\<exists>t. bolt_users stored J s (uID u) \<noteq> None
              \<and> bolt_users stored J s' = (bolt_users stored J s)(uID u \<mapsto> kept_user (u\<lparr>uUpdatedAt := t\<rparr>)))))"
proof -
  let ?touch = "\<lambda>now u. u\<lparr>uUpdatedAt := now\<rparr>"
  obtain d u1 t1 e where q: "db_Update B (bolt_replace B bucketUsers (marshalUser J) uID ?touch
      (user_not_found (uID u)) clock) (fst s) (u, snd s) = (d, (u1, t1), e)" by (metis prod.exhaust)
  show ?thesis
    using users.replace_cases [OF assms(1) [unfolded bolt_users_ok_def] _ q] assms(2) q
    by (cases e) (auto simp: BoltUserRepo_Update_def returned_def bolt_users_ok_def bolt_users_def user_not_found_def)
qed

lemma user_delete:
  assumes "bolt_users_ok stored J s" "BoltUserRepo_Delete B ctx i s = (s', r)"
  shows "bolt_users_ok stored J s' \<and>
    (case r of
       Inr _ \<Rightarrow> bolt_users stored J s' = (bolt_users stored J s)(i := None)
     | Inl e \<Rightarrow> untyped e \<and> (bolt_users stored J s' = bolt_users stored J s
         \<or> bolt_users stored J s' = (bolt_users stored J s)(i := None)))"
proof -
  obtain d u e where q: "db_Update B (bolt_remove B bucketUsers i) (fst s) () = (d, u, e)" by (rule prod_cases3)
  show ?thesis
    using users.remove_cases [OF assms(1) [unfolded bolt_users_ok_def] q] assms(2) q
    by (cases e) (auto simp: BoltUserRepo_Delete_def read_result_def bolt_users_ok_def bolt_users_def)
qed

end

sublocale bolt_store \<subseteq> bolt_user_repo: user_store "BoltUserRepo B J clock" ctx "bolt_users_ok stored J"
    "bolt_users stored J" kept_user for clock ctx
proof (unfold_locales, goal_cases)
  case (1 s i u)
  then show ?case by (simp add: bolt_users_ok_def bolt_users_def bolt_rows_key)
next
  case (2 s i s' r)
  then show ?case using user_get by (fastforce simp: bolt_users_ok_def bolt_users_def)
next
  case (3 s i s' u)
  then show ?case using user_get by fastforce
next
  case (4 s i s' e)
  then show ?case using user_get [of s ctx i s' "Inl e"] is_fault_untyped by (auto simp: user_not_found_def)
next
  case (5 s email s' r)
  then show ?case using user_find by (fastforce simp: bolt_users_ok_def bolt_users_def)
next
  case (6 s email s' u)
  then show ?case using user_find by fastforce
next
  case (7 s email s' e)
  then show ?case using user_find by fastforce
next
  case (8 s u s' r)
  then show ?case using user_create by fastforce
next
  case (9 s u s' u')
  then show ?case using user_create by fastforce
next
  case (10 s u s' e)
  then show ?case using user_create by fastforce
next
  case (11 s u s' q)
  then show ?case using user_update by fastforce
next
  case (12 s u s' u')
  then show ?case using user_update [of s clock ctx u s' "Inr u'"] same_input_stamp(2) by fastforce
next
  case (13 s u s' e)
  then show ?case using user_update [of s clock ctx u s' "Inl e"] by auto
next
  case (14 s i s' d)
  then show ?case using user_delete by fastforce
next
  case (15 s i s' v)
  then show ?case using user_delete by fastforce
next
  case (16 s i s' e)
  then show ?case using user_delete by fastforce
qed

end
