(* ===== verification/Bolt_Reference.thy ===== *)
theory Bolt_Reference
  imports Bolt_Repos
begin

text \<open>
  A BoltDB that keeps its buckets as association lists and never fails except when a sequence is used
  up, with a codec that keeps the fields that JSON keeps.  It meets \<open>bolt_store\<close>, so the laws of that locale
  can hold, and it runs the witnesses.
\<close>

section \<open>Ordered association lists\<close>

fun put_sorted :: "string \<Rightarrow> 'v \<Rightarrow> (string \<times> 'v) list \<Rightarrow> (string \<times> 'v) list" where
  "put_sorted k v [] = [(k, v)]"
| "put_sorted k v ((j, w) # ps) =
     (if k = j then (k, v) # ps
      else if bytes_less k j then (k, v) # (j, w) # ps
      else (j, w) # put_sorted k v ps)"

definition ordered_pairs :: "(string \<times> 'v) list \<Rightarrow> (string \<times> 'v) list" where
  "ordered_pairs ps = foldr (\<lambda>(k, v). put_sorted k v) ps []"

lemma bytes_less_trans: "bytes_less a b \<Longrightarrow> bytes_less b c \<Longrightarrow> bytes_less a c"
proof (induction a b arbitrary: c rule: bytes_less.induct)
  case (1 ys)
  then show ?case by (cases c) (auto simp: neq_Nil_conv)
next
  case (3 x xs y ys)
  then show ?case by (cases c) auto
qed simp

lemma bytes_less_linear: "bytes_less a b \<or> a = b \<or> bytes_less b a"
proof (induction a b rule: bytes_less.induct)
  case (1 ys)
  then show ?case by (cases ys) auto
next
  case (3 x xs y ys)
  then show ?case by (auto simp: not_less_iff_gr_or_eq)
qed simp

abbreviation keys_sorted :: "(string \<times> 'v) list \<Rightarrow> bool" where
  "keys_sorted \<equiv> sorted_wrt (\<lambda>p q. bytes_less (fst p) (fst q))"

lemma put_sorted_keys: "fst ` set (put_sorted k v ps) = insert k (fst ` set ps)"
  by (induction k v ps rule: put_sorted.induct) auto

lemma put_sorted_sorted: "keys_sorted ps \<Longrightarrow> keys_sorted (put_sorted k v ps)"
proof (induction k v ps rule: put_sorted.induct)
  case (2 k v j w ps)
  show ?case
  proof (cases "k = j \<or> bytes_less k j")
    case True
    then show ?thesis using "2.prems" by (auto intro: bytes_less_trans)
  next
    case False
    then have "bytes_less j k" using bytes_less_linear by blast
    moreover have "bytes_less j (fst p)" if "p \<in> set (put_sorted k v ps)" for p
      using that put_sorted_keys [of k v ps] "2.prems" \<open>bytes_less j k\<close> by force
    ultimately show ?thesis using False "2.IH" "2.prems" by auto
  qed
qed simp

lemma map_of_put_sorted: "keys_sorted ps \<Longrightarrow> map_of (put_sorted k v ps) = (map_of ps)(k \<mapsto> v)"
  by (induction k v ps rule: put_sorted.induct) auto

lemma ordered_pairs_ok: "keys_sorted (ordered_pairs ps) \<and> map_of (ordered_pairs ps) = map_of ps"
  by (induction ps) (auto simp: ordered_pairs_def put_sorted_sorted map_of_put_sorted)

lemma map_of_remove: "map_of (filter (\<lambda>p. fst p \<noteq> k) ps) = (map_of ps)(k := None)"
  by (induction ps) auto

section \<open>The database\<close>

type_synonym 'v ref_data = "string \<rightharpoonup> int64 \<times> (string \<times> 'v) list"

definition ref_buckets :: "'v ref_data \<Rightarrow> 'v bolt_data" where
  "ref_buckets x b = map_option (\<lambda>(q, ps). (q, map_of ps)) (x b)"

definition ref_room :: "'v ref_data \<Rightarrow> bool" where
  "ref_room x \<longleftrightarrow> (\<forall>b q ps. x b = Some (q, ps) \<longrightarrow> 0 \<le> sint q \<and> sint q < 2 ^ 63 - 1)"

definition ref_bolt :: "('v ref_data, 'v ref_data, 'v) bolt_db" where
  "ref_bolt =
     \<lparr>boltUpdate = (\<lambda>f x. if ref_room x then (case f x of (x', None) \<Rightarrow> (x', Some x, None) | (x', Some e) \<Rightarrow> (x, Some x, Some e))
        else (x, None, Some (LibError ''database full''))),
      boltView = (\<lambda>f x. (x, Some x, f x)),
      boltHasBucket = (\<lambda>b x. x b \<noteq> None),
      boltCreateBucket = (\<lambda>b x. (if x b = None then x(b \<mapsto> (0, [])) else x, Inr ())),
      boltNextSequence = (\<lambda>b x. case x b of None \<Rightarrow> (x, Inl (LibError ''bucket not found''))
         | Some (q, ps) \<Rightarrow> (x(b \<mapsto> (q + 1, ps)), Inr (q + 1))),
      boltGet = (\<lambda>b k x. case x b of None \<Rightarrow> None | Some (q, ps) \<Rightarrow> map_of ps k),
      boltPut = (\<lambda>b k v x. case x b of None \<Rightarrow> (x, Inl (LibError ''bucket not found''))
         | Some (q, ps) \<Rightarrow> (x(b \<mapsto> (q, (k, v) # ps)), Inr ())),
      boltDelete = (\<lambda>b k x. case x b of None \<Rightarrow> (x, Inl (LibError ''bucket not found''))
         | Some (q, ps) \<Rightarrow> (x(b \<mapsto> (q, filter (\<lambda>p. fst p \<noteq> k) ps)), Inr ())),
      boltPairs = (\<lambda>b x. case x b of None \<Rightarrow> [] | Some (q, ps) \<Rightarrow> ordered_pairs ps)\<rparr>"

type_synonym ref_value = "user + task + audit_record"

definition ref_codec :: "ref_value json_codec" where
  "ref_codec =
     \<lparr>marshalUser = (\<lambda>u. Inr (Inl (kept_user u))),
      unmarshalUser = (\<lambda>v. case v of Inl u \<Rightarrow> Inr (u\<lparr>uPassword := []\<rparr>) | Inr _ \<Rightarrow> Inl (LibError ''not a user'')),
      marshalTask = (\<lambda>t. Inr (Inr (Inl (kept_task t)))),
      unmarshalTask = (\<lambda>v. case v of Inr (Inl t) \<Rightarrow> Inr t | _ \<Rightarrow> Inl (LibError ''not a task'')),
      marshalAudit = (\<lambda>r. Inr (Inr (Inr r)))\<rparr>"

lemma ref_bolt_sel [simp]:
  "boltUpdate ref_bolt f x = (if ref_room x then (case f x of (x', None) \<Rightarrow> (x', Some x, None) | (x', Some e) \<Rightarrow> (x, Some x, Some e))
     else (x, None, Some (LibError ''database full'')))"
  "boltView ref_bolt g x = (x, Some x, g x)"
  "boltHasBucket ref_bolt b x = (x b \<noteq> None)"
  "boltCreateBucket ref_bolt b x = (if x b = None then x(b \<mapsto> (0, [])) else x, Inr ())"
  "boltNextSequence ref_bolt b x = (case x b of None \<Rightarrow> (x, Inl (LibError ''bucket not found''))
     | Some (q, ps) \<Rightarrow> (x(b \<mapsto> (q + 1, ps)), Inr (q + 1)))"
  "boltGet ref_bolt b k x = (case x b of None \<Rightarrow> None | Some (q, ps) \<Rightarrow> map_of ps k)"
  "boltPut ref_bolt b k v x = (case x b of None \<Rightarrow> (x, Inl (LibError ''bucket not found''))
     | Some (q, ps) \<Rightarrow> (x(b \<mapsto> (q, (k, v) # ps)), Inr ()))"
  "boltDelete ref_bolt b k x = (case x b of None \<Rightarrow> (x, Inl (LibError ''bucket not found''))
     | Some (q, ps) \<Rightarrow> (x(b \<mapsto> (q, filter (\<lambda>p. fst p \<noteq> k) ps)), Inr ()))"
  "boltPairs ref_bolt b x = (case x b of None \<Rightarrow> [] | Some (q, ps) \<Rightarrow> ordered_pairs ps)"
  by (simp_all add: ref_bolt_def)

lemma ref_codec_sel [simp]:
  "marshalUser ref_codec u = Inr (Inl (kept_user u))"
  "unmarshalUser ref_codec v = (case v of Inl u \<Rightarrow> Inr (u\<lparr>uPassword := []\<rparr>) | Inr _ \<Rightarrow> Inl (LibError ''not a user''))"
  "marshalTask ref_codec t = Inr (Inr (Inl (kept_task t)))"
  "unmarshalTask ref_codec v = (case v of Inr (Inl t) \<Rightarrow> Inr t | _ \<Rightarrow> Inl (LibError ''not a task''))"
  "marshalAudit ref_codec r = Inr (Inr (Inr r))"
  by (simp_all add: ref_codec_def)

lemma ref_buckets_Some: "ref_buckets x b = Some (q, m) \<longleftrightarrow> (\<exists>ps. x b = Some (q, ps) \<and> m = map_of ps)"
  by (auto simp: ref_buckets_def)

lemma ref_buckets_None: "ref_buckets x b = None \<longleftrightarrow> x b = None"
  by (simp add: ref_buckets_def)

lemma ref_buckets_put: "ref_buckets (x(b \<mapsto> (q, ps))) = (ref_buckets x)(b \<mapsto> (q, map_of ps))"
  by (auto simp: ref_buckets_def)

lemma ref_room_left: "ref_room x \<Longrightarrow> sequences_left (ref_buckets x)"
  by (auto simp: ref_room_def sequences_left_def ref_buckets_Some)

interpretation ref_store: bolt_store ref_bolt ref_buckets "\<lambda>_. True" ref_buckets ref_codec
proof (unfold_locales, goal_cases)
  case (1 f d d' x r x' e)
  obtain y q where "f d = (y, q)" by fastforce
  with 1 show ?case by (cases q) (auto simp: ref_room_left split: if_splits)
next
  case (2 f d d' r)
  then show ?case by (auto split: if_splits option.splits prod.splits)
next
  case (6 x b x' u)
  then show ?case by (auto simp: ref_buckets_None ref_buckets_put split: if_splits)
next
  case (8 x b q m x' n)
  then show ?case by (auto simp: ref_buckets_Some ref_buckets_put)
next
  case (9 x b q m k)
  then show ?case by (auto simp: ref_buckets_Some)
next
  case (10 x b q m k v x' u)
  then show ?case by (auto simp: ref_buckets_Some ref_buckets_put)
next
  case (12 x b q m k x' u)
  then show ?case by (auto simp: ref_buckets_Some ref_buckets_put map_of_remove)
next
  case (14 x b q m)
  then show ?case by (auto simp: ref_buckets_Some ordered_pairs_ok)
qed (auto simp: ref_buckets_None kept_user_def split: option.splits sum.splits)

section \<open>A small store\<close>

definition bolt_demo_clock :: "nat \<Rightarrow> gotime" where
  "bolt_demo_clock n = int n * nanos_per_second"

definition bolt_demo_task :: "string \<Rightarrow> int64 \<Rightarrow> task" where
  "bolt_demo_task title uid = zero_task\<lparr>tUserID := uid, tTitle := title, tStatus := ''todo''\<rparr>"

definition demo_bolt :: "ref_value ref_data" where
  "demo_bolt = Map.empty(bucketUsers \<mapsto> (0, []), bucketTasks \<mapsto> (0, []), bucketAuditLog \<mapsto> (0, []))"

lemma demo_bolt_at [simp]:
  "demo_bolt bucketUsers = Some (0, [])" "demo_bolt bucketTasks = Some (0, [])" "demo_bolt bucketAuditLog = Some (0, [])"
  by (simp_all add: demo_bolt_def bucket_names)

lemma demo_bolt_ok:
  "bolt_users_ok ref_buckets ref_codec (demo_bolt, n)" "bolt_tasks_ok ref_buckets ref_codec (demo_bolt, n)"
  by (simp_all add: bolt_users_ok_def bolt_tasks_ok_def bolt_ok_def ref_buckets_def)

lemma demo_bolt_room [simp]: "ref_room demo_bolt"
  by (auto simp: ref_room_def demo_bolt_def split: if_splits)

lemma opened_from_nothing: "snd (OpenBolt ref_bolt (Inr Map.empty)) = Inr demo_bolt"
  by (simp add: OpenBolt_def ref_room_def demo_bolt_def bucket_names)

end
