(* ===== verification/Seeding.thy ===== *)
theory Seeding
  imports Request_Effects
begin

text \<open>
  The seed command's work on the services, \<^verbatim>\<open>seedData\<close> of \<^verbatim>\<open>cmd/specto/seed.go\<close>:
  fixture users, skipped when they exist, then four fixture tasks.
\<close>

section \<open>The fixtures\<close>

definition fixture_user :: "string \<Rightarrow> string \<Rightarrow> user" where
  "fixture_user email name = \<lparr>uID = 0, uEmail = email, uName = name,
     uPassword = ''$2a$10$N9qo8uLOickgx2ZMRZoMyeIjZAgcfl7p92ldGxad68LJZdL17lhWy'',
     uCreatedAt = zero_time, uUpdatedAt = zero_time\<rparr>"

definition fixtureUsers :: "user list" where
  "fixtureUsers = [fixture_user ''alice@example.com'' ''Alice'', fixture_user ''bob@example.com'' ''Bob'']"

definition fixture_task :: "int64 \<Rightarrow> string \<Rightarrow> string \<Rightarrow> task_status \<Rightarrow> task" where
  "fixture_task uid title descr status = \<lparr>tID = 0, tUserID = uid, tTitle = title, tDescription = descr,
     tStatus = status, tCreatedAt = zero_time, tUpdatedAt = zero_time\<rparr>"

definition fixtureTasks :: "int64 \<Rightarrow> int64 \<Rightarrow> task list" where
  "fixtureTasks alice bob =
    [fixture_task alice ''Buy groceries'' ''Milk, eggs, bread'' TaskStatusTodo,
     fixture_task alice ''Write report'' ''Q4 financial summary'' TaskStatusInProgress,
     fixture_task bob ''Fix landing page'' ''Update hero section copy'' TaskStatusTodo,
     fixture_task bob ''Deploy v2'' ''Tag release and deploy'' TaskStatusDone]"

section \<open>The steps\<close>

fun seed_users :: "('c, 's) user_repository \<Rightarrow> 'c \<Rightarrow> user list \<Rightarrow> 's \<Rightarrow> 's \<times> go_error option" where
  "seed_users UR ctx [] s = (s, None)"
| "seed_users UR ctx (u # us) s =
     (case UserService_Create UR ctx u s of
        (s, Inl err) \<Rightarrow>
          (case as_Conflict err of
             Some _ \<Rightarrow> seed_users UR ctx us s
           | None \<Rightarrow> (s, Some (WrapError (''seed user '' @ uEmail u) err)))
      | (s, Inr _) \<Rightarrow> seed_users UR ctx us s)"

text \<open>\<^verbatim>\<open>%q\<close> of the titles, which are plain ASCII.\<close>

fun seed_tasks :: "('c, 's) task_repository \<Rightarrow> ('c, 's) user_repository \<Rightarrow> 'c \<Rightarrow> task list \<Rightarrow> 's \<Rightarrow> 's \<times> go_error option" where
  "seed_tasks TR UR ctx [] s = (s, None)"
| "seed_tasks TR UR ctx (t # ts) s =
     (case TaskService_Create TR UR ctx t s of
        (s, Inl err) \<Rightarrow> (s, Some (WrapError (''seed task \"'' @ tTitle t @ ''\"'') err))
      | (s, Inr _) \<Rightarrow> seed_tasks TR UR ctx ts s)"

definition seedData :: "('c, 's) user_repository \<Rightarrow> ('c, 's) task_repository \<Rightarrow> 'c \<Rightarrow> 's \<Rightarrow> 's \<times> go_error option" where
  "seedData UR TR ctx s =
     (case seed_users UR ctx fixtureUsers s of
        (s, Some err) \<Rightarrow> (s, Some err)
      | (s, None) \<Rightarrow>
          (case UserService_GetByEmail UR ctx ''alice@example.com'' s of
             (s, Inl err) \<Rightarrow> (s, Some (WrapError ''lookup alice'' err))
           | (s, Inr alice) \<Rightarrow>
               (case UserService_GetByEmail UR ctx ''bob@example.com'' s of
                  (s, Inl err) \<Rightarrow> (s, Some (WrapError ''lookup bob'' err))
                | (s, Inr bob) \<Rightarrow> seed_tasks TR UR ctx (fixtureTasks (uID alice) (uID bob)) s)))"

section \<open>What a seeding adds\<close>

text \<open>Only users and tasks are added; every row that was there stays as it was.\<close>

definition grows :: "tables \<Rightarrow> tables \<Rightarrow> bool" where
  "grows T T' \<longleftrightarrow> tbUsers T \<subseteq>\<^sub>m tbUsers T' \<and> tbTasks T \<subseteq>\<^sub>m tbTasks T'
     \<and> tbAccounts T' = tbAccounts T \<and> tbTransfers T' = tbTransfers T"

lemma grows_refl [simp]: "grows T T"
  by (simp add: grows_def)

lemma grows_trans: "grows T1 T2 \<Longrightarrow> grows T2 T3 \<Longrightarrow> grows T1 T3"
  by (auto simp: grows_def intro: map_le_trans)

lemma grows_inserts:
  "write_outcome (InsertUser e n p) r T T' \<Longrightarrow> grows T T' \<and> tbTasks T' = tbTasks T"
  "write_outcome (InsertTask i t d s) r T T' \<Longrightarrow> grows T T' \<and> tbUsers T' = tbUsers T"
  by (cases r; auto simp: grows_def map_le_def)+

fun added_tasks :: "task list \<Rightarrow> (int64 \<rightharpoonup> task) \<Rightarrow> (int64 \<rightharpoonup> task) \<Rightarrow> bool" where
  "added_tasks [] R R' \<longleftrightarrow> R' = R"
| "added_tasks (t # ts) R R' \<longleftrightarrow>
     (\<exists>new. same_task_input t new \<and> R (tID new) = None \<and> added_tasks ts (R(tID new \<mapsto> new)) R')"

lemma added_tasks_count: "added_tasks ts R R' \<Longrightarrow> finite (dom R) \<Longrightarrow> card (dom R') = card (dom R) + length ts"
proof (induction ts arbitrary: R)
  case (Cons t ts)
  then obtain new where new: "R (tID new) = None" "added_tasks ts (R(tID new \<mapsto> new)) R'" by auto
  from Cons.IH [OF new(2)] Cons.prems(2) new(1) show ?case by (simp add: card_insert_if domIff del: fun_upd_apply)
qed simp

lemma fixture_texts_trimmed:
  "list_all (\<lambda>s. TrimSpace s = s)
    [''Buy groceries'', ''Milk, eggs, bread'', ''Write report'', ''Q4 financial summary'',
     ''Fix landing page'', ''Update hero section copy'', ''Deploy v2'', ''Tag release and deploy'',
     ''alice@example.com'', ''Alice'', ''bob@example.com'', ''Bob'']"
  by code_simp

lemma fixture_tasks_clean: "t \<in> set (fixtureTasks a b) \<Longrightarrow> clean_task t = t"
  using fixture_texts_trimmed
  by (auto simp: fixtureTasks_def fixture_task_def clean_task_def TaskStatusTodo_def TaskStatusInProgress_def TaskStatusDone_def)

context sql_engine
begin

lemma seed_users_grows:
  "inv d \<Longrightarrow> seed_users (PgUserRepo D) background us d = (d', r) \<Longrightarrow>
     inv d' \<and> grows (committed d) (committed d') \<and> tbTasks (committed d') = tbTasks (committed d)"
proof (induction us arbitrary: d)
  case (Cons u us)
  obtain d1 q where q: "UserService_Create (PgUserRepo D) background u d = (d1, q)" by fastforce
  have one: "inv d1 \<and> grows (committed d) (committed d1) \<and> tbTasks (committed d1) = tbTasks (committed d)"
    using alone.service_createUser [OF Cons.prems(1) q] grows_inserts(1) unfolding alone_wrote by blast
  show ?case
  proof (cases "seed_users (PgUserRepo D) background us d1 = (d', r)")
    case True
    then show ?thesis using Cons.IH one by (metis grows_trans)
  next
    case False
    then have "d' = d1" using Cons.prems(2) q by (auto split: sum.splits option.splits)
    then show ?thesis using one by simp
  qed
qed simp

lemma seed_tasks_adds:
  "inv d \<Longrightarrow> \<forall>t \<in> set ts. clean_task t = t \<Longrightarrow> seed_tasks (PgTaskRepo D) (PgUserRepo D) background ts d = (d', r) \<Longrightarrow>
     inv d' \<and> grows (committed d) (committed d') \<and> tbUsers (committed d') = tbUsers (committed d)
     \<and> (r = None \<longrightarrow> added_tasks ts (tbTasks (committed d)) (tbTasks (committed d')))"
proof (induction ts arbitrary: d)
  case (Cons t ts)
  obtain d1 q where q: "TaskService_Create (PgTaskRepo D) (PgUserRepo D) background t d = (d1, q)" by fastforce
  have one: "inv d1 \<and> grows (committed d) (committed d1) \<and> tbUsers (committed d1) = tbUsers (committed d)"
    using alone.service_createTask [OF Cons.prems(1) q] grows_inserts(2) unfolding alone_wrote alone_calm by (metis grows_refl)
  show ?case
  proof (cases q)
    case (Inl err)
    then show ?thesis using Cons.prems(3) q one by auto
  next
    case (Inr new)
    have "same_task_input t new" "tbTasks (committed d) (tID new) = None"
      "tbTasks (committed d1) = (tbTasks (committed d))(tID new \<mapsto> new)"
      using task_store.TaskCreate_cases [OF pg_task_store Cons.prems(1) q] Inr Cons.prems(2) by auto
    moreover have "seed_tasks (PgTaskRepo D) (PgUserRepo D) background ts d1 = (d', r)" using Cons.prems(3) q Inr by simp
    ultimately show ?thesis using Cons.IH [of d1] one Cons.prems(2)
      by (auto intro: grows_trans simp del: fun_upd_apply)
  qed
qed simp

lemma service_byEmail:
  assumes "inv d" "UserService_GetByEmail (PgUserRepo D) background email d = (d', r)"
  shows "inv d' \<and> committed d' = committed d
    \<and> (\<forall>u. r = Inr u \<longrightarrow> u \<in> ran (tbUsers (committed d)) \<and> uEmail u = email)"
proof -
  obtain d1 q where q: "PgUserRepo_GetByEmail D background email d = (d1, q)" by fastforce
  show ?thesis using pg_getByEmail [OF assms(1) q] q assms(2)
    by (auto simp: UserService_GetByEmail_def split: sum.splits option.splits intro: ranI)
qed

lemma seed_cases:
  assumes "inv d" "seedData (PgUserRepo D) (PgTaskRepo D) background d = (d', r)"
  shows "inv d' \<and> grows (committed d) (committed d')
    \<and> (r = None \<longrightarrow> (\<exists>alice \<in> ran (tbUsers (committed d')). \<exists>bob \<in> ran (tbUsers (committed d')).
         uEmail alice = ''alice@example.com'' \<and> uEmail bob = ''bob@example.com''
         \<and> added_tasks (fixtureTasks (uID alice) (uID bob)) (tbTasks (committed d)) (tbTasks (committed d'))))"
proof -
  obtain d1 e where u: "seed_users (PgUserRepo D) background fixtureUsers d = (d1, e)" by fastforce
  note users = seed_users_grows [OF assms(1) u]
  obtain d2 a where a: "UserService_GetByEmail (PgUserRepo D) background ''alice@example.com'' d1 = (d2, a)" by fastforce
  obtain d3 b where b: "UserService_GetByEmail (PgUserRepo D) background ''bob@example.com'' d2 = (d3, b)" by fastforce
  have a2: "inv d2 \<and> committed d2 = committed d1
      \<and> (\<forall>u. a = Inr u \<longrightarrow> u \<in> ran (tbUsers (committed d1)) \<and> uEmail u = ''alice@example.com'')"
    using service_byEmail [OF _ a] users by blast
  have b3: "inv d3 \<and> committed d3 = committed d1
      \<and> (\<forall>u. b = Inr u \<longrightarrow> u \<in> ran (tbUsers (committed d1)) \<and> uEmail u = ''bob@example.com'')"
    using service_byEmail [OF _ b] a2 by simp
  show ?thesis
  proof (cases "\<exists>alice bob. e = None \<and> a = Inr alice \<and> b = Inr bob")
    case False
    then have "d' \<in> {d1, d2, d3}" "r \<noteq> None" using assms(2) u a b
      by (cases e; cases a; cases b; auto simp: seedData_def)+
    then show ?thesis using users a2 b3 by auto
  next
    case True
    then obtain alice bob where ok: "e = None" "a = Inr alice" "b = Inr bob" by blast
    then have t: "seed_tasks (PgTaskRepo D) (PgUserRepo D) background (fixtureTasks (uID alice) (uID bob)) d3 = (d', r)"
      using assms(2) u a b by (simp add: seedData_def)
    have "inv d' \<and> grows (committed d3) (committed d') \<and> tbUsers (committed d') = tbUsers (committed d3)
      \<and> (r = None \<longrightarrow> added_tasks (fixtureTasks (uID alice) (uID bob)) (tbTasks (committed d3)) (tbTasks (committed d')))"
      using seed_tasks_adds [OF _ _ t] b3 fixture_tasks_clean by blast
    then show ?thesis using users a2 b3 ok by (auto intro: grows_trans)
  qed
qed

end

text \<open>A seeding only adds users and tasks; nothing that was stored changes.  When it succeeds, both fixture
  users are there and four tasks more than before: the tasks are not looked up, so seeding again adds
  them again.\<close>

theorem seeding_adds_four_tasks:
  assumes "sql_engine D ok committed tx" "ok d" "seedData (PgUserRepo D) (PgTaskRepo D) background d = (d', r)"
  shows "grows (committed d) (committed d')
    \<and> (r = None \<longrightarrow> card (dom (tbTasks (committed d'))) = card (dom (tbTasks (committed d))) + 4
        \<and> (\<exists>alice \<in> ran (tbUsers (committed d')). \<exists>bob \<in> ran (tbUsers (committed d')).
             uEmail alice = ''alice@example.com'' \<and> uEmail bob = ''bob@example.com''
             \<and> added_tasks (fixtureTasks (uID alice) (uID bob)) (tbTasks (committed d)) (tbTasks (committed d'))))"
proof -
  have "finite (dom (tbTasks (committed d)))"
    using sql_engine.committed_schema [OF assms(1,2)] by (simp add: schema_ok_def)
  then have "card (dom (tbTasks (committed d'))) = card (dom (tbTasks (committed d))) + 4"
    if "added_tasks (fixtureTasks a b) (tbTasks (committed d)) (tbTasks (committed d'))" for a b
    using added_tasks_count [OF that] by (simp add: fixtureTasks_def)
  then show ?thesis using sql_engine.seed_cases [OF assms] by blast
qed

lemma seed_demo_run: "snd (seedData (PgUserRepo demo_driver) (PgTaskRepo demo_driver) background pg_empty) = None"
  using fixture_texts_trimmed
  by (simp add: seedData_def fixtureUsers_def fixture_user_def fixtureTasks_def fixture_task_def UserService_Create_def
      validateUser_def UserService_GetByEmail_def TaskService_Create_def validateTask_def isValidStatus_def Contains_char_def
      TaskStatusTodo_def TaskStatusInProgress_def TaskStatusDone_def pg_eval)

lemma seeding_adds_four_tasks_witness:
  "card (dom (tbTasks (pgTables (fst (seedData (PgUserRepo demo_driver) (PgTaskRepo demo_driver) background pg_empty))))) = 4"
  using seeding_adds_four_tasks [OF pg_engine.sql_engine_axioms pg_inv_empty surjective_pairing, of no_fault int]
    seed_demo_run by (simp add: pg_empty_def no_tables_def)

end
