(* ===== verification/Commands.thy ===== *)
theory Commands
  imports Config Migrations Bolt_Reference Seeding Log_Fanout
begin

text \<open>
  The two commands of the program, \<^verbatim>\<open>cmd/specto/server.go\<close> and \<^verbatim>\<open>seed.go\<close>:
  load and validate the configuration, open PostgreSQL, migrate, open Redis and the Bolt file, and then
  serve or seed.  Each \<^verbatim>\<open>defer x.Close()\<close> runs when the command returns, on every path.
\<close>

section \<open>What the outside answers\<close>

text \<open>One run of a command: the environment, and what the libraries answer to the calls that open.\<close>

record ('d, 'b) platform =
  plEnv :: environment
  plSqlOpen :: "string \<Rightarrow> go_error option"
  plPgPing :: "go_error option"
  plRedisPing :: "string \<Rightarrow> string \<Rightarrow> int64 \<Rightarrow> go_error option"
  plBoltOpen :: "string \<Rightarrow> go_error + 'b"
  plMigrations :: "'d migration_driver"

section \<open>The commands\<close>

definition with_events :: "process_event list \<Rightarrow> 'd \<times> process_event list \<times> go_error option \<Rightarrow> 'd \<times> process_event list \<times> go_error option" where
  "with_events es p = (case p of (d, es', r) \<Rightarrow> (d, es @ es', r))"

text \<open>\<^verbatim>\<open>defer\<close>: the rest of the command, then the close.\<close>

definition deferring :: "resource \<Rightarrow> 'd \<times> process_event list \<times> go_error option \<Rightarrow> 'd \<times> process_event list \<times> go_error option" where
  "deferring r p = (case p of (d, es, e) \<Rightarrow> (d, es @ [Closes r], e))"

text \<open>The part that both commands share; \<open>act\<close> is what they do with everything open.\<close>

definition command :: "('d, 'b) platform \<Rightarrow> ('b, 'x, 'v) bolt_db \<Rightarrow> (nat \<Rightarrow> nat \<Rightarrow> nat \<Rightarrow> nat)
    \<Rightarrow> (config \<Rightarrow> 'b \<Rightarrow> 'd \<Rightarrow> 'd \<times> process_event list \<times> go_error option) \<Rightarrow> 'd \<Rightarrow> 'd \<times> process_event list \<times> go_error option" where
  "command P B frac act d =
     (let cfg = Load frac (plEnv P) in
      case Validate cfg of
        Some err \<Rightarrow> (d, [], Some (WrapError ''invalid config'' err))
      | None \<Rightarrow>
          (case OpenPostgres (plSqlOpen P) (plPgPing P) (cfPostgresDSN cfg) of
             (es, Inl err) \<Rightarrow> (d, es, Some (WrapError ''open postgres'' err))
           | (es, Inr _) \<Rightarrow> with_events es (deferring Postgres
               (case Migrate (plMigrations P) migrationsFS d of
                  (d, Some err) \<Rightarrow> (d, [], Some (WrapError ''migrate'' err))
                | (d, None) \<Rightarrow>
                    (case OpenRedis (plRedisPing P) (cfRedisAddr cfg) (cfRedisPass cfg) (cfRedisDB cfg) of
                       (es, Inl err) \<Rightarrow> (d, es, Some (WrapError ''open redis'' err))
                     | (es, Inr _) \<Rightarrow> with_events es (deferring RedisClient
                         (case OpenBolt B (plBoltOpen P (cfBoltPath cfg)) of
                            (es, Inl err) \<Rightarrow> (d, es, Some (WrapError ''open bolt'' err))
                          | (es, Inr b) \<Rightarrow> with_events es (deferring BoltFile (act cfg b d)))))))))"

text \<open>\<open>run\<close> is \<^verbatim>\<open>Server.Run\<close> on the router that the opened stores make.\<close>

definition server_command :: "('d, 'b) platform \<Rightarrow> ('b, 'x, 'v) bolt_db \<Rightarrow> (nat \<Rightarrow> nat \<Rightarrow> nat \<Rightarrow> nat)
    \<Rightarrow> (config \<Rightarrow> 'b \<Rightarrow> 'd \<Rightarrow> 'd \<times> go_error option) \<Rightarrow> 'd \<Rightarrow> 'd \<times> process_event list \<times> go_error option" where
  "server_command P B frac run = command P B frac (\<lambda>cfg b d. case run cfg b d of (d, r) \<Rightarrow> (d, [Serves], r))"

definition seed_command :: "('d, 'b) platform \<Rightarrow> ('b, 'x, 'v) bolt_db \<Rightarrow> (nat \<Rightarrow> nat \<Rightarrow> nat \<Rightarrow> nat)
    \<Rightarrow> 'd sql_driver \<Rightarrow> 'd \<Rightarrow> 'd \<times> process_event list \<times> go_error option" where
  "seed_command P B frac D = command P B frac
     (\<lambda>cfg b d. case seedData (PgUserRepo D) (PgTaskRepo D) background d of (d, r) \<Rightarrow> (d, [], r))"

section \<open>Nothing stays open\<close>

text \<open>The paths of a command.\<close>

lemma command_cases:
  obtains (invalid) err where "Validate (Load frac (plEnv P)) = Some err"
    "command P B frac act d = (d, [], Some (WrapError ''invalid config'' err))"
  | (not_open) d' es err where "Validate (Load frac (plEnv P)) = None" "command P B frac act d = (d', es, Some err)"
      "properly_nested [] es" "Serves \<notin> set es"
      "d' = d \<or> d' = fst (Migrate (plMigrations P) migrationsFS d)"
  | (all_open) d1 b where "Validate (Load frac (plEnv P)) = None"
      "Migrate (plMigrations P) migrationsFS d = (d1, None)"
      "command P B frac act d = (case act (Load frac (plEnv P)) b d1 of (d', es, r) \<Rightarrow>
         (d', [Opens Postgres, Opens RedisClient, Opens BoltFile] @ es @ [Closes BoltFile, Closes RedisClient, Closes Postgres], r))"
proof (cases "Validate (Load frac (plEnv P))")
  case (Some err)
  then show ?thesis by (intro invalid) (simp_all add: command_def)
next
  case valid: None
  let ?c = "Load frac (plEnv P)"
  obtain es1 p where pg: "OpenPostgres (plSqlOpen P) (plPgPing P) (cfPostgresDSN ?c) = (es1, p)" by fastforce
  obtain d1 m where mg: "Migrate (plMigrations P) migrationsFS d = (d1, m)" by fastforce
  obtain es2 q where rd: "OpenRedis (plRedisPing P) (cfRedisAddr ?c) (cfRedisPass ?c) (cfRedisDB ?c) = (es2, q)" by fastforce
  obtain es3 t where bo: "OpenBolt B (plBoltOpen P (cfBoltPath ?c)) = (es3, t)" by fastforce
  note events = OpenPostgres_events [of "plSqlOpen P" "plPgPing P" "cfPostgresDSN ?c", unfolded pg]
    OpenRedis_events [of "plRedisPing P" "cfRedisAddr ?c" "cfRedisPass ?c" "cfRedisDB ?c", unfolded rd]
    OpenBolt_events [of B "plBoltOpen P (cfBoltPath ?c)", unfolded bo]
  show ?thesis
  proof (cases "\<exists>u v b. p = Inr u \<and> m = None \<and> q = Inr v \<and> t = Inr b")
    case True
    then obtain b where "t = Inr b" by blast
    with True show ?thesis using events valid pg mg rd bo
      by (intro all_open [of d1 b]) (auto simp: command_def with_events_def deferring_def opens_only_def split: prod.splits)
  next
    case False
    obtain d' es r where c: "command P B frac act d = (d', es, r)" by (rule prod_cases3)
    have closed: "(\<exists>err. r = Some err) \<and> properly_nested [] es \<and> Serves \<notin> set es \<and> (d' = d \<or> d' = d1)"
      using False events c valid pg mg rd bo
      by (cases p; cases m; cases q; cases t)
        (auto simp: command_def with_events_def deferring_def opens_only_def)
    then obtain err where "r = Some err" by blast
    with closed c mg valid show ?thesis by (intro not_open [of d' es err]) auto
  qed
qed

text \<open>C36: The server command leaves nothing open.  On every path each connection that was opened is closed
  once, the last one first; with an invalid configuration nothing is opened and nothing changes; the
  server serves only with a valid configuration, migrated tables and all three stores open, and a command
  that did not get there reports an error.\<close>

theorem server_closes_what_it_opens:
  assumes "server_command P B frac run d = (d', es, r)"
  shows "properly_nested [] es
     \<and> (Validate (Load frac (plEnv P)) \<noteq> None \<longrightarrow> d' = d \<and> es = [])
     \<and> (Serves \<in> set es \<longrightarrow> Validate (Load frac (plEnv P)) = None
          \<and> (\<exists>d1 b. Migrate (plMigrations P) migrationsFS d = (d1, None) \<and> run (Load frac (plEnv P)) b d1 = (d', r)))
     \<and> (Serves \<notin> set es \<longrightarrow> r \<noteq> None)"
  using assms
  by (cases rule: command_cases [of frac P B "\<lambda>cfg b d. case run cfg b d of (d, r) \<Rightarrow> (d, [Serves], r)" d])
    (auto simp: server_command_def split: prod.splits)

lemma seed_closes_what_it_opens:
  assumes "seed_command P B frac D d = (d', es, r)"
  shows "properly_nested [] es
     \<and> (Validate (Load frac (plEnv P)) \<noteq> None \<longrightarrow> d' = d \<and> es = [])
     \<and> (r = None \<longrightarrow> (\<exists>d1. Migrate (plMigrations P) migrationsFS d = (d1, None)
          \<and> seedData (PgUserRepo D) (PgTaskRepo D) background d1 = (d', None)))"
  using assms
  by (cases rule: command_cases [of frac P B
        "\<lambda>cfg b d. case seedData (PgUserRepo D) (PgTaskRepo D) background d of (d, r) \<Rightarrow> (d, [], r)" d])
    (auto simp: seed_command_def split: prod.splits)

text \<open>A start with the default configuration, and a server that ends at once.\<close>

definition demo_platform :: "(migration_server, ref_value ref_data) platform" where
  "demo_platform = \<lparr>plEnv = (\<lambda>_. []), plSqlOpen = (\<lambda>_. None), plPgPing = None, plRedisPing = (\<lambda>_ _ _. None),
     plBoltOpen = (\<lambda>_. Inr Map.empty), plMigrations = ref_migrations (\<lambda>_. False)\<rparr>"

definition demo_serve :: "config \<Rightarrow> ref_value ref_data \<Rightarrow> migration_server \<Rightarrow> migration_server \<times> go_error option" where
  "demo_serve cfg b d = (d, if b = demo_bolt then None else Some RedisNil)"

lemma demo_server_run:
  "snd (server_command demo_platform ref_bolt (\<lambda>_ _ _. 0) demo_serve blank_server) =
     ([Opens Postgres, Opens RedisClient, Opens BoltFile, Serves, Closes BoltFile, Closes RedisClient, Closes Postgres], None)"
proof -
  have "snd (Migrate (ref_migrations (\<lambda>_. False)) migrationsFS blank_server) = None"
    by (simp add: Migrate_def migrationsFS_def migrations_order ref_migrations_def ms_call_def blank_server_def
        Let_def init_up_def banking_up_def refers_to_def)
  moreover have "OpenBolt ref_bolt (Inr (Map.empty :: ref_value ref_data)) = ([Opens BoltFile], Inr demo_bolt)"
  proof -
    obtain es q where o: "OpenBolt ref_bolt (Inr (Map.empty :: ref_value ref_data)) = (es, q)" by fastforce
    then show ?thesis
      using opened_from_nothing OpenBolt_events [of ref_bolt "Inr (Map.empty :: ref_value ref_data)"]
      unfolding o by (simp add: opens_only_def)
  qed
  ultimately show ?thesis
    by (cases "Migrate (ref_migrations (\<lambda>_. False)) migrationsFS blank_server")
      (simp add: server_command_def command_def load_default_validates demo_platform_def OpenPostgres_def OpenRedis_def
        with_events_def deferring_def demo_serve_def)
qed

lemma server_closes_what_it_opens_witness:
  "\<exists>d1 b. Migrate (ref_migrations (\<lambda>_. False)) migrationsFS blank_server = (d1, None)
     \<and> snd (demo_serve (Load (\<lambda>_ _ _. 0) (\<lambda>_. [])) b d1) = None"
proof -
  obtain d' es r where run: "server_command demo_platform ref_bolt (\<lambda>_ _ _. 0) demo_serve blank_server = (d', es, r)"
    by (rule prod_cases3)
  then have "Serves \<in> set es" "r = None" using demo_server_run by auto
  then show ?thesis using server_closes_what_it_opens [OF run]
    by (simp add: demo_platform_def) (metis snd_conv)
qed

section \<open>The process\<close>

text \<open>\<^verbatim>\<open>main\<close> logs through a fan-out to the JSON handler and the OpenTelemetry bridge, and calls
  \<^verbatim>\<open>Execute\<close>, which prints the error of the command that the cobra library ran and ends the process with
  status 1.  \<open>rootCmd_Execute\<close> is the library's answer; the pair is what goes to the error output and the status.\<close>

definition main_handlers :: "'h \<Rightarrow> 'h \<Rightarrow> 'h list" where
  "main_handlers jsonHandler otelHandler = NewFanoutHandler [jsonHandler, otelHandler]"

definition Execute :: "(nat \<Rightarrow> bool) \<Rightarrow> go_error option \<Rightarrow> string list \<times> nat" where
  "Execute isprint rootCmd_Execute =
     (case rootCmd_Execute of
        None \<Rightarrow> ([], 0)
      | Some err \<Rightarrow> ([error_text isprint err], 1))"

lemma exit_zero_served:
  assumes "server_command P B frac run d = (d', es, r)" "snd (Execute isprint r) = 0"
  shows "Serves \<in> set es"
proof -
  have "r = None" using assms(2) by (simp add: Execute_def split: option.splits)
  then show ?thesis using assms(1)
    by (cases rule: command_cases [of frac P B "\<lambda>cfg b d. case run cfg b d of (d, r) \<Rightarrow> (d, [Serves], r)" d])
      (auto simp: server_command_def split: prod.splits)
qed

end
