(* ===== verification/Bolt_Stores.thy ===== *)
theory Bolt_Stores
  imports Bolt_Reference
begin

text \<open>
  The properties of the Bolt store: what opening makes of a database, the refinement of the task
  repository to a map, the login over the user repository, and the audit log.
\<close>

section \<open>Opening\<close>

context bolt_engine
begin

lemma create_buckets_cases:
  assumes "writable x" "create_buckets B bs x = (x', r)"
  shows "case r of
      Some err \<Rightarrow> \<exists>m. err = LibError m
    | None \<Rightarrow> \<forall>b. buckets x' b = (if b \<in> set bs \<and> buckets x b = None then Some (0, Map.empty) else buckets x b)"
  using assms
proof (induction bs arbitrary: x)
  case (Cons b bs)
  obtain x1 q where c: "boltCreateBucket B b x = (x1, q)" by fastforce
  show ?case
  proof (cases q)
    case (Inl err)
    then show ?thesis using Cons.prems c create_bucket_error [OF Cons.prems(1)] by fastforce
  next
    case (Inr u)
    note one = create_bucket_ok [OF Cons.prems(1) c [unfolded Inr]]
    have "create_buckets B bs x1 = (x', r)" using Cons.prems(2) c Inr by simp
    from Cons.IH [OF conjunct1 [OF one] this] show ?thesis
      using one by (auto split: option.splits if_splits)
  qed
qed simp

lemma open_cases:
  assumes "snd (OpenBolt B (Inr d)) = Inr d'"
  shows "stored d' b =
    (if b \<in> {bucketUsers, bucketTasks, bucketAuditLog} \<and> stored d b = None then Some (0, Map.empty) else stored d b)"
proof -
  let ?bs = "[bucketUsers, bucketTasks, bucketAuditLog]"
  obtain d1 ran r where u: "boltUpdate B (create_buckets B ?bs) d = (d1, ran, r)" by (rule prod_cases3)
  have r: "r = None" "d1 = d'" using assms u by (auto simp: OpenBolt_def split: option.splits)
  obtain x where x: "ran = Some x" using update_not_run [of "create_buckets B ?bs" d d1 r] u r by (cases ran) auto
  obtain x' e where c: "create_buckets B ?bs x = (x', e)" by fastforce
  have "writable x" "buckets x = stored d" "e = None" "stored d1 = buckets x'"
    using update_ran [OF u [unfolded x] c] r by (auto split: option.splits)
  with create_buckets_cases [OF this(1) c] r(2) show ?thesis by simp
qed

end

text \<open>A BoltDB that \<^verbatim>\<open>OpenBolt\<close> returns has the three buckets that the program uses,
  so that no method finds a nil bucket, and every bucket that was there is unchanged.\<close>

theorem open_creates_buckets:
  assumes "bolt_engine B buckets writable stored" "snd (OpenBolt B (Inr d)) = Inr d'"
  shows "stored d' b =
    (if b \<in> {bucketUsers, bucketTasks, bucketAuditLog} \<and> stored d b = None then Some (0, Map.empty) else stored d b)"
  by (rule bolt_engine.open_cases [OF assms])

lemma open_creates_buckets_witness: "ref_buckets demo_bolt bucketAuditLog = Some (0, Map.empty)"
  by (subst open_creates_buckets [OF ref_store.bolt_engine_axioms opened_from_nothing]) (simp add: ref_buckets_def)

section \<open>Tasks are a map\<close>

datatype task_request = PutNew task | Fetch int64 | ListOf int64 | Replace task | Remove int64

datatype task_reply = OneTask "go_error + task" | SomeTasks "go_error + task list" | Answered "go_error + unit"

fun repo_call :: "('c, 's) task_repository \<Rightarrow> 'c \<Rightarrow> task_request \<Rightarrow> 's \<Rightarrow> 's \<times> task_reply" where
  "repo_call TR ctx (PutNew t) s = apsnd OneTask (taskCreate TR ctx t s)"
| "repo_call TR ctx (Fetch i) s = apsnd OneTask (taskGetByID TR ctx i s)"
| "repo_call TR ctx (ListOf uid) s = apsnd SomeTasks (taskListByUser TR ctx uid s)"
| "repo_call TR ctx (Replace t) s = apsnd OneTask (taskUpdate TR ctx t s)"
| "repo_call TR ctx (Remove i) s = apsnd Answered (taskDelete TR ctx i s)"

fun repo_calls :: "('c, 's) task_repository \<Rightarrow> 'c \<Rightarrow> task_request list \<Rightarrow> 's \<Rightarrow> 's \<times> task_reply list" where
  "repo_calls TR ctx [] s = (s, [])"
| "repo_calls TR ctx (c # cs) s =
     (let (s, a) = repo_call TR ctx c s; (s, as) = repo_calls TR ctx cs s in (s, a # as))"

text \<open>The specification: one request on a map from ids to tasks.  A fault may hide that a write happened.\<close>

fun map_spec :: "task_request \<Rightarrow> (int64 \<rightharpoonup> task) \<Rightarrow> (int64 \<rightharpoonup> task) \<Rightarrow> task_reply \<Rightarrow> bool" where
  "map_spec (PutNew t) R R' (OneTask (Inr t')) \<longleftrightarrow>
     (\<exists>i now. t' = stamp_task i now t \<and> 0 < sint i \<and> R i = None \<and> R' = R(i \<mapsto> kept_task t'))"
| "map_spec (PutNew t) R R' (OneTask (Inl e)) \<longleftrightarrow>
     untyped e \<and> (R' = R \<or> (\<exists>i now. R i = None \<and> R' = R(i \<mapsto> kept_task (stamp_task i now t))))"
| "map_spec (Fetch i) R R' (OneTask (Inr t)) \<longleftrightarrow> R' = R \<and> R i = Some t"
| "map_spec (Fetch i) R R' (OneTask (Inl e)) \<longleftrightarrow> R' = R \<and> (is_fault e \<or> (e = task_not_found i \<and> R i = None))"
| "map_spec (ListOf uid) R R' (SomeTasks (Inr ts)) \<longleftrightarrow>
     R' = R \<and> set ts = {t \<in> ran R. tUserID t = uid} \<and> sorted_wrt (\<lambda>a b. unat (tID a) < unat (tID b)) ts"
| "map_spec (ListOf uid) R R' (SomeTasks (Inl e)) \<longleftrightarrow> R' = R \<and> is_fault e"
| "map_spec (Replace t) R R' (OneTask (Inr t')) \<longleftrightarrow>
     R (tID t) \<noteq> None \<and> (\<exists>now. t' = t\<lparr>tUpdatedAt := now\<rparr>) \<and> R' = R(tID t \<mapsto> kept_task t')"
| "map_spec (Replace t) R R' (OneTask (Inl e)) \<longleftrightarrow>
     (is_fault e \<or> (e = task_not_found (tID t) \<and> R (tID t) = None))
     \<and> (R' = R \<or> (R (tID t) \<noteq> None \<and> (\<exists>now. R' = R(tID t \<mapsto> kept_task (t\<lparr>tUpdatedAt := now\<rparr>)))))"
| "map_spec (Remove i) R R' (Answered (Inr u)) \<longleftrightarrow> R' = R(i := None)"
| "map_spec (Remove i) R R' (Answered (Inl e)) \<longleftrightarrow> is_fault e \<and> (R' = R \<or> R' = R(i := None))"
| "map_spec c R R' reply \<longleftrightarrow> False"

inductive map_run :: "task_request list \<Rightarrow> (int64 \<rightharpoonup> task) \<Rightarrow> (int64 \<rightharpoonup> task) \<Rightarrow> task_reply list \<Rightarrow> bool" where
  map_run_Nil: "map_run [] R R []"
| map_run_Cons: "map_spec c R R1 a \<Longrightarrow> map_run cs R1 R2 as \<Longrightarrow> map_run (c # cs) R R2 (a # as)"

inductive_simps map_run_simps: "map_run [] R R' as" "map_run (c # cs) R R' as"

text \<open>What a client of the map relies on: it finds what it has put there, and nothing that it has removed.\<close>

lemma map_put_then_fetch:
  assumes "map_run [PutNew t, Fetch (tID t')] R R' [OneTask (Inr t'), OneTask (Inr u)]"
  shows "u = kept_task t'" "same_task_input t t'"
  using assms by (auto simp: map_run_simps same_task_input_def stamp_task_def)

lemma map_remove_then_fetch:
  assumes "map_run [Remove i, Fetch i] R R' [Answered (Inr ()), OneTask r]"
  shows "\<exists>e. r = Inl e"
  using assms by (cases r) (auto simp: map_run_simps)

lemma apsnd_eq_iff: "apsnd f p = (s, a) \<longleftrightarrow> (\<exists>q. p = (s, q) \<and> a = f q)"
  by (cases p) auto

context bolt_store
begin

lemma task_create:
  assumes "bolt_tasks_ok stored J s" "BoltTaskRepo_Create B J clock ctx t s = (s', r)"
  shows "bolt_tasks_ok stored J s' \<and> map_spec (PutNew t) (bolt_tasks stored J s) (bolt_tasks stored J s') (OneTask r)"
proof -
  obtain d t1 n1 e where q: "db_Update B (bolt_insert B bucketTasks (marshalTask J) tID stamp_task clock) (fst s) (t, snd s)
      = (d, (t1, n1), e)" by (metis prod.exhaust)
  note c = tasks.insert_cases [OF assms(1) [unfolded bolt_tasks_ok_def] stamp_task_ID q]
  show ?thesis
  proof (cases e)
    case None
    then have "t1 = stamp_task (tID t1) (clock (snd s)) t" using c by (simp add: stamp_task_def)
    with None c assms(2) q show ?thesis
      by (clarsimp simp: BoltTaskRepo_Create_def returned_def bolt_tasks_ok_def bolt_tasks_def) metis
  next
    case (Some err)
    with c assms(2) q show ?thesis
      by (clarsimp simp: BoltTaskRepo_Create_def returned_def bolt_tasks_ok_def bolt_tasks_def)
  qed
qed

lemma task_get:
  assumes "bolt_tasks_ok stored J s" "BoltTaskRepo_GetByID B J ctx i s = (s', r)"
  shows "bolt_tasks_ok stored J s' \<and> map_spec (Fetch i) (bolt_tasks stored J s) (bolt_tasks stored J s') (OneTask r)"
proof -
  obtain d t e where q: "db_View B (bolt_read B bucketTasks (unmarshalTask J) (task_not_found i) i) (fst s) zero_task
      = (d, t, e)" by (rule prod_cases3)
  show ?thesis
    using tasks.read_cases [OF assms(1) [unfolded bolt_tasks_ok_def] q] assms q
    by (cases e) (auto simp: BoltTaskRepo_GetByID_def read_result_def bolt_tasks_ok_def bolt_tasks_def is_fault_def)
qed

lemma task_list:
  assumes "bolt_tasks_ok stored J s" "BoltTaskRepo_ListByUser B J ctx uid s = (s', r)"
  shows "bolt_tasks_ok stored J s' \<and> map_spec (ListOf uid) (bolt_tasks stored J s) (bolt_tasks stored J s') (SomeTasks r)"
proof -
  let ?f = "\<lambda>t tasks. if tUserID t = uid then tasks @ [t] else tasks"
  obtain d ts e where q: "db_View B (bolt_each B bucketTasks (unmarshalTask J) ?f) (fst s) [] = (d, ts, e)"
    by (rule prod_cases3)
  note c = tasks.each_cases [OF assms(1) [unfolded bolt_tasks_ok_def] q]
  show ?thesis
  proof (cases e)
    case None
    then obtain es where "visits tID (bolt_tasks stored J s) es" "ts = filter (\<lambda>t. tUserID t = uid) es"
      using c by (auto simp: fold_collect bolt_tasks_def)
    moreover have "stored d = stored (fst s)" using c by simp
    ultimately show ?thesis using None assms q
      by (auto simp: BoltTaskRepo_ListByUser_def read_result_def bolt_tasks_ok_def bolt_tasks_def visits_def
          sorted_wrt_filter)
  next
    case (Some err)
    with c assms q show ?thesis
      by (auto simp: BoltTaskRepo_ListByUser_def read_result_def bolt_tasks_ok_def bolt_tasks_def is_fault_def)
  qed
qed

lemma task_update:
  assumes "bolt_tasks_ok stored J s" "BoltTaskRepo_Update B J clock ctx t s = (s', r)"
  shows "bolt_tasks_ok stored J s' \<and> map_spec (Replace t) (bolt_tasks stored J s) (bolt_tasks stored J s') (OneTask r)"
proof -
  let ?touch = "\<lambda>now t. t\<lparr>tUpdatedAt := now\<rparr>"
  obtain d t1 n1 e where q: "db_Update B (bolt_replace B bucketTasks (marshalTask J) tID ?touch
      (task_not_found (tID t)) clock) (fst s) (t, snd s) = (d, (t1, n1), e)" by (metis prod.exhaust)
  show ?thesis
    using tasks.replace_cases [OF assms(1) [unfolded bolt_tasks_ok_def] _ q] assms(2) q
    by (cases e) (auto simp: BoltTaskRepo_Update_def returned_def bolt_tasks_ok_def bolt_tasks_def is_fault_def)
qed

lemma task_delete:
  assumes "bolt_tasks_ok stored J s" "BoltTaskRepo_Delete B ctx i s = (s', r)"
  shows "bolt_tasks_ok stored J s' \<and> map_spec (Remove i) (bolt_tasks stored J s) (bolt_tasks stored J s') (Answered r)"
proof -
  obtain d u e where q: "db_Update B (bolt_remove B bucketTasks i) (fst s) () = (d, u, e)" by (rule prod_cases3)
  show ?thesis
    using tasks.remove_cases [OF assms(1) [unfolded bolt_tasks_ok_def] q] assms(2) q
    by (cases e) (auto simp: BoltTaskRepo_Delete_def read_result_def bolt_tasks_ok_def bolt_tasks_def is_fault_def)
qed

lemma task_step:
  assumes "bolt_tasks_ok stored J s" "repo_call (BoltTaskRepo B J clock) ctx c s = (s', a)"
  shows "bolt_tasks_ok stored J s' \<and> map_spec c (bolt_tasks stored J s) (bolt_tasks stored J s') a"
  using assms
  by (cases c) (auto simp: apsnd_eq_iff dest: task_create task_get task_list task_update task_delete)

lemma task_steps:
  "bolt_tasks_ok stored J s \<Longrightarrow> repo_calls (BoltTaskRepo B J clock) ctx cs s = (s', as) \<Longrightarrow>
     bolt_tasks_ok stored J s' \<and> map_run cs (bolt_tasks stored J s) (bolt_tasks stored J s') as"
proof (induction cs arbitrary: s as)
  case Nil
  then show ?case by (simp add: map_run_Nil)
next
  case (Cons c cs)
  obtain s1 a where a: "repo_call (BoltTaskRepo B J clock) ctx c s = (s1, a)" by fastforce
  obtain as' where "repo_calls (BoltTaskRepo B J clock) ctx cs s1 = (s', as')" "as = a # as'"
    using Cons.prems(2) a by (auto split: prod.splits)
  then show ?case using task_step [OF Cons.prems(1) a] Cons.IH by (blast intro: map_run_Cons)
qed

end

text \<open>C32: The Bolt task repository refines a map from ids to tasks: every sequence of calls on it, with
  whatever faults, changes the stored tasks and answers as the same sequence of map operations does.
  Created tasks get fresh positive ids and lists are exact and in the order of the ids.\<close>

theorem bolt_tasks_refine_map:
  assumes "bolt_store B buckets writable stored J" "bolt_tasks_ok stored J s"
    and "repo_calls (BoltTaskRepo B J clock) ctx cs s = (s', replies)"
  shows "bolt_tasks_ok stored J s' \<and> map_run cs (bolt_tasks stored J s) (bolt_tasks stored J s') replies"
  by (rule bolt_store.task_steps [OF assms])

lemma bolt_tasks_refine_map_witness:
  "\<exists>s' replies. map_run [PutNew (bolt_demo_task ''read'' 7), ListOf 7] Map.empty
     (bolt_tasks ref_buckets ref_codec s') replies"
proof -
  have empty: "bolt_tasks ref_buckets ref_codec (demo_bolt, 0) = Map.empty"
    by (simp add: bolt_tasks_def bolt_rows_def ref_buckets_def fun_eq_iff)
  obtain s' replies where "repo_calls (BoltTaskRepo ref_bolt ref_codec bolt_demo_clock) ()
      [PutNew (bolt_demo_task ''read'' 7), ListOf 7] (demo_bolt, 0) = (s', replies)" by fastforce
  from bolt_tasks_refine_map [OF ref_store.bolt_store_axioms demo_bolt_ok(2) this] empty
  show ?thesis by (intro exI [of _ s'] exI [of _ replies]) simp
qed

section \<open>Logging in\<close>

context bolt_store
begin

lemma stored_user_password: "bolt_users stored J s i = Some u \<Longrightarrow> uPassword u = []"
  by (auto simp: bolt_users_def bolt_rows_def user_no_password split: option.splits sum.splits)

lemma bolt_user_store: "user_store (BoltUserRepo B J clock) ctx (bolt_users_ok stored J) (bolt_users stored J) kept_user"
  by unfold_locales

end

text \<open>C33: Over the Bolt user repository nobody can log in.  The encoding of a user leaves out the password
  hash, so the hash that is read back is empty, and bcrypt accepts no password for the empty hash.\<close>

theorem bolt_login_refused:
  assumes "bolt_store B buckets writable stored J" "bolt_users_ok stored J s"
    and "\<And>password. CompareHashAndPassword bc [] password \<noteq> None"
  shows "snd (UserService_Authenticate bc (BoltUserRepo B J clock) ctx email password s)
    = Inl (UnauthorizedError invalidCredentialsMessage)"
proof -
  obtain s' r where run: "UserService_Authenticate bc (BoltUserRepo B J clock) ctx email password s = (s', r)" by fastforce
  note c = user_store.Authenticate_cases [OF bolt_store.bolt_user_store [OF assms(1)] assms(2) run]
  show ?thesis
  proof (cases r)
    case (Inl e)
    then show ?thesis using c run by simp
  next
    case (Inr u)
    then have "uPassword u = []" using bolt_store.stored_user_password [OF assms(1), of s "uID u" u] c by simp
    then show ?thesis using c Inr assms(3) [of password] by simp
  qed
qed

definition plain_bcrypt :: bcrypt where
  "plain_bcrypt = \<lparr>GenerateFromPassword = (\<lambda>salt pw. Inr (CHR ''#'' # pw)),
     CompareHashAndPassword = (\<lambda>hash pw. if hash = CHR ''#'' # pw then None else Some (LibError ''mismatch''))\<rparr>"

lemma bolt_login_refused_witness:
  "snd (UserService_Authenticate plain_bcrypt (BoltUserRepo ref_bolt ref_codec bolt_demo_clock) () ''a@x.io'' ''secret''
     (fst (BoltUserRepo_Create ref_bolt ref_codec bolt_demo_clock () (zero_user\<lparr>uEmail := ''a@x.io'', uPassword := ''#secret''\<rparr>)
        (demo_bolt, 0)))) = Inl (UnauthorizedError invalidCredentialsMessage)"
proof (rule bolt_login_refused [OF ref_store.bolt_store_axioms])
  show "bolt_users_ok ref_buckets ref_codec (fst (BoltUserRepo_Create ref_bolt ref_codec bolt_demo_clock ()
      (zero_user\<lparr>uEmail := ''a@x.io'', uPassword := ''#secret''\<rparr>) (demo_bolt, 0)))"
    by (rule conjunct1 [OF ref_store.user_create [OF demo_bolt_ok(1) surjective_pairing]])
qed (simp add: plain_bcrypt_def)

section \<open>The audit log\<close>

definition audit_entries :: "'v bolt_data \<Rightarrow> int64 \<rightharpoonup> 'v" where
  "audit_entries M i = (case M bucketAuditLog of None \<Rightarrow> None | Some (q, m) \<Rightarrow> m (itob i))"

definition audit_ok :: "'v bolt_data \<Rightarrow> bool" where
  "audit_ok M \<longleftrightarrow> M bucketAuditLog \<noteq> None
     \<and> (\<forall>i \<in> dom (audit_entries M). unat i \<le> unat (bolt_sequence bucketAuditLog M))"

lemma audit_put:
  assumes "audit_ok M" "M bucketAuditLog = Some (q, m)" "unat q' = unat q + 1"
  shows "audit_ok (M(bucketAuditLog \<mapsto> (q', m(itob q' \<mapsto> v))))"
    and "audit_entries (M(bucketAuditLog \<mapsto> (q', m(itob q' \<mapsto> v)))) = (audit_entries M)(q' \<mapsto> v)"
    and "\<forall>j \<in> dom (audit_entries M). unat j < unat q'"
  using assms by (force simp: audit_ok_def audit_entries_def bolt_sequence_def fun_eq_iff dom_def)+

context bolt_store
begin

lemma append_closure:
  assumes "writable x" "buckets x bucketAuditLog = Some (q, m)" "append_record B J rec x m0 = (x', u, r)"
  shows "case r of
      Some err \<Rightarrow> untyped err
    | None \<Rightarrow> \<exists>payload. marshalAudit J rec = Inr payload
        \<and> buckets x' = (buckets x)(bucketAuditLog \<mapsto> (q + 1, m(itob (q + 1) \<mapsto> payload)))"
proof -
  obtain x1 s where n: "boltNextSequence B bucketAuditLog x = (x1, s)" by fastforce
  have ns: "s = Inr (q + 1)" "writable x1" "buckets x1 = (buckets x)(bucketAuditLog \<mapsto> (q + 1, m))"
    using next_sequence [OF assms(1,2) n] by auto
  have b1: "buckets x1 bucketAuditLog = Some (q + 1, m)" by (simp add: ns)
  have hb: "boltHasBucket B bucketAuditLog x" using assms(2) by (simp add: has_bucket)
  show ?thesis
    using assms(3) n ns hb audit_marshal_error put_ok [OF ns(2) b1] put_error [OF ns(2)]
    by (fastforce simp: append_record_def split: sum.splits prod.splits)
qed

lemma append_cases:
  assumes "audit_ok (stored d)" "BoltAuditLogger_Append B J rec d = (d', r)"
  shows "audit_ok (stored d') \<and> (\<forall>c. c \<noteq> bucketAuditLog \<longrightarrow> stored d' c = stored d c) \<and>
    (let E = audit_entries (stored d); E' = audit_entries (stored d');
         added = (\<lambda>i payload. marshalAudit J rec = Inr payload \<and> (\<forall>j \<in> dom E. unat j < unat i) \<and> E' = E(i \<mapsto> payload)) in
     case r of
       Inr _ \<Rightarrow> \<exists>i payload. added i payload
     | Inl err \<Rightarrow> untyped err \<and> (E' = E \<or> (\<exists>i payload. added i payload)))"
proof -
  obtain q m where M: "stored d bucketAuditLog = Some (q, m)"
    using assms(1) by (auto simp: audit_ok_def)
  obtain d1 u e where up: "db_Update B (append_record B J rec) d () = (d1, u, e)" by (rule prod_cases3)
  have res: "d' = d1" "r = (case e of None \<Rightarrow> Inr () | Some err \<Rightarrow> Inl err)"
    using assms(2) up by (auto simp: BoltAuditLogger_Append_def split: option.splits)
  have closure: "case e1 of Some err \<Rightarrow> untyped err | None \<Rightarrow> \<exists>payload. marshalAudit J rec = Inr payload
      \<and> buckets x1 = (stored d)(bucketAuditLog \<mapsto> (q + 1, m(itob (q + 1) \<mapsto> payload)))"
    if "writable x" "buckets x = stored d" "append_record B J rec x () = (x1, u1, e1)" for x x1 u1 e1
    using append_closure [OF that(1) _ that(3), of q m] that(2) M by (cases e1) auto
  show ?thesis
    using up
  proof (cases rule: update_cases)
    case (not_run msg)
    then show ?thesis using assms(1) res by simp
  next
    case (rolled_back x x' err)
    then show ?thesis using assms(1) closure [OF rolled_back(1-3)] res by simp
  next
    case (committed x x')
    obtain payload where "marshalAudit J rec = Inr payload"
        "buckets x' = (stored d)(bucketAuditLog \<mapsto> (q + 1, m(itob (q + 1) \<mapsto> payload)))"
      using closure [OF committed(1-3)] by auto
    then show ?thesis using audit_put [OF assms(1) M sequence_next(2) [OF committed(6) M]] committed res
      by (auto simp: Let_def intro: exI [of _ "q + 1"])
  next
    case (commit_failed x x' msg)
    obtain payload where "marshalAudit J rec = Inr payload"
        "buckets x' = (stored d)(bucketAuditLog \<mapsto> (q + 1, m(itob (q + 1) \<mapsto> payload)))"
      using closure [OF commit_failed(1-3)] by auto
    then show ?thesis using audit_put [OF assms(1) M sequence_next(2) [OF commit_failed(6) M]]
        commit_failed(4,5) res assms(1)
      by (auto simp: Let_def intro: exI [of _ "q + 1"])
  qed
qed

end

definition demo_record :: audit_record where
  "demo_record = \<lparr>arTimestamp = 0, arMethod = ''GET'', arPath = ''/health'', arRemote = ''127.0.0.1'', arStatus = 200\<rparr>"

lemma demo_bolt_audit: "audit_ok (ref_buckets demo_bolt)" "audit_entries (ref_buckets demo_bolt) = Map.empty"
  by (auto simp: audit_ok_def audit_entries_def ref_buckets_def)

lemma demo_append: "snd (BoltAuditLogger_Append ref_bolt ref_codec demo_record demo_bolt) = Inr ()"
  by (simp add: BoltAuditLogger_Append_def db_Update_def append_record_def)

end
