(* ===== verification/Serving.thy ===== *)
theory Serving
  imports Access_Control Rate_Limit
begin

text \<open>
  The middleware stack around the mux: what it does for every handler it is put around, and what a
  sequence of requests does to the stores.
\<close>

section \<open>The handlers act on the response only\<close>

text \<open>The headers that handlers and \<^verbatim>\<open>http.Error\<close> set or remove.\<close>

definition plain_headers :: "string \<Rightarrow> string option \<Rightarrow> bool" where
  "plain_headers k v \<longleftrightarrow> k \<in> {''Content-Type'', ''Content-Length'', ''Allow''}
     \<or> (k = ''X-Content-Type-Options'' \<and> v = Some ''nosniff'')"

definition plainly :: "('d, 'r, 'a, 'f) world \<Rightarrow> ('d, 'r, 'a, 'f) world \<Rightarrow> bool" where
  "plainly w v \<longleftrightarrow> world_responds plain_headers w v \<and> wAudit v = wAudit w"

lemma plain_trans: "plainly u v \<Longrightarrow> plainly v w \<Longrightarrow> plainly u w"
  unfolding plainly_def using world_responds_trans by metis

lemma plainly_same: "wConn v = wConn w \<Longrightarrow> wWriters v = wWriters w \<Longrightarrow> wAudit v = wAudit w \<Longrightarrow> plainly w v"
  by (simp add: plainly_def world_responds_same)

named_theorems plain_intro

lemma plain_refl [simp, plain_intro]: "plainly w w"
  by (simp add: plainly_same)

lemma plain_log [plain_intro]: "plainly w v \<Longrightarrow> plainly w (log_event l v)"
  by (erule plain_trans) (simp add: plainly_same)

lemma plain_cookie [plain_intro]: "plainly w v \<Longrightarrow> plainly w (set_cookie ck v)"
  by (erule plain_trans) (simp add: plainly_def world_responds_cookie)

lemma plain_write [plain_intro]:
  "plainly w v \<Longrightarrow> plainly w (write_header code v)" "plainly w v \<Longrightarrow> plainly w (write_body b v)"
  by (erule plain_trans, simp add: plainly_def world_responds_write)+

lemma plain_header [plain_intro]:
  "plainly w v \<Longrightarrow> plainly w (set_header ''Content-Type'' s v)"
  "plainly w v \<Longrightarrow> plainly w (set_header ''Allow'' s v)"
  "plainly w v \<Longrightarrow> plainly w (set_header ''X-Content-Type-Options'' ''nosniff'' v)"
  "plainly w v \<Longrightarrow> plainly w (del_header ''Content-Length'' v)"
  by (erule plain_trans, simp add: plainly_def world_responds_header world_responds_del plain_headers_def)+

lemma plain_world [plain_intro]:
  "plainly w v \<Longrightarrow> plainly w (v\<lparr>wDb := d\<rparr>)" "plainly w v \<Longrightarrow> plainly w (v\<lparr>wRedis := s\<rparr>)"
  "plainly w v \<Longrightarrow> plainly w (v\<lparr>wTick := t\<rparr>)" "plainly w v \<Longrightarrow> plainly w (v\<lparr>wDraw := n\<rparr>)"
  by (erule plain_trans, simp add: plainly_same)+

lemma plain_respondJSON [plain_intro]: "plainly w v \<Longrightarrow> plainly w (respondJSON A code p v)"
  by (auto simp: respondJSON_def Let_def intro!: plain_intro)

lemma plain_respondError [plain_intro]: "plainly w v \<Longrightarrow> plainly w (respondError A code msg v)"
  by (simp add: respondError_def plain_respondJSON)

lemma plain_http_Error [plain_intro]: "plainly w v \<Longrightarrow> plainly w (http_Error msg code v)"
  by (simp add: http_Error_def plain_intro)

lemma plain_serviceError [plain_intro]: "plainly w v \<Longrightarrow> plainly w (handleServiceError A err v)"
  by (auto simp: handleServiceError_def intro!: plain_intro split: option.split)

lemma plain_on_db: "on_db f v = (v', x) \<Longrightarrow> plainly w v \<Longrightarrow> plainly w v'"
  by (auto simp: on_db_eq intro: plain_intro)

lemma plain_issue: "auth_issue A uid v = (v', e) \<Longrightarrow> plainly w v \<Longrightarrow> plainly w v'"
  by (auto simp: auth_issue_def time_Now_def on_redis_eq Let_def intro!: plain_intro split: sum.splits)

lemma plain_authenticate: "auth_authenticate A r v = (v', x) \<Longrightarrow> plainly w v \<Longrightarrow> plainly w v'"
  by (auto simp: auth_authenticate_def time_Now_def on_redis_eq on_db_eq Let_def
      intro!: plain_intro split: sum.splits option.splits)

lemma plain_taskForUser: "taskForUser A i uid v = (v', x) \<Longrightarrow> plainly w v \<Longrightarrow> plainly w v'"
  by (auto simp: taskForUser_def on_db_eq intro!: plain_intro split: sum.splits if_splits)

lemmas plain_dest = plain_on_db plain_issue plain_authenticate plain_taskForUser

lemma plain_tasks:
  "plainly w (handleTaskList A r w)" "plainly w (handleTaskGet A r w)" "plainly w (handleTaskStats A r w)"
  "plainly w (handleTaskCreate A r w)"
  by (auto simp: handleTaskList_def handleTaskGet_def handleTaskStats_def handleTaskCreate_def Let_def
      intro!: plain_intro split: option.split prod.split sum.split dest!: plain_dest)

lemma plain_task_writes:
  "plainly w (handleTaskUpdate A r w)" "plainly w (handleTaskDelete A r w)"
  by (auto simp: handleTaskUpdate_def handleTaskDelete_def Let_def
      intro!: plain_intro split: option.split prod.split sum.split dest!: plain_dest elim: plain_trans)

lemma plain_banking:
  "plainly w (handleAccountList A r w)" "plainly w (handleAccountCreate A r w)" "plainly w (handleTransferCreate A r w)"
  by (auto simp: handleAccountList_def handleAccountCreate_def handleTransferCreate_def
      intro!: plain_intro split: option.split prod.split sum.split dest!: plain_dest)

lemma plain_revoke [plain_intro]: "plainly w v \<Longrightarrow> plainly w (auth_revoke A r v)"
  by (simp add: auth_revoke_def time_Now_def plain_intro)

lemma plain_clear [plain_intro]: "plainly w v \<Longrightarrow> plainly w (auth_clear A v)"
  by (simp add: auth_clear_def plain_intro)

lemma plain_auth:
  "plainly w (handleHealth A r w)" "plainly w (handleAuthMe A r w)" "plainly w (handleAuthLogout A r w)"
  by (auto simp: handleHealth_def handleAuthMe_def handleAuthLogout_def intro!: plain_intro split: option.split)

lemma plain_register: "plainly w (handleAuthRegister A r w)"
  by (auto simp: handleAuthRegister_def Let_def
      intro!: plain_intro split: option.split prod.split sum.split dest!: plain_dest)

lemma plain_login: "plainly w (handleAuthLogin A r w)"
  by (auto simp: handleAuthLogin_def intro!: plain_intro split: option.split prod.split sum.split dest!: plain_dest)

lemma plain_requireAuth:
  assumes "\<And>r w. plainly w (handler A r w)"
  shows "plainly w (requireAuth handler A r w)"
proof -
  obtain w1 x where run: "auth_authenticate A r w = (w1, x)" by fastforce
  have w1: "plainly w w1" using plain_authenticate [OF run] by simp
  then show ?thesis using run plain_trans [OF w1 assms]
    by (auto simp: requireAuth_def intro!: plain_intro split: sum.split)
qed

lemma plain_endpoint: "plainly w (endpoint_serve ep A r w)"
  by (cases ep) (simp_all add: plain_requireAuth plain_tasks plain_task_writes plain_banking plain_auth
      plain_register plain_login)

lemma plain_mux: "plainly w (mux_serve A r w)"
  by (auto simp: mux_serve_def Let_def intro!: plain_intro plain_endpoint split: option.split)

section \<open>The stack\<close>

definition middleware_stack :: "('d, 'r, 'a, 'f) app \<Rightarrow> ('d, 'r, 'a, 'f) handler \<Rightarrow> ('d, 'r, 'a, 'f) handler" where
  "middleware_stack A h = AuditTrail A (RedisRateLimit A (smRedis (appAuth A)) (appRateLimit A)
     (Recovery (SecureHeaders (Logging A h))))"

lemma NewRouter_stack: "NewRouter A = middleware_stack A (mux_handler A)"
  by (cases "smRedis (appAuth A)"; cases "appAudit A")
    (auto simp: NewRouter_def middleware_stack_def Chain_def RedisRateLimit_def AuditTrail_def Let_def fun_eq_iff)

text \<open>A handler as the stack expects it: it acts on the response only through the writer, and leaves
  the audit trail to the middleware.\<close>

definition behaves :: "('d, 'r, 'a, 'f) handler \<Rightarrow> bool" where
  "behaves h \<longleftrightarrow> (\<forall>r w. plainly w (fst (h r w)))"

lemma behaves_plain: "behaves h \<Longrightarrow> h r w = (w', out) \<Longrightarrow> plainly w w'"
  unfolding behaves_def by (metis fst_conv)

lemma mux_behaves: "behaves (mux_handler A)"
  by (simp add: behaves_def mux_handler_def plain_mux)

lemma push_writer_frame [simp]:
  "wDb (push_writer w) = wDb w" "wRedis (push_writer w) = wRedis w" "wAudit (push_writer w) = wAudit w"
  "wLog (push_writer w) = wLog w" "wConn (push_writer w) = wConn w" "wTick (push_writer w) = wTick w"
  "wWriters (push_writer w) = new_responseWriter # wWriters w"
  by (simp_all add: push_writer_def)

lemma pop_writer_frame [simp]:
  "wDb (pop_writer w) = wDb w" "wRedis (pop_writer w) = wRedis w" "wAudit (pop_writer w) = wAudit w"
  "wLog (pop_writer w) = wLog w" "wConn (pop_writer w) = wConn w" "wTick (pop_writer w) = wTick w"
  "wWriters (pop_writer w) = tl (wWriters w)"
  by (simp_all add: pop_writer_def)

text \<open>A wrapper put on a writer that has not sent anything knows the status afterwards.\<close>

lemma pushed_in_step:
  "in_step (wWriters w, wConn w) \<Longrightarrow> cnSent (wConn w) = None \<Longrightarrow> in_step (wWriters (push_writer w), wConn (push_writer w))"
  by (simp add: in_step_def new_responseWriter_def final_status_def)

text \<open>The outer writers see a pushed wrapper's steps as their own.\<close>

lemma responds_tl:
  "responds K p q \<Longrightarrow> fst p \<noteq> [] \<Longrightarrow> responds K (tl (fst p), snd p) (tl (fst q), snd q)"
proof (induction rule: responds.induct)
  case (responds_header k v p rws c)
  then show ?case using responds.responds_header by fastforce
next
  case (responds_cookie p rws c ck)
  then show ?case using responds.responds_cookie by fastforce
next
  case (responds_status p q code)
  then have "responds K (tl (fst p), snd p) (rw_WriteHeader code (tl (fst q), snd q))"
    by (intro responds.responds_status) simp
  then show ?case by (cases q) (simp add: rw_WriteHeader_eq map_tl)
next
  case (responds_body p q b)
  then have "responds K (tl (fst p), snd p) (rw_Write b (tl (fst q), snd q))"
    by (intro responds.responds_body) simp
  then show ?case by (cases q) (simp add: rw_Write_eq map_tl)
qed (simp add: responds.responds_refl)

lemma plain_pop:
  assumes "plainly (push_writer w) v"
  shows "plainly w (pop_writer v)"
  using responds_tl [of plain_headers "(wWriters (push_writer w), wConn (push_writer w))" "(wWriters v, wConn v)"] assms
  by (simp add: plainly_def world_responds_def)

text \<open>Any step on the response, whatever the header.\<close>

abbreviation acts :: "('d, 'r, 'a, 'f) world \<Rightarrow> ('d, 'r, 'a, 'f) world \<Rightarrow> bool" where
  "acts \<equiv> world_responds (\<lambda>_ _. True)"

lemma responds_mono: "responds K p q \<Longrightarrow> (\<And>k v. K k v \<Longrightarrow> K' k v) \<Longrightarrow> responds K' p q"
  by (induction rule: responds.induct) (auto intro: responds.intros)

lemma plainly_acts: "plainly w w' \<Longrightarrow> acts w w'"
  using responds_mono [of plain_headers "(wWriters w, wConn w)" "(wWriters w', wConn w')" "\<lambda>_ _. True"]
  by (simp add: plainly_def world_responds_def)

lemma acts_header: "acts w (set_header k v w)"
  by (rule world_responds_header) simp

lemma acts_length: "acts w w' \<Longrightarrow> length (wWriters w') = length (wWriters w)"
  unfolding world_responds_def using responds_length by fastforce

lemma acts_in_step: "acts w w' \<Longrightarrow> in_step (wWriters w, wConn w) \<Longrightarrow> in_step (wWriters w', wConn w')"
  unfolding world_responds_def by (rule responds_in_step)

text \<open>Logging and recovery around a handler.\<close>

lemma Logging_cases:
  assumes "behaves h" "in_step (wWriters w, wConn w)" "cnSent (wConn w) = None" "Logging A h r w = (w', out)"
  shows "plainly w w' \<and>
    (\<exists>w0 v. h r w0 = (v, out) \<and> wDb w0 = wDb w \<and> wRedis w0 = wRedis w \<and> wConn w' = wConn v
       \<and> wDb w' = wDb v \<and> wRedis w' = wRedis v
       \<and> wLog w' = wLog v @ (if out = Returned then [HttpRequest (rqMethod r) (rqPath r) (final_status (wConn w'))] else []))"
proof -
  let ?w0 = "push_writer (w\<lparr>wTick := Suc (wTick w)\<rparr>)"
  obtain v o' where run: "h r ?w0 = (v, o')" by fastforce
  note b = behaves_plain [OF assms(1) run]
  have tick: "plainly w (w\<lparr>wTick := Suc (wTick w)\<rparr>)" by (rule plain_world(3)) simp
  have pop: "plainly w (pop_writer v)" using plain_trans [OF tick plain_pop] b by blast
  have "in_step (wWriters ?w0, wConn ?w0)" using assms(2,3) pushed_in_step [of "w\<lparr>wTick := Suc (wTick w)\<rparr>"] by simp
  then have "in_step (wWriters v, wConn v)" using b acts_in_step plainly_acts by blast
  moreover have "wWriters v \<noteq> []" using acts_length [OF plainly_acts] b by fastforce
  ultimately have status: "rwStatus (hd (wWriters v)) = final_status (wConn v)" by (simp add: in_step_def)
  show ?thesis
  proof (cases o')
    case Returned
    let ?v = "(pop_writer v)\<lparr>wLog := wLog v @ [HttpRequest (rqMethod r) (rqPath r) (final_status (wConn v))],
                wTick := Suc (wTick v)\<rparr>"
    have w': "w' = ?v" "out = Returned"
      using assms(4) run Returned status
      by (auto simp: Logging_def time_Now_def log_event_def pop_writer_def)
    have "plainly w ?v" using pop by (rule plain_trans) (simp add: plainly_same)
    then show ?thesis using w' run Returned b by (intro conjI exI [of _ ?w0] exI [of _ v]) simp_all
  next
    case (Panicked p)
    then have w': "w' = pop_writer v" "out = Panicked p"
      using assms(4) run by (simp_all add: Logging_def time_Now_def)
    then show ?thesis using pop run Panicked b by (intro conjI exI [of _ ?w0] exI [of _ v]) simp_all
  qed
qed

definition secure_headers :: "(string \<times> string) list" where
  "secure_headers = [
     (''X-Content-Type-Options'', ''nosniff''), (''X-Frame-Options'', ''DENY''), (''X-XSS-Protection'', ''0''),
     (''Referrer-Policy'', ''strict-origin-when-cross-origin''),
     (''Content-Security-Policy'',
      ''default-src '' @ [CHR 0x27] @ ''self'' @ [CHR 0x27] @ ''; script-src '' @ [CHR 0x27] @ ''self''
      @ [CHR 0x27] @ ''; style-src '' @ [CHR 0x27] @ ''self'' @ [CHR 0x27] @ '' '' @ [CHR 0x27]
      @ ''unsafe-inline'' @ [CHR 0x27])]"

definition with_headers :: "('d, 'r, 'a, 'f) world \<Rightarrow> ('d, 'r, 'a, 'f) world" where
  "with_headers w = fold (\<lambda>(k, v). set_header k v) secure_headers w"

lemma SecureHeaders_eq: "SecureHeaders h r w = h r (with_headers w)"
  by (simp add: SecureHeaders_def with_headers_def secure_headers_def)

lemma with_headers_frame [simp]:
  "wDb (with_headers w) = wDb w" "wRedis (with_headers w) = wRedis w" "wAudit (with_headers w) = wAudit w"
  "wWriters (with_headers w) = wWriters w" "wLog (with_headers w) = wLog w"
  "cnSent (wConn (with_headers w)) = cnSent (wConn w)"
  by (simp_all add: with_headers_def secure_headers_def set_header_def)

lemma with_headers_acts: "acts w (with_headers w)"
  by (simp add: with_headers_def secure_headers_def)
    (rule world_responds_trans [OF _ acts_header]; (rule acts_header | rule world_responds_trans [OF _ acts_header])+)

lemma with_headers_carries:
  assumes "cnSent (wConn w) = None" "(k, v) \<in> set secure_headers"
  shows "carries k v (wConn (with_headers w))"
proof -
  have "final_headers (wConn (with_headers w)) = cnHeader (wConn (with_headers w))"
    using assms(1) by (simp add: final_headers_def)
  then show ?thesis
    using assms(2) by (auto simp: carries_def with_headers_def secure_headers_def set_header_def)
qed

definition inner_stack :: "('d, 'r, 'a, 'f) app \<Rightarrow> ('d, 'r, 'a, 'f) handler \<Rightarrow> ('d, 'r, 'a, 'f) handler" where
  "inner_stack A h = Recovery (SecureHeaders (Logging A h))"

lemma inner_stack_cases:
  assumes "behaves h" "in_step (wWriters w, wConn w)" "cnSent (wConn w) = None" "inner_stack A h r w = (w', out)"
  shows "out = Returned \<and> plainly (with_headers w) w' \<and>
    (\<exists>w0 v o'. h r w0 = (v, o') \<and> wDb w0 = wDb w \<and> wRedis w0 = wRedis w \<and> wDb w' = wDb v \<and> wRedis w' = wRedis v \<and>
       (case o' of
          Returned \<Rightarrow> wConn w' = wConn v
            \<and> wLog w' = wLog v @ [HttpRequest (rqMethod r) (rqPath r) (final_status (wConn w'))]
        | Panicked p \<Rightarrow> wLog w' = wLog v @ [PanicRecovered (rqMethod r) (rqPath r)]
            \<and> (cnSent (wConn v) = None \<longrightarrow> final_status (wConn w') = 500)))"
proof -
  obtain v o' where run: "Logging A h r (with_headers w) = (v, o')" by fastforce
  have "in_step (wWriters (with_headers w), wConn (with_headers w))"
    using acts_in_step [OF with_headers_acts assms(2)] .
  note log = Logging_cases [OF assms(1) this _ run]
  show ?thesis
  proof (cases o')
    case Returned
    then have "w' = v" "out = Returned"
      using assms(4) run by (simp_all add: inner_stack_def Recovery_def SecureHeaders_eq)
    then show ?thesis using log Returned assms(3) by fastforce
  next
    case (Panicked p)
    let ?v = "log_event (PanicRecovered (rqMethod r) (rqPath r)) v"
    have w': "w' = http_Error (StatusText 500) 500 ?v" "out = Returned"
      using assms(4) run Panicked by (simp_all add: inner_stack_def Recovery_def SecureHeaders_eq)
    have "plainly (with_headers w) w'" using log assms(3) w' by (simp add: plain_intro)
    moreover have "cnSent (wConn v) = None \<Longrightarrow> final_status (wConn w') = 500"
      using w' http_Error_status [of ?v] by simp
    ultimately show ?thesis using log assms(3) Panicked w' by fastforce
  qed
qed

text \<open>The five headers stay on the answer.\<close>

lemma inner_stack_headers:
  assumes "behaves h" "in_step (wWriters w, wConn w)" "cnSent (wConn w) = None" "inner_stack A h r w = (w', out)"
    and "(k, v) \<in> set secure_headers"
  shows "final_headers (wConn w') k = Some v"
proof -
  have "carries k v (snd (wWriters w', wConn w'))"
  proof (rule responds_carries)
    show "responds plain_headers (wWriters (with_headers w), wConn (with_headers w)) (wWriters w', wConn w')"
      using inner_stack_cases [OF assms(1-4)] by (simp add: plainly_def world_responds_def)
    show "carries k v (snd (wWriters (with_headers w), wConn (with_headers w)))"
      using with_headers_carries [OF assms(3,5)] by simp
    show "v' = Some v" if "plain_headers k v'" for v'
      using that assms(5) by (auto simp: plain_headers_def secure_headers_def)
  qed
  then show ?thesis by (simp add: carries_def)
qed

definition panicking :: "('d, 'r, 'a, 'f) handler" where
  "panicking r w = (w, Panicked ''nil pointer dereference'')"

lemma panicking_behaves: "behaves panicking"
  by (simp add: behaves_def panicking_def)

lemma demo_start: "in_step (wWriters demo_world, wConn demo_world)" "cnSent (wConn demo_world) = None"
  by (simp_all add: in_step_def fresh_conn_def)

text \<open>The rate limiter in front, and the command it may have sent.\<close>

definition counted :: "'r redis_client option \<Rightarrow> 'r \<Rightarrow> 'r \<Rightarrow> bool" where
  "counted client s s' \<longleftrightarrow> s' = s
     \<or> (\<exists>R k t1 t2. client = Some R \<and> s' = fst (incrementRateCounter R k t1 t2 s))"

definition limited :: "('d, 'r, 'a, 'f) app \<Rightarrow> 'r redis_client option \<Rightarrow> int64 \<Rightarrow> request \<Rightarrow> ('d, 'r, 'a, 'f) world \<Rightarrow> bool" where
  "limited A client limit r w \<longleftrightarrow> 0 < sint limit \<and> (\<exists>R s n ws. client = Some R
     \<and> incrementRateCounter R (rateLimitKey (rqRemoteAddr r) (appClock A (wTick w)))
         (appClock A (Suc (wTick w))) (appClock A (Suc (Suc (wTick w)))) (wRedis w) = (s, Inr n, ws)
     \<and> isRateLimited n limit)"

lemma RedisRateLimit_cases:
  assumes "RedisRateLimit A client limit inner r w = (w', out)" "in_step (wWriters w, wConn w)" "cnSent (wConn w) = None"
  obtains (passed) w1 where "inner r w1 = (w', out)" "wDb w1 = wDb w" "wAudit w1 = wAudit w"
      "wConn w1 = wConn w" "wWriters w1 = wWriters w" "counted client (wRedis w) (wRedis w1)" "\<not> limited A client limit r w"
    | (refused) "out = Returned" "wDb w' = wDb w" "wAudit w' = wAudit w" "final_status (wConn w') = 429"
      "in_step (wWriters w', wConn w')" "length (wWriters w') = length (wWriters w)"
      "counted client (wRedis w) (wRedis w')" "limited A client limit r w"
proof (cases "client = None \<or> sint limit \<le> 0")
  case True
  then have "inner r w = (w', out)" using assms(1) by (auto simp: RedisRateLimit_def split: option.splits)
  then show ?thesis using passed [of w] True by (auto simp: counted_def limited_def)
next
  case False
  then obtain R where R: "client = Some R" "\<not> sint limit \<le> 0" by (cases client) auto
  let ?t = "wTick w"
  obtain s count ws where inc: "incrementRateCounter R (rateLimitKey (rqRemoteAddr r) (appClock A ?t))
      (appClock A (Suc ?t)) (appClock A (Suc (Suc ?t))) (wRedis w) = (s, count, ws)"
    by (cases "incrementRateCounter R (rateLimitKey (rqRemoteAddr r) (appClock A ?t))
      (appClock A (Suc ?t)) (appClock A (Suc (Suc ?t))) (wRedis w)") auto
  let ?w1 = "w\<lparr>wTick := Suc (Suc (Suc ?t)), wRedis := s, wLog := wLog w @ ws\<rparr>"
  have counted: "counted client (wRedis w) s" unfolding counted_def using R(1) inc by (metis fst_conv)
  show ?thesis
  proof (cases "\<exists>n. count = Inr n \<and> isRateLimited n limit")
    case True
    then obtain n where n: "count = Inr n" "isRateLimited n limit" by blast
    have limited: "limited A client limit r w" using R inc n by (auto simp: limited_def)
    let ?w2 = "?w1\<lparr>wTick := Suc (Suc (Suc (Suc ?t)))\<rparr>"
    have w': "w' = writeRateLimitResponse (appClock A (Suc (Suc (Suc ?t)))) ?w2" "out = Returned"
      using assms(1) R inc n by (auto simp: RedisRateLimit_def time_Now_def Let_def)
    let ?v = "set_header ''Retry-After'' (FormatInt (word_of_int (retry_after (appClock A (Suc (Suc (Suc ?t))))))) ?w2"
    have eq: "w' = http_Error (StatusText 429) 429 ?v" using w'(1) by (simp add: writeRateLimitResponse_def)
    have "acts w ?w2" by (rule world_responds_same) simp_all
    moreover have "acts ?v w'" unfolding eq by (rule plainly_acts) (simp add: plain_intro)
    ultimately have "acts w w'" using world_responds_trans acts_header by blast
    moreover have "final_status (wConn w') = 429"
      unfolding eq by (rule http_Error_status) (use assms(3) in \<open>simp add: set_header_def\<close>)
    moreover have "wDb w' = wDb w" "wAudit w' = wAudit w" "wRedis w' = s" unfolding eq by simp_all
    ultimately show ?thesis using refused w'(2) acts_in_step [OF _ assms(2)] acts_length counted limited by blast
  next
    case False
    then have "inner r ?w1 = (w', out)"
      using assms(1) R inc by (cases count) (auto simp: RedisRateLimit_def time_Now_def Let_def)
    moreover have "\<not> limited A client limit r w" using False R(1) inc by (auto simp: limited_def)
    ultimately show ?thesis using passed [of ?w1] counted by simp
  qed
qed

text \<open>The audit trail around everything: the response is the one of the handler inside, which starts from the same stores and
  may have one writer more.\<close>

lemma AuditTrail_cases:
  assumes "AuditTrail A inner r w = (w', out)"
  obtains w1 v ws where "inner r w1 = (v, out)" "w1 = w \<or> w1 = push_writer w"
    "wConn w' = wConn v" "wDb w' = wDb v" "wRedis w' = wRedis v" "wLog w' = wLog v @ ws" "set ws \<subseteq> {LogWarn ''audit append failed''}"
proof (cases "appAudit A")
  case None
  then show ?thesis using that [of w w' "[]"] assms by (simp add: AuditTrail_def)
next
  case (Some store)
  obtain v o' where run: "inner r (push_writer w) = (v, o')" by fastforce
  show ?thesis
  proof (cases o')
    case (Panicked p)
    then show ?thesis using that [of "push_writer w" v "[]"] assms Some run by (auto simp: AuditTrail_def)
  next
    case Returned
    let ?rec = "\<lparr>arTimestamp = appClock A (wTick v), arMethod = rqMethod r, arPath = rqPath r,
       arRemote = clientIP (rqRemoteAddr r), arStatus = of_nat (rwStatus (hd (wWriters v)))\<rparr>"
    obtain a e where st: "store ?rec (wAudit v) = (a, e)" by fastforce
    have "out = Returned \<and> wConn w' = wConn v \<and> wDb w' = wDb v \<and> wRedis w' = wRedis v
      \<and> wLog w' = wLog v @ (case e of Inl _ \<Rightarrow> [LogWarn ''audit append failed''] | Inr _ \<Rightarrow> [])"
      using assms Some run Returned st
      by (cases e) (auto simp: AuditTrail_def time_Now_def Let_def pop_writer_def log_event_def)
    then show ?thesis using that [of "push_writer w" v] run Returned by (auto split: sum.splits)
  qed
qed

lemma AuditTrail_cong:
  "inner r w = inner' r w \<Longrightarrow> inner r (push_writer w) = inner' r (push_writer w) \<Longrightarrow> AuditTrail A inner r w = AuditTrail A inner' r w"
  by (cases "appAudit A") (simp_all only: AuditTrail_def option.case)

lemma limited_push [simp]: "limited A client limit r (push_writer w) = limited A client limit r w"
  by (simp add: limited_def)

section \<open>What the stack does for every handler\<close>

text \<open>C21: No panic of a handler leaves the stack that the server puts around it.  If the rate limiter refuses the request, the
  answer is 429 and no handler has run.  Otherwise the handler runs once, on the database as it is; if it returns, its
  answer is the client's and one line is logged with the status; if it panics, the panic is logged instead, and
  the client receives 500 unless an answer was already sent.  The five security headers are on the answer either way, but
  not on a 429 of the limiter, which sits outside of the middleware that sets them.\<close>

theorem handler_outcome:
  assumes "behaves h" "in_step (wWriters w, wConn w)" "cnSent (wConn w) = None"
    and "middleware_stack A h r w = (w', out)"
  shows "out = Returned \<and>
    (if limited A (smRedis (appAuth A)) (appRateLimit A) r w
     then final_status (wConn w') = 429 \<and> wDb w' = wDb w
     else (\<forall>(k, v) \<in> set secure_headers. final_headers (wConn w') k = Some v) \<and>
       (\<exists>w0 v o' ws. h r w0 = (v, o') \<and> wDb w0 = wDb w \<and> wDb w' = wDb v \<and> wRedis w' = wRedis v
          \<and> set ws \<subseteq> {LogWarn ''audit append failed''} \<and>
          (case o' of
             Returned \<Rightarrow> wConn w' = wConn v
               \<and> wLog w' = wLog v @ HttpRequest (rqMethod r) (rqPath r) (final_status (wConn w')) # ws
           | Panicked p \<Rightarrow> wLog w' = wLog v @ PanicRecovered (rqMethod r) (rqPath r) # ws
               \<and> (cnSent (wConn v) = None \<longrightarrow> final_status (wConn w') = 500))))"
proof -
  let ?inner = "RedisRateLimit A (smRedis (appAuth A)) (appRateLimit A) (inner_stack A h)"
  have "AuditTrail A ?inner r w = (w', out)" using assms(4) by (simp add: middleware_stack_def inner_stack_def)
  then obtain w1 u ws where run: "?inner r w1 = (u, out)" and w1: "w1 = w \<or> w1 = push_writer w"
    and u: "wConn w' = wConn u" "wDb w' = wDb u" "wRedis w' = wRedis u" "wLog w' = wLog u @ ws" "set ws \<subseteq> {LogWarn ''audit append failed''}"
    by (rule AuditTrail_cases)
  have unsent: "cnSent (wConn w1) = None" and start: "in_step (wWriters w1, wConn w1)" and db: "wDb w1 = wDb w"
    and lim: "limited A (smRedis (appAuth A)) (appRateLimit A) r w1 = limited A (smRedis (appAuth A)) (appRateLimit A) r w"
    using w1 assms(2,3) pushed_in_step [OF assms(2,3)] by auto
  from run start unsent show ?thesis
  proof (cases rule: RedisRateLimit_cases)
    case (passed w2)
    have w2: "in_step (wWriters w2, wConn w2)" "cnSent (wConn w2) = None" using passed start unsent by simp_all
    note headers = inner_stack_headers [OF assms(1) w2 passed(1)]
    from inner_stack_cases [OF assms(1) w2 passed(1)] obtain w0 v o' where out: "out = Returned"
      and h: "h r w0 = (v, o')" "wDb w0 = wDb w2" "wDb u = wDb v" "wRedis u = wRedis v"
      and cases: "case o' of
          Returned \<Rightarrow> wConn u = wConn v \<and> wLog u = wLog v @ [HttpRequest (rqMethod r) (rqPath r) (final_status (wConn u))]
        | Panicked p \<Rightarrow> wLog u = wLog v @ [PanicRecovered (rqMethod r) (rqPath r)]
            \<and> (cnSent (wConn v) = None \<longrightarrow> final_status (wConn u) = 500)" by blast
    have "case o' of
             Returned \<Rightarrow> wConn w' = wConn v
               \<and> wLog w' = wLog v @ HttpRequest (rqMethod r) (rqPath r) (final_status (wConn w')) # ws
           | Panicked p \<Rightarrow> wLog w' = wLog v @ PanicRecovered (rqMethod r) (rqPath r) # ws
               \<and> (cnSent (wConn v) = None \<longrightarrow> final_status (wConn w') = 500)"
      using cases u(1,4) by (cases o') simp_all
    moreover have "wDb w0 = wDb w" using h(2) passed(2) db by simp
    moreover have "\<forall>(k, v) \<in> set secure_headers. final_headers (wConn w') k = Some v" using headers u(1) by auto
    moreover have "\<not> limited A (smRedis (appAuth A)) (appRateLimit A) r w" using passed lim by simp
    ultimately show ?thesis using out h(1,3,4) u(2,3,5) by auto
  next
    case refused
    then show ?thesis using u lim db by simp
  qed
qed

lemma handler_outcome_witness:
  "snd (middleware_stack demo_app panicking (demo_http ''GET'' ''/health'' None (Inl (Malformed ''EOF''))) demo_world) = Returned
   \<and> (let w' = fst (middleware_stack demo_app panicking (demo_http ''GET'' ''/health'' None (Inl (Malformed ''EOF''))) demo_world) in
      final_status (wConn w') = 429 \<or> final_headers (wConn w') ''X-Frame-Options'' = Some ''DENY'')"
proof -
  have "(''X-Frame-Options'', ''DENY'') \<in> set secure_headers" by (simp add: secure_headers_def)
  then show ?thesis
    using handler_outcome [OF panicking_behaves demo_start surjective_pairing, of demo_app "demo_http ''GET'' ''/health'' None (Inl (Malformed ''EOF''))"]
    by (auto simp: Let_def split: if_splits)
qed

lemma one_record_per_request:
  assumes "behaves h" "appAudit A = Some store" "in_step (wWriters w, wConn w)" "cnSent (wConn w) = None"
    and "middleware_stack A h r w = (w', out)"
  shows "out = Returned \<and> (\<exists>t. wAudit w' = fst (store \<lparr>arTimestamp = t, arMethod = rqMethod r, arPath = rqPath r,
     arRemote = clientIP (rqRemoteAddr r), arStatus = of_nat (final_status (wConn w'))\<rparr> (wAudit w)))"
proof -
  let ?inner = "RedisRateLimit A (smRedis (appAuth A)) (appRateLimit A) (inner_stack A h)"
  obtain v o' where run: "?inner r (push_writer w) = (v, o')" by fastforce
  have start: "in_step (wWriters (push_writer w), wConn (push_writer w))" "cnSent (wConn (push_writer w)) = None"
    using pushed_in_step [OF assms(3,4)] assms(4) by simp_all
  from run start have inner: "o' = Returned \<and> wAudit v = wAudit w \<and> in_step (wWriters v, wConn v) \<and> wWriters v \<noteq> []"
  proof (cases rule: RedisRateLimit_cases)
    case (passed w1)
    then have w1: "in_step (wWriters w1, wConn w1)" "cnSent (wConn w1) = None" using start by simp_all
    note cases = inner_stack_cases [OF assms(1) w1 passed(1)]
    have "acts w1 v" using world_responds_trans [OF with_headers_acts plainly_acts] cases by blast
    moreover have "wAudit v = wAudit w1" using cases by (simp add: plainly_def)
    ultimately show ?thesis using cases passed w1 acts_in_step acts_length by fastforce
  next
    case refused
    then show ?thesis by fastforce
  qed
  then have status: "rwStatus (hd (wWriters v)) = final_status (wConn v)" by (simp add: in_step_def)
  let ?rec = "\<lparr>arTimestamp = appClock A (wTick v), arMethod = rqMethod r, arPath = rqPath r,
     arRemote = clientIP (rqRemoteAddr r), arStatus = of_nat (final_status (wConn v))\<rparr>"
  obtain a e where st: "store ?rec (wAudit w) = (a, e)" by fastforce
  have "out = Returned \<and> wAudit w' = a \<and> wConn w' = wConn v"
    using assms(2,5) run inner status st
    by (cases e) (auto simp: middleware_stack_def AuditTrail_def inner_stack_def time_Now_def Let_def pop_writer_def log_event_def)
  then show ?thesis using st by (intro conjI exI [of _ "appClock A (wTick v)"]) simp_all
qed

text \<open>C20: The audit trail is exact.  Whatever the handler does, panics included, and whether or not the
  rate limiter refuses the request, exactly one record is appended per request: its method, path and
  address, and the status that the client receives.\<close>

theorem audit_records_client_status:
  assumes "behaves h" "appAudit A = Some store" "in_step (wWriters w, wConn w)" "cnSent (wConn w) = None"
    and "middleware_stack A h r w = (w', out)"
  shows "out = Returned \<and> (\<exists>t. wAudit w' = fst (store \<lparr>arTimestamp = t, arMethod = rqMethod r, arPath = rqPath r,
     arRemote = clientIP (rqRemoteAddr r), arStatus = of_nat (final_status (wConn w'))\<rparr> (wAudit w)))"
  by (rule one_record_per_request [OF assms])

lemma audit_records_client_status_witness:
  "\<exists>t. wAudit (fst (middleware_stack demo_app panicking (demo_http ''GET'' ''/health'' None (Inl (Malformed ''EOF''))) demo_world))
     = [\<lparr>arTimestamp = t, arMethod = ''GET'', arPath = ''/health'', arRemote = clientIP ''10.0.0.1:80'',
         arStatus = of_nat (final_status (wConn (fst (middleware_stack demo_app panicking
           (demo_http ''GET'' ''/health'' None (Inl (Malformed ''EOF''))) demo_world))))\<rparr>]"
proof -
  have "appAudit demo_app = Some (\<lambda>rec a. (a @ [rec], Inr ()))" "wAudit demo_world = []"
    by (simp_all add: demo_app_def demo_world_def)
  with audit_records_client_status [OF panicking_behaves this(1) demo_start surjective_pairing,
      of "demo_http ''GET'' ''/health'' None (Inl (Malformed ''EOF''))"] show ?thesis by simp
qed

text \<open>What the limiter answers is the same for every handler inside.\<close>

lemma RedisRateLimit_refused:
  assumes "client = Some R" "0 < sint limit" "cnSent (wConn w) = None"
    and "incrementRateCounter R (rateLimitKey (rqRemoteAddr r) (appClock A (wTick w)))
       (appClock A (Suc (wTick w))) (appClock A (Suc (Suc (wTick w)))) (wRedis w) = (s, Inr n, ws)"
    and "isRateLimited n limit"
  obtains v where "\<And>inner. RedisRateLimit A client limit inner r w = (v, Returned)"
    "final_status (wConn v) = 429"
    "final_headers (wConn v) ''Retry-After'' = Some (FormatInt (word_of_int (retry_after (appClock A (wTick w + 3)))))"
    "wDb v = wDb w" "wRedis v = s"
proof -
  let ?w = "w\<lparr>wRedis := s, wLog := wLog w @ ws, wTick := wTick w + 4\<rparr>"
  let ?v = "set_header ''Retry-After'' (FormatInt (word_of_int (retry_after (appClock A (wTick w + 3))))) ?w"
  have "RedisRateLimit A client limit inner r w = (http_Error (StatusText 429) 429 ?v, Returned)" for inner
    using assms by (simp add: RedisRateLimit_def time_Now_def Let_def writeRateLimitResponse_def numeral_eq_Suc)
  moreover have sent: "cnSent (wConn ?v) = None" using assms(3) by (simp add: set_header_def)
  moreover have "final_headers (wConn (http_Error (StatusText 429) 429 ?v)) ''Retry-After''
      = Some (FormatInt (word_of_int (retry_after (appClock A (wTick w + 3)))))"
    using sent by (simp add: http_Error_def write_eq conn_Write_def Let_def final_headers_def set_header_def del_header_def)
  ultimately show ?thesis using that http_Error_status [OF sent] by simp
qed

text \<open>C24: A request that the rate limiter refuses reaches no handler, with the audit trail or without: the answer is 429 with the
  seconds to wait, the database is untouched, and all of this is the same whatever the handler would have done.\<close>

theorem refused_request_runs_nothing:
  assumes "smRedis (appAuth A) = Some R" "0 < sint (appRateLimit A)" "cnSent (wConn w) = None"
    and "incrementRateCounter R (rateLimitKey (rqRemoteAddr r) (appClock A (wTick w)))
       (appClock A (wTick w + 1)) (appClock A (wTick w + 2)) (wRedis w) = (s, Inr n, ws)"
    and "isRateLimited n (appRateLimit A)"
  shows "middleware_stack A h r w = middleware_stack A h' r w
    \<and> final_status (wConn (fst (middleware_stack A h r w))) = 429
    \<and> final_headers (wConn (fst (middleware_stack A h r w))) ''Retry-After''
        = Some (FormatInt (word_of_int (retry_after (appClock A (wTick w + 3)))))
    \<and> wDb (fst (middleware_stack A h r w)) = wDb w \<and> wRedis (fst (middleware_stack A h r w)) = s"
proof -
  let ?limit = "RedisRateLimit A (smRedis (appAuth A)) (appRateLimit A)"
  let ?inner = "\<lambda>h. ?limit (inner_stack A h)"
  have lim: "\<exists>v. (\<forall>g. ?limit g r u = (v, Returned)) \<and> final_status (wConn v) = 429
      \<and> final_headers (wConn v) ''Retry-After'' = Some (FormatInt (word_of_int (retry_after (appClock A (wTick w + 3)))))
      \<and> wDb v = wDb w \<and> wRedis v = s" if "u = w \<or> u = push_writer w" for u
  proof -
    have same: "wTick u = wTick w" "wRedis u = wRedis w" "wDb u = wDb w" "wConn u = wConn w" using that by auto
    have "incrementRateCounter R (rateLimitKey (rqRemoteAddr r) (appClock A (wTick u)))
       (appClock A (Suc (wTick u))) (appClock A (Suc (Suc (wTick u)))) (wRedis u) = (s, Inr n, ws)" "cnSent (wConn u) = None"
      using assms(3,4) same by simp_all
    from RedisRateLimit_refused [OF assms(1,2) this(2,1) assms(5)] show ?thesis using same by metis
  qed
  have "?inner h r u = ?inner h' r u" if "u = w \<or> u = push_writer w" for u using lim [OF that] by metis
  then have same: "middleware_stack A h r w = middleware_stack A h' r w"
    unfolding middleware_stack_def inner_stack_def [symmetric] by (intro AuditTrail_cong) simp_all
  obtain w' out where run: "middleware_stack A h r w = (w', out)" by fastforce
  then have "AuditTrail A (?inner h) r w = (w', out)" by (simp add: middleware_stack_def inner_stack_def)
  then obtain w1 v vs where "?inner h r w1 = (v, out)" "w1 = w \<or> w1 = push_writer w" "wConn w' = wConn v" "wDb w' = wDb v" "wRedis w' = wRedis v"
    by (rule AuditTrail_cases)
  then show ?thesis using lim [of w1] same run by (metis fst_conv)
qed

lemma refused_request_runs_nothing_witness:
  "final_status (wConn (fst (middleware_stack demo_app panicking
     (demo_http ''GET'' ''/health'' None (Inl (Malformed ''EOF'')))
     (demo_world\<lparr>wRedis := rd_put (rateLimitKey ''10.0.0.1:80'' 0) (Some (''2'', None)) rd_empty\<rparr>)))) = 429
   \<and> appAudit demo_app \<noteq> None"
proof -
  let ?s = "rd_put (rateLimitKey ''10.0.0.1:80'' 0) (Some (''2'', None)) rd_empty"
  have n: "ParseInt ''2'' = (2, None)"
    by (simp add: ParseInt_def strip_sign_def parse_uint_def digit_val_def uint64_cutoff_def)
  have R: "smRedis (appAuth demo_app) = Some (rd_client no_fault)"
    by (simp add: demo_app_def redis_manager_def)
  have inc: "\<exists>s ws. incrementRateCounter (rd_client no_fault) (rateLimitKey ''10.0.0.1:80'' 0) 1 2 ?s = (s, Inr 3, ws)"
    by (simp add: incrementRateCounter_def rd_step_def rd_incr_def rd_live_def rd_put_def rd_empty_def n)
  then obtain s ws where "incrementRateCounter (rd_client no_fault) (rateLimitKey ''10.0.0.1:80'' 0) 1 2 ?s = (s, Inr 3, ws)"
    by blast
  with refused_request_runs_nothing [OF R, where w = "demo_world\<lparr>wRedis := ?s\<rparr>" and n = 3 and s = s and ws = ws
      and r = "demo_http ''GET'' ''/health'' None (Inl (Malformed ''EOF''))" and h = panicking]
  show ?thesis by (simp add: demo_app_def demo_world_def demo_http_def fresh_conn_def isRateLimited_def)
qed

end
