(* ===== verification/Server_Runs.thy ===== *)
theory Server_Runs
  imports Serving
begin

text \<open>
  Runs of the whole program: requests served one after another by the router that
  \<^verbatim>\<open>NewRouter\<close> builds, over one database and one Redis.
\<close>

section \<open>Redis stays well-formed\<close>

context redis_store
begin

lemma incrementRateCounter_inv:
  assumes "inv s"
  shows "inv (fst (incrementRateCounter R k t1 t2 s))"
proof -
  obtain s1 q where q: "redisIncr R k t1 s = (s1, q)" by fastforce
  have inv1: "inv s1" using incr_ok [OF assms] incr_error [OF assms] q by (cases q) blast+
  obtain s2 p where p: "redisExpire R k (120 * nanos_per_second) t2 s1 = (s2, p)" by fastforce
  have pos: "0 < 120 * nanos_per_second" by simp
  have "inv s2" using expire_ok [OF inv1 pos] expire_error [OF inv1 pos] p by (cases p) blast+
  then show ?thesis using inv1 q p by (auto simp: incrementRateCounter_def split: sum.split)
qed

end

context session_store
begin

lemma lookup_inv: "inv s \<Longrightarrow> inv (fst (userIDFromCookieValue sm now v s))"
  using lookup_cases [of s now v] by (metis prod.collapse)

lemma revoke_inv: "inv s \<Longrightarrow> inv (revoke sm now c s)"
  using revoke_cases [of s] by blast

lemma issue_inv:
  assumes "inv s"
  shows "inv (fst (issue sm rnd now sent_at uid s))"
proof (cases "smRedis sm")
  case None
  then show ?thesis using assms by (simp add: issue_def buildCookieValue_def Let_def)
next
  case (Some R)
  have "inv s'" if "redisSet R k v (smTTL sm) t s = (s', q)" for k v t s' q
    using redis_store.set_ok [OF redis [OF Some] assms ttl] redis_store.set_error [OF redis [OF Some] assms ttl] that
    by (cases q) blast+
  then show ?thesis using Some assms
    by (auto simp: issue_def buildCookieValue_def Let_def split: sum.split prod.split)
qed

lemma counted_inv: "counted (smRedis sm) s s' \<Longrightarrow> inv s \<Longrightarrow> inv s'"
  unfolding counted_def using redis redis_store.incrementRateCounter_inv by fastforce

end

lemma wRedis_frames [simp]:
  "wRedis (handleTaskList A r w) = wRedis w" "wRedis (handleTaskGet A r w) = wRedis w"
  "wRedis (handleTaskStats A r w) = wRedis w" "wRedis (handleTaskCreate A r w) = wRedis w"
  "wRedis (handleTaskUpdate A r w) = wRedis w" "wRedis (handleTaskDelete A r w) = wRedis w"
  by (auto simp: handleTaskList_def handleTaskGet_def handleTaskStats_def handleTaskCreate_def
      handleTaskUpdate_def handleTaskDelete_def taskForUser_def on_db_eq Let_def
      split: option.split prod.split sum.split sum.split_asm if_splits)

lemma wRedis_banking [simp]:
  "wRedis (handleAccountList A r w) = wRedis w" "wRedis (handleAccountCreate A r w) = wRedis w"
  "wRedis (handleTransferCreate A r w) = wRedis w" "wRedis (handleAuthMe A r w) = wRedis w"
  "wRedis (handleHealth A r w) = wRedis w"
  by (auto simp: handleAccountList_def handleAccountCreate_def handleTransferCreate_def handleAuthMe_def
      handleHealth_def on_db_eq split: option.split prod.split sum.split)

context session_store
begin

lemma auth_issue_inv:
  "auth_issue A uid w = (w', e) \<Longrightarrow> sm = appAuth A \<Longrightarrow> inv (wRedis w) \<Longrightarrow> inv (wRedis w')"
  using issue_inv [of "wRedis w"] by (auto simp: auth_issue_def time_Now_def on_redis_eq Let_def split: sum.splits)

lemma register_inv: "appAuth A = sm \<Longrightarrow> inv (wRedis w) \<Longrightarrow> inv (wRedis (handleAuthRegister A r w))"
  by (auto simp: handleAuthRegister_def on_db_eq Let_def split: option.split prod.split sum.split intro: auth_issue_inv)

lemma login_inv: "appAuth A = sm \<Longrightarrow> inv (wRedis w) \<Longrightarrow> inv (wRedis (handleAuthLogin A r w))"
  by (auto simp: handleAuthLogin_def on_db_eq split: option.split prod.split sum.split intro: auth_issue_inv)

lemma logout_inv: "appAuth A = sm \<Longrightarrow> inv (wRedis w) \<Longrightarrow> inv (wRedis (handleAuthLogout A r w))"
  by (simp add: handleAuthLogout_def auth_revoke_def time_Now_def revoke_inv)

lemma requireAuth_inv:
  assumes "appAuth A = sm" "inv (wRedis w)" "\<And>r w. wRedis (handler A r w) = wRedis w"
  shows "inv (wRedis (requireAuth handler A r w))"
proof -
  have "inv (wRedis w1)" if "auth_authenticate A r w = (w1, x)" for w1 x
    using that assms(1,2) lookup_inv
    by (auto simp: auth_authenticate_def time_Now_def on_redis_eq on_db_eq split: option.splits sum.splits)
  then show ?thesis using assms(3) by (auto simp: requireAuth_def split: prod.split sum.split)
qed

lemma endpoint_inv: "appAuth A = sm \<Longrightarrow> inv (wRedis w) \<Longrightarrow> inv (wRedis (endpoint_serve ep A r w))"
  by (cases ep) (simp_all add: requireAuth_inv register_inv login_inv logout_inv)

lemma mux_inv: "appAuth A = sm \<Longrightarrow> inv (wRedis w) \<Longrightarrow> inv (wRedis (mux_serve A r w))"
  by (auto simp: mux_serve_def Let_def endpoint_inv split: option.split)

end

section \<open>One request\<close>

text \<open>A request arrives on a connection of its own.\<close>

definition accept :: "('d, 'r, 'a, 'f) world \<Rightarrow> ('d, 'r, 'a, 'f) world" where
  "accept w = w\<lparr>wConn := fresh_conn, wWriters := []\<rparr>"

lemma accept_frame [simp]:
  "wDb (accept w) = wDb w" "wRedis (accept w) = wRedis w" "wAudit (accept w) = wAudit w"
  "cnSent (wConn (accept w)) = None" "in_step (wWriters (accept w), wConn (accept w))"
  by (simp_all add: accept_def fresh_conn_def in_step_def)

definition serve_request :: "('d, 'r, 'a, 'f) app \<Rightarrow> request \<Rightarrow> ('d, 'r, 'a, 'f) world \<Rightarrow> ('d, 'r, 'a, 'f) world" where
  "serve_request A r w = fst (NewRouter A r (accept w))"

definition serve_all :: "('d, 'r, 'a, 'f) app \<Rightarrow> request list \<Rightarrow> ('d, 'r, 'a, 'f) world \<Rightarrow> ('d, 'r, 'a, 'f) world" where
  "serve_all A rs w = fold (serve_request A) rs w"

text \<open>The stack adds nothing to what the mux does to the stores, except the rate limiter's count.\<close>

lemma stack_stores:
  assumes "in_step (wWriters w, wConn w)" "cnSent (wConn w) = None" "NewRouter A r w = (w', out)"
  shows "\<exists>s. counted (smRedis (appAuth A)) (wRedis w) s \<and>
    ((wDb w' = wDb w \<and> wRedis w' = s)
     \<or> (\<exists>w0. wDb w0 = wDb w \<and> wRedis w0 = s \<and> wDb w' = wDb (mux_serve A r w0) \<and> wRedis w' = wRedis (mux_serve A r w0)))"
    (is "\<exists>s. ?P w w' s")
proof -
  let ?inner = "RedisRateLimit A (smRedis (appAuth A)) (appRateLimit A) (inner_stack A (mux_handler A))"
  have inner: "\<exists>s. ?P v v' s"
    if "?inner r v = (v', o')" "in_step (wWriters v, wConn v)" "cnSent (wConn v) = None" for v v' o'
    using that
  proof (cases rule: RedisRateLimit_cases)
    case (passed v1)
    then have "in_step (wWriters v1, wConn v1)" "cnSent (wConn v1) = None" using that by simp_all
    from inner_stack_cases [OF mux_behaves this passed(1)] show ?thesis using passed
      by (auto simp: mux_handler_def)
  next
    case refused
    then show ?thesis by blast
  qed
  show ?thesis
  proof (cases "appAudit A")
    case None
    then have "?inner r w = (w', out)"
      using assms(3) by (simp add: NewRouter_stack middleware_stack_def AuditTrail_def inner_stack_def)
    then show ?thesis using inner assms(1,2) by blast
  next
    case (Some store)
    obtain v o' where run: "?inner r (push_writer w) = (v, o')" by fastforce
    have "wDb w' = wDb v \<and> wRedis w' = wRedis v"
      using assms(3) run Some
      by (auto simp: NewRouter_stack middleware_stack_def AuditTrail_def inner_stack_def time_Now_def Let_def
          log_event_def split: outcome.splits prod.splits sum.splits)
    then show ?thesis
      using inner [OF run pushed_in_step [OF assms(1,2)]] assms(2) by simp
  qed
qed

lemma serve_request_step:
  assumes "sql_engine D ok committed tx_view" "ok (wDb w)" "on_postgres D A"
    and "session_store (appAuth A) rinv live" "rinv (wRedis w)"
  shows "ok (wDb (serve_request A r w)) \<and> rinv (wRedis (serve_request A r w))
    \<and> (\<exists>who. request_change who (transfer_request r) (committed (wDb w)) (committed (wDb (serve_request A r w))))"
proof -
  obtain w' out where run: "NewRouter A r (accept w) = (w', out)" by fastforce
  from stack_stores [OF _ _ run] obtain s where s: "counted (smRedis (appAuth A)) (wRedis w) s"
    and cases: "(wDb w' = wDb w \<and> wRedis w' = s) \<or> (\<exists>w0. wDb w0 = wDb w \<and> wRedis w0 = s
      \<and> wDb w' = wDb (mux_serve A r w0) \<and> wRedis w' = wRedis (mux_serve A r w0))" by auto
  have rs: "rinv s" by (rule session_store.counted_inv [OF assms(4) s assms(5)])
  have w': "serve_request A r w = w'" using run by (simp add: serve_request_def)
  from cases show ?thesis
  proof (elim disjE exE conjE)
    assume "wDb w' = wDb w" "wRedis w' = s"
    then show ?thesis using w' rs assms(2) by (auto intro: no_change)
  next
    fix w0 assume w0: "wDb w0 = wDb w" "wRedis w0 = s" "wDb w' = wDb (mux_serve A r w0)"
      "wRedis w' = wRedis (mux_serve A r w0)"
    have "ok (wDb w0)" "rinv (wRedis w0)" using w0 assms(2) rs by simp_all
    from mux_changes [OF assms(1) this(1) assms(3,4) this(2), of r]
      session_store.mux_inv [OF assms(4) refl this(2), of r]
    show ?thesis using w' w0 by (auto simp: changes_def)
  qed
qed

section \<open>Runs\<close>

text \<open>What every request keeps holds after any run of them.\<close>

lemma serve_all_keeps:
  assumes "sql_engine D ok committed tx_view" "ok (wDb w)" "on_postgres D A"
    and "session_store (appAuth A) rinv live" "rinv (wRedis w)" "P (committed (wDb w))"
    and "\<And>who r T T'. r \<in> set rs \<Longrightarrow> request_change who (transfer_request r) T T' \<Longrightarrow> schema_ok T \<Longrightarrow> schema_ok T' \<Longrightarrow>
      P T \<Longrightarrow> P T'"
  shows "P (committed (wDb (serve_all A rs w))) \<and> schema_ok (committed (wDb (serve_all A rs w)))"
  using assms(2,5-7) unfolding serve_all_def
proof (induction rs arbitrary: w)
  case Nil
  then show ?case using sql_engine.committed_schema [OF assms(1)] by simp
next
  case (Cons r rs)
  let ?w = "serve_request A r w"
  obtain who where step: "ok (wDb ?w)" "rinv (wRedis ?w)"
    "request_change who (transfer_request r) (committed (wDb w)) (committed (wDb ?w))"
    using serve_request_step [OF assms(1) Cons.prems(1) assms(3,4) Cons.prems(2)] by blast
  have "P (committed (wDb ?w))"
    using Cons.prems(4) [OF _ step(3)] Cons.prems(3) sql_engine.committed_schema [OF assms(1)] step(1) Cons.prems(1) by simp
  moreover have "P T'" if "q \<in> set rs" "request_change who (transfer_request q) T T'" "schema_ok T" "schema_ok T'" "P T"
    for who q T T' using Cons.prems(4) [of q] that by simp
  ultimately show ?case using Cons.IH [OF step(1,2)] by simp
qed

lemma serve_all_books:
  assumes "sql_engine D ok committed tx_view" "ok (wDb w)" "on_postgres D A"
    and "session_store (appAuth A) rinv live" "rinv (wRedis w)"
    and "\<And>r q. r \<in> set rs \<Longrightarrow> transfer_request r = Some q \<Longrightarrow> sint (rqAmount q) \<noteq> - (2 ^ 63)"
    and "ledger_ok (committed (wDb w))" "valid_rows (tbTasks (committed (wDb w)))"
  shows "money_in cur (committed (wDb (serve_all A rs w))) = money_in cur (committed (wDb w))"
    "ledger_ok (committed (wDb (serve_all A rs w)))" "schema_ok (committed (wDb (serve_all A rs w)))"
    "valid_rows (tbTasks (committed (wDb (serve_all A rs w))))"
proof -
  let ?P = "\<lambda>T. money_in cur T = money_in cur (committed (wDb w)) \<and> ledger_ok T \<and> valid_rows (tbTasks T)"
  have "?P (committed (wDb (serve_all A rs w))) \<and> schema_ok (committed (wDb (serve_all A rs w)))"
  proof (rule serve_all_keeps [OF assms(1-5), where P = ?P])
    fix who r T T'
    assume step: "r \<in> set rs" "request_change who (transfer_request r) T T'" "schema_ok T" "schema_ok T'" "?P T"
    note kept = request_change_schema [OF step(2-4)]
    show "?P T'" using kept(1) [of cur] kept(2,3) step(5) assms(6) [OF step(1)] by simp
  qed (use assms(7,8) in simp)
  then show "money_in cur (committed (wDb (serve_all A rs w))) = money_in cur (committed (wDb w))"
    "ledger_ok (committed (wDb (serve_all A rs w)))" "schema_ok (committed (wDb (serve_all A rs w)))"
    "valid_rows (tbTasks (committed (wDb (serve_all A rs w))))" by simp_all
qed

text \<open>C5: Whatever requests are served, in whatever order, with whatever bodies and faults, the books stay
  right: no request creates money or loses any, every balance stays the sum of the account's
  transfers, the constraints of the schema hold, and every stored task stays valid.  Excluded are runs with a body that asks
  for the amount \<open>-(2 ^ 63)\<close>: a client can send it, it has no negation, and a transfer of it passes the guards and destroys
  \<open>2 ^ 64\<close> units (\<open>transfer_done_money\<close>).\<close>

theorem runs_keep_the_books:
  assumes "sql_engine D ok committed tx_view" "ok (wDb w)" "on_postgres D A"
    and "session_store (appAuth A) rinv live" "rinv (wRedis w)"
    and "\<And>r q. r \<in> set rs \<Longrightarrow> transfer_request r = Some q \<Longrightarrow> sint (rqAmount q) \<noteq> - (2 ^ 63)"
    and "ledger_ok (committed (wDb w))" "valid_rows (tbTasks (committed (wDb w)))"
  shows "let T = committed (wDb w); T' = committed (wDb (serve_all A rs w)) in
    money_in cur T' = money_in cur T \<and> ledger_ok T' \<and> schema_ok T' \<and> valid_rows (tbTasks T')"
  using serve_all_books [OF assms] by (simp add: Let_def)

definition demo_run :: "request list" where
  "demo_run = [demo_http ''POST'' ''/accounts/1/transfer'' (Some ''abc'') demo_transfer_body,
     demo_http ''DELETE'' ''/tasks/1'' (Some ''abc'') (Inl (Malformed ''EOF'')),
     demo_http ''POST'' ''/accounts/1/transfer'' None demo_transfer_body]"

lemma runs_keep_the_books_witness:
  "money_in ''USD'' (pgTables (wDb (serve_all demo_app demo_run demo_world))) = money_in ''USD'' (pgTables pg_demo)"
proof -
  have amounts: "sint (rqAmount q) \<noteq> - (2 ^ 63)" if "r \<in> set demo_run" "transfer_request r = Some q" for r q
    using that by (auto simp: demo_run_def demo_transfer_request demo_request_def)
      (simp_all add: transfer_request_def decode_struct_def)
  have "ledger_ok (pgTables pg_demo)"
    by (auto simp: ledger_ok_def net_flow_def flow_def pg_demo_def split: if_splits)
  with runs_keep_the_books [OF pg_engine.sql_engine_axioms, where w = demo_world and rs = demo_run, OF _ demo_on_postgres
      demo_sessions TrueI amounts] pg_demo_tasks_valid
  show ?thesis by (simp add: Let_def)
qed

lemma serve_all_solvent:
  assumes "sql_engine D ok committed tx_view" "ok (wDb w)" "on_postgres D A"
    and "session_store (appAuth A) rinv live" "rinv (wRedis w)"
    and "\<And>r q. r \<in> set rs \<Longrightarrow> transfer_request r = Some q \<Longrightarrow> 0 \<le> sint (rqAmount q)"
    and "solvent (committed (wDb w))"
  shows "solvent (committed (wDb (serve_all A rs w)))"
  using serve_all_keeps [OF assms(1-5), where P = solvent and rs = rs] assms(6,7) request_change_solvent by blast

text \<open>With amounts that are not negative, no run of requests overdraws an account.\<close>

theorem runs_keep_solvent:
  assumes "sql_engine D ok committed tx_view" "ok (wDb w)" "on_postgres D A"
    and "session_store (appAuth A) rinv live" "rinv (wRedis w)"
    and "\<And>r q. r \<in> set rs \<Longrightarrow> transfer_request r = Some q \<Longrightarrow> 0 \<le> sint (rqAmount q)"
    and "solvent (committed (wDb w))"
  shows "solvent (committed (wDb (serve_all A rs w)))"
  by (rule serve_all_solvent [OF assms])

lemma runs_keep_solvent_witness:
  "solvent (pgTables (wDb (serve_all demo_app demo_run (demo_world\<lparr>wDb := pg_solvent\<rparr>))))"
proof (rule runs_keep_solvent [OF pg_engine.sql_engine_axioms _ demo_on_postgres demo_sessions TrueI])
  show "pg_inv (wDb (demo_world\<lparr>wDb := pg_solvent\<rparr>))" by (simp add: pg_solvent_inv)
  show "0 \<le> sint (rqAmount q)" if "r \<in> set demo_run" "transfer_request r = Some q" for r q
    using that by (auto simp: demo_run_def demo_transfer_request demo_request_def)
      (simp_all add: transfer_request_def decode_struct_def)
  show "solvent (pgTables (wDb (demo_world\<lparr>wDb := pg_solvent\<rparr>)))"
    by (auto simp: solvent_def pg_solvent_def pg_demo_def split: if_splits)
qed

section \<open>Logging in over HTTP\<close>

lemma auth_issue_ok:
  assumes "auth_issue A uid w = (w', None)"
  obtains s ck where "issue (appAuth A) (appRandom A (wDraw w)) (appClock A (wTick w)) (appClock A (Suc (wTick w))) uid
      (wRedis w) = (s, Inr ck)" "wRedis w' = s" "cnSent (wConn w') = cnSent (wConn w)"
    "cnCookies (wConn w') = cnCookies (wConn w) @ [ck]"
proof -
  obtain s q where run: "issue (appAuth A) (appRandom A (wDraw w)) (appClock A (wTick w)) (appClock A (Suc (wTick w))) uid
      (wRedis w) = (s, q)" by fastforce
  then obtain ck where "q = Inr ck" using assms by (cases q) (auto simp: auth_issue_def time_Now_def on_redis_eq)
  then show ?thesis using that run assms
    by (auto simp: auth_issue_def time_Now_def on_redis_eq set_cookie_def)
qed

text \<open>The ways in which a login can end.\<close>

lemma login_cases:
  assumes "sql_engine D ok committed tx_view" "ok (wDb w)" "on_postgres D A" "cnSent (wConn w) = None"
    and "decodeJSONBody A ''web.loginRequest'' login_fields \<lparr>lrEmail = [], lrPassword = []\<rparr> r = Inr req"
  obtains (refused) "final_status (wConn (handleAuthLogin A r w)) = 401"
  | (no_session) "final_status (wConn (handleAuthLogin A r w)) = 500"
  | (opened) u w1 w2 where "tbUsers (committed (wDb w)) (uID u) = Some u" "uEmail u = TrimSpace (lrEmail req)"
      "CompareHashAndPassword (appBcrypt A) (uPassword u) (lrPassword req) = None"
      "wRedis w1 = wRedis w" "wConn w1 = wConn w" "wTick w1 = wTick w"
      "auth_issue A (uID u) w1 = (w2, None)" "handleAuthLogin A r w = respondJSON A 200 (PUser u) w2"
proof -
  obtain w1 x where run: "on_db (UserService_Authenticate (appBcrypt A) (PgUserRepo D) background (lrEmail req)
      (lrPassword req)) w = (w1, x)"
    "UserService_Authenticate (appBcrypt A) (PgUserRepo D) background (lrEmail req) (lrPassword req) (wDb w) = (wDb w1, x)"
    by (rule on_db_step)
  note same = on_db_frame [OF run(1)]
  note user = user_store.Authenticate_cases [OF sql_engine.pg_user_store [OF assms(1)] assms(2), simplified, OF run(2)]
  show thesis
  proof (cases x)
    case (Inl e)
    then have "handleAuthLogin A r w = handleServiceError A e w1" "error_status e = 401"
      using run(1) assms(3,5) user by (auto simp: handleAuthLogin_def on_postgres_def error_status_def)
    moreover obtain m w2 where "handleServiceError A e w1 = respondError A (error_status e) m w2" "wConn w2 = wConn w1"
      using handleServiceError_respond [of A e w1] by blast
    ultimately show thesis using refused respondError_status(1) [of w2 A 401 m] same assms(4) by simp
  next
    case (Inr u)
    obtain w2 e where iss: "auth_issue A (uID u) w1 = (w2, e)" by fastforce
    have login: "handleAuthLogin A r w = (case e of
        Some err \<Rightarrow> respondError A 500 ''internal server error'' (log_event (LogError ''issue session failed'') w2)
      | None \<Rightarrow> respondJSON A 200 (PUser u) w2)"
      using run(1) Inr iss assms(3,5) by (simp add: handleAuthLogin_def on_postgres_def split: option.split)
    show thesis
    proof (cases e)
      case (Some err)
      have "cnSent (wConn (log_event (LogError ''issue session failed'') w2)) = None"
        using auth_issue_sent [OF iss] same assms(4) by simp
      then show thesis using no_session login Some
          respondError_status(1) [of "log_event (LogError ''issue session failed'') w2" A 500 "''internal server error''"] by simp
    next
      case None
      then show thesis using opened [of u w1 w2] login iss user Inr same by simp
    qed
  qed
qed

text \<open>A session that was issued stands for its user.\<close>

lemma issued_session:
  assumes "session_store (appAuth A) rinv live" "rinv (wRedis w)" "auth_issue A uid w = (w2, None)"
    and "appClock A (wTick w) \<le> appClock A (Suc (wTick w))"
    and "- (2 ^ 62) \<le> unix (appClock A (wTick w) + smTTL (appAuth A))" "unix (appClock A (wTick w) + smTTL (appAuth A)) < 2 ^ 62"
  obtains ck where "cnSent (wConn w2) = cnSent (wConn w)" "cnCookies (wConn w2) = cnCookies (wConn w) @ [ck]"
    "\<forall>t. appClock A (Suc (wTick w)) \<le> t \<and> t \<le> appClock A (wTick w) + smTTL (appAuth A) - nanos_per_second \<longrightarrow>
       session_of (appAuth A) (live (wRedis w2)) t (ckValue ck) = Some uid"
proof (rule auth_issue_ok [OF assms(3)])
  fix s ck
  assume ck: "issue (appAuth A) (appRandom A (wDraw w)) (appClock A (wTick w)) (appClock A (Suc (wTick w))) uid (wRedis w) = (s, Inr ck)"
    "wRedis w2 = s" "cnSent (wConn w2) = cnSent (wConn w)" "cnCookies (wConn w2) = cnCookies (wConn w) @ [ck]"
  have "buildCookieValue (appAuth A) (appRandom A (wDraw w)) (appClock A (Suc (wTick w))) uid
      (appClock A (wTick w) + smTTL (appAuth A)) (wRedis w) = (s, Inr (ckValue ck))"
    using ck(1) by (auto simp: issue_def Let_def split: prod.splits sum.splits)
  from session_store.build_cases [OF assms(1,2) this assms(4-6)] show thesis
    using that [of ck] ck by simp
qed

text \<open>C23: A login that is answered with 200 was made with the email and the password of a stored user, and
  the cookie it sets stands for that user from then on until the session's lifetime is over.\<close>

theorem login_opens_session:
  assumes "sql_engine D ok committed tx_view" "ok (wDb w)" "on_postgres D A"
    and "session_store (appAuth A) rinv live" "rinv (wRedis w)" "cnSent (wConn w) = None"
    and "decodeJSONBody A ''web.loginRequest'' login_fields \<lparr>lrEmail = [], lrPassword = []\<rparr> r = Inr req"
    and "now = appClock A (wTick w)" "sent_at = appClock A (Suc (wTick w))" "now \<le> sent_at"
    and "- (2 ^ 62) \<le> unix (now + smTTL (appAuth A))" "unix (now + smTTL (appAuth A)) < 2 ^ 62"
    and "final_status (wConn (handleAuthLogin A r w)) = 200"
  shows "\<exists>u ck. tbUsers (committed (wDb w)) (uID u) = Some u \<and> uEmail u = TrimSpace (lrEmail req)
    \<and> CompareHashAndPassword (appBcrypt A) (uPassword u) (lrPassword req) = None
    \<and> final_cookies (wConn (handleAuthLogin A r w)) = cnCookies (wConn w) @ [ck]
    \<and> (\<forall>t. sent_at \<le> t \<and> t \<le> now + smTTL (appAuth A) - nanos_per_second \<longrightarrow>
         session_of (appAuth A) (live (wRedis (handleAuthLogin A r w))) t (ckValue ck) = Some (uID u))"
  using assms(1-3,6,7)
proof (cases rule: login_cases)
  case (opened u w1 w2)
  obtain ck where ck: "cnSent (wConn w2) = None" "cnCookies (wConn w2) = cnCookies (wConn w) @ [ck]"
    "\<forall>t. sent_at \<le> t \<and> t \<le> now + smTTL (appAuth A) - nanos_per_second \<longrightarrow>
       session_of (appAuth A) (live (wRedis w2)) t (ckValue ck) = Some (uID u)"
    using issued_session [OF assms(4) _ opened(7)] opened(4-6) assms(5,6,8-12) by metis
  then show ?thesis using opened(1-3,8) respondJSON_status(2) [OF ck(1)]
    by (intro exI [of _ u] exI [of _ ck]) simp
qed (use assms(13) in simp_all)

definition demo_login_body :: "json_error + jval" where
  "demo_login_body = Inr (VObj [(''email'', VStr ''a@x.io''), (''password'', VStr ''secret-1'')])"

lemma login_opens_session_witness:
  "final_status (wConn (handleAuthLogin demo_app (demo_http ''POST'' ''/auth/login'' None demo_login_body) demo_world)) = 200
   \<and> (\<exists>(u :: user) (ck :: cookie). uEmail u = TrimSpace ''a@x.io''
     \<and> session_of (appAuth demo_app) (rd_live (wRedis (handleAuthLogin demo_app
          (demo_http ''POST'' ''/auth/login'' None demo_login_body) demo_world))) (60 * nanos_per_second) (ckValue ck) = Some (uID u))"
proof
  let ?r = "demo_http ''POST'' ''/auth/login'' None demo_login_body"
  have trim: "TrimSpace ''a@x.io'' = ''a@x.io''" by (simp add: trim_eval)
  have dec: "decodeJSONBody demo_app ''web.loginRequest'' login_fields \<lparr>lrEmail = [], lrPassword = []\<rparr> ?r
      = Inr \<lparr>lrEmail = ''a@x.io'', lrPassword = ''secret-1''\<rparr>"
    by (simp add: decodeJSONBody_def demo_login_body_def decode_struct_def login_fields_def find_field_def set_string_def)
  have user: "snd (UserService_Authenticate demo_bcrypt (PgUserRepo demo_driver) background ''a@x.io'' ''secret-1'' pg_demo)
      = Inr \<lparr>uID = 1, uEmail = ''a@x.io'', uName = ''Ann'', uPassword = ''#secret-1'', uCreatedAt = 0, uUpdatedAt = 0\<rparr>"
    by (simp add: UserService_Authenticate_def trim demo_bcrypt_def pg_eval)
  have sent: "cnSent (wConn w2) = None" if "auth_issue demo_app 1 (demo_world\<lparr>wDb := d\<rparr>) = (w2, e)" for w2 e d
    using auth_issue_sent [OF that] by (simp add: fresh_conn_def)
  have issued: "snd (auth_issue demo_app 1 (demo_world\<lparr>wDb := d\<rparr>)) = None" for d
    by (simp add: auth_issue_def time_Now_def on_redis_eq issue_def buildCookieValue_def randomSessionID_def
        redis_manager_def demo_app_def rd_step_def rd_put_def rd_empty_def Let_def)
  show status: "final_status (wConn (handleAuthLogin demo_app ?r demo_world)) = 200"
    using sent issued
    by (auto simp: handleAuthLogin_def dec on_db_eq user respondJSON_status split: prod.split option.split)
      (metis snd_conv option.distinct(1))
  show "\<exists>(u :: user) (ck :: cookie). uEmail u = TrimSpace ''a@x.io''
     \<and> session_of (appAuth demo_app) (rd_live (wRedis (handleAuthLogin demo_app ?r demo_world))) (60 * nanos_per_second) (ckValue ck)
       = Some (uID u)"
  proof -
    have facts: "pg_inv (wDb demo_world)" "cnSent (wConn demo_world) = None"
      "appClock demo_app (wTick demo_world) \<le> appClock demo_app (Suc (wTick demo_world))"
      "- (2 ^ 62) \<le> unix (appClock demo_app (wTick demo_world) + smTTL (appAuth demo_app))"
      "unix (appClock demo_app (wTick demo_world) + smTTL (appAuth demo_app)) < 2 ^ 62"
      by (simp_all add: fresh_conn_def redis_manager_def nanos_per_second_def unix_def)
    obtain u :: user and ck :: cookie where u: "uEmail u = TrimSpace ''a@x.io''" and
      s: "\<forall>t. appClock demo_app (Suc (wTick demo_world)) \<le> t
          \<and> t \<le> appClock demo_app (wTick demo_world) + smTTL (appAuth demo_app) - nanos_per_second \<longrightarrow>
        session_of (appAuth demo_app) (rd_live (wRedis (handleAuthLogin demo_app ?r demo_world))) t (ckValue ck) = Some (uID u)"
      using login_opens_session [OF pg_engine.sql_engine_axioms facts(1) demo_on_postgres demo_sessions TrueI
          facts(2) dec refl refl facts(3-5) status]
      unfolding loginRequest.simps by (elim exE conjE) (rule that; assumption)
    have "session_of (appAuth demo_app) (rd_live (wRedis (handleAuthLogin demo_app ?r demo_world)))
        (60 * nanos_per_second) (ckValue ck) = Some (uID u)"
      by (rule s [rule_format]) (simp add: redis_manager_def nanos_per_second_def)
    then show ?thesis using u by blast
  qed
qed

end
