(* ===== verification/Audit_Log.thy ===== *)
theory Audit_Log
  imports Bolt_Stores Server_Runs
begin

text \<open>
  The audit middleware over the Bolt audit logger, as \<^verbatim>\<open>cmd/specto/server.go\<close> wires them:
  what the log holds after a run of requests.
\<close>

text \<open>How a run may change the entries: per request, in order, one record of it behind all entries, or
  nothing if it could not be stored.\<close>

inductive audited :: "'v json_codec \<Rightarrow> request list \<Rightarrow> (int64 \<rightharpoonup> 'v) \<Rightarrow> (int64 \<rightharpoonup> 'v) \<Rightarrow> bool" for J where
  audited_Nil: "audited J [] E E"
| audited_missed: "audited J rs E E' \<Longrightarrow> audited J (r # rs) E E'"
| audited_added: "marshalAudit J \<lparr>arTimestamp = t, arMethod = rqMethod r, arPath = rqPath r,
       arRemote = clientIP (rqRemoteAddr r), arStatus = of_nat status\<rparr> = Inr payload \<Longrightarrow>
     \<forall>j \<in> dom E. unat j < unat i \<Longrightarrow> audited J rs (E(i \<mapsto> payload)) E' \<Longrightarrow> audited J (r # rs) E E'"

lemma audited_keeps: "audited J rs E E' \<Longrightarrow> E \<subseteq>\<^sub>m E'"
proof (induction rule: audited.induct)
  case (audited_added t r status payload E i rs E')
  have "i \<notin> dom E" using audited_added.hyps(2) by blast
  then have "E \<subseteq>\<^sub>m E(i \<mapsto> payload)" by (simp add: map_le_def)
  then show ?case using audited_added.IH map_le_trans by blast
qed simp_all

definition bolt_audited :: "('d, 'x, 'v) bolt_db \<Rightarrow> 'v json_codec \<Rightarrow> ('e, 'r, 'd, 'f) app \<Rightarrow> bool" where
  "bolt_audited B J A \<longleftrightarrow> appAudit A = Some (BoltAuditLogger_Append B J)"

lemma serve_request_audit:
  assumes "bolt_store B buckets writable stored J" "bolt_audited B J A" "audit_ok (stored (wAudit w))"
  shows "audit_ok (stored (wAudit (serve_request A r w))) \<and> (\<forall>rs E'.
    audited J rs (audit_entries (stored (wAudit (serve_request A r w)))) E' \<longrightarrow>
    audited J (r # rs) (audit_entries (stored (wAudit w))) E')"
proof -
  obtain w' out where run: "NewRouter A r (accept w) = (w', out)" by fastforce
  have w': "serve_request A r w = w'" using run by (simp add: serve_request_def)
  obtain t where "wAudit w' = fst (BoltAuditLogger_Append B J \<lparr>arTimestamp = t, arMethod = rqMethod r,
      arPath = rqPath r, arRemote = clientIP (rqRemoteAddr r), arStatus = of_nat (final_status (wConn w'))\<rparr> (wAudit w))"
    using one_record_per_request [OF mux_behaves _ _ _ run [unfolded NewRouter_stack]] assms(2)
    by (auto simp: bolt_audited_def)
  then obtain rec q where rec: "rec = \<lparr>arTimestamp = t, arMethod = rqMethod r, arPath = rqPath r,
      arRemote = clientIP (rqRemoteAddr r), arStatus = of_nat (final_status (wConn w'))\<rparr>"
    and append: "BoltAuditLogger_Append B J rec (wAudit w) = (wAudit w', q)"
    by (metis prod.collapse)
  let ?E = "audit_entries (stored (wAudit w))" and ?E1 = "audit_entries (stored (wAudit w'))"
  have "audit_ok (stored (wAudit w'))" and cases: "?E1 = ?E \<or> (\<exists>i payload. marshalAudit J rec = Inr payload
      \<and> (\<forall>j \<in> dom ?E. unat j < unat i) \<and> ?E1 = ?E(i \<mapsto> payload))"
    using bolt_store.append_cases [OF assms(1,3) append] by (cases q; simp add: Let_def)+
  moreover have "audited J (r # rs) ?E E'" if run: "audited J rs ?E1 E'" for rs E'
    using cases
  proof (elim disjE exE conjE)
    assume "?E1 = ?E"
    then show ?thesis using audited_missed [OF run] by simp
  next
    fix i payload
    assume "marshalAudit J rec = Inr payload" "\<forall>j \<in> dom ?E. unat j < unat i" "?E1 = ?E(i \<mapsto> payload)"
    with run show ?thesis using audited_added [of J t r "final_status (wConn w')"] by (simp add: rec)
  qed
  ultimately show ?thesis by (simp add: w')
qed

lemma serve_all_audit:
  assumes "bolt_store B buckets writable stored J" "bolt_audited B J A" "audit_ok (stored (wAudit w))"
  shows "audit_ok (stored (wAudit (serve_all A rs w)))
    \<and> audited J rs (audit_entries (stored (wAudit w))) (audit_entries (stored (wAudit (serve_all A rs w))))"
  using assms(3) unfolding serve_all_def
proof (induction rs arbitrary: w)
  case Nil
  then show ?case by (simp add: audited_Nil)
next
  case (Cons r rs)
  then show ?case using serve_request_audit [OF assms(1,2) Cons.prems] by simp
qed

text \<open>C31: Over the Bolt audit logger a run of requests, whatever they are and however they end, only
  appends to the audit log: every entry that was there stays as it was, and behind them come, in the
  order of the requests, records of their method, path, address and status, one for each request
  whose record could be stored and none twice.\<close>

theorem runs_append_to_audit_log:
  assumes "bolt_store B buckets writable stored J" "bolt_audited B J A" "audit_ok (stored (wAudit w))"
  shows "let E = audit_entries (stored (wAudit w)); E' = audit_entries (stored (wAudit (serve_all A rs w))) in
    audit_ok (stored (wAudit (serve_all A rs w))) \<and> audited J rs E E' \<and> E \<subseteq>\<^sub>m E'"
  using serve_all_audit [OF assms, of rs] audited_keeps by (simp add: Let_def) blast

definition bolt_app :: "(pg, rd, ref_value ref_data, int) app" where
  "bolt_app = \<lparr>appUsers = appUsers demo_app, appTasks = appTasks demo_app, appAccounts = appAccounts demo_app,
     appTransfers = appTransfers demo_app, appDriver = appDriver demo_app, appAuth = appAuth demo_app,
     appRateLimit = 2, appAudit = Some (BoltAuditLogger_Append ref_bolt ref_codec), appBcrypt = appBcrypt demo_app,
     appCount = appCount demo_app, appFloat = appFloat demo_app, appFinite = appFinite demo_app,
     appClock = int, appRandom = appRandom demo_app, appSalt = appSalt demo_app, appIsPrint = appIsPrint demo_app,
     appParseTime = appParseTime demo_app, appJsonText = appJsonText demo_app, appRedirect = 301\<rparr>"

definition bolt_world :: "(pg, rd, ref_value ref_data, int) world" where
  "bolt_world = \<lparr>wDb = pg_demo, wRedis = rd_empty, wAudit = demo_bolt, wConn = fresh_conn, wWriters = [],
     wLog = [], wTick = 0, wDraw = 0\<rparr>"

lemma runs_append_to_audit_log_witness:
  "audit_ok (ref_buckets (wAudit (serve_all bolt_app demo_run bolt_world)))
   \<and> audited ref_codec demo_run Map.empty (audit_entries (ref_buckets (wAudit (serve_all bolt_app demo_run bolt_world))))"
proof -
  have "bolt_audited ref_bolt ref_codec bolt_app" by (simp add: bolt_audited_def bolt_app_def)
  moreover have "wAudit bolt_world = demo_bolt" by (simp add: bolt_world_def)
  ultimately show ?thesis
    using runs_append_to_audit_log [OF ref_store.bolt_store_axioms, of bolt_app bolt_world demo_run] demo_bolt_audit
    by (simp add: Let_def)
qed

end
