(* ===== verification/Whole_Program.thy ===== *)
theory Whole_Program
  imports Audit_Log Commands
begin

text \<open>
  The program that \<^verbatim>\<open>specto server\<close> starts: the application that \<^verbatim>\<open>cmd/specto/server.go\<close>,
  \<^verbatim>\<open>server.New\<close> and \<^verbatim>\<open>NewRouter\<close> build from a configuration and the opened stores, and
  what holds of it from an empty database on.
\<close>

section \<open>The application of a configuration\<close>

text \<open>\<open>lib\<close> supplies the libraries (bcrypt, the clock, the random source, the JSON texts, floats); every part
  that the program builds itself replaces its field.\<close>

definition server_app :: "config \<Rightarrow> 'd sql_driver \<Rightarrow> 'r redis_client \<Rightarrow> ('a, 'x, 'v) bolt_db \<Rightarrow> 'v json_codec
    \<Rightarrow> ('d, 'r, 'a, 'f) app \<Rightarrow> ('d, 'r, 'a, 'f) app" where
  "server_app cfg D R B J lib = lib\<lparr>
     appUsers := PgUserRepo D, appTasks := PgTaskRepo D,
     appAccounts := PgAccountRepo D, appTransfers := PgTransferRepo D, appDriver := D,
     appAuth := newSessionManager cfg (Some R), appRateLimit := cfRateLimitPerMinute cfg,
     appAudit := Some (BoltAuditLogger_Append B J)\<rparr>"

lemma server_app_stores:
  "on_postgres D (server_app cfg D R B J lib)" "bolt_audited B J (server_app cfg D R B J lib)"
  by (simp_all add: server_app_def on_postgres_def bolt_audited_def)

lemma server_app_sessions:
  assumes "Validate cfg = None" "redis_store R rinv live"
  shows "session_store (appAuth (server_app cfg D R B J lib)) rinv live"
  using assms valid_session_manager [OF assms(1), of "Some R"]
  by (auto simp: server_app_def newSessionManager_def intro!: session_store.intro)

section \<open>The server\<close>

text \<open>\<^verbatim>\<open>server.New\<close>: the HTTP server with its address, its handler and its time-outs.\<close>

record 'h http_server =
  hsAddr :: string
  hsHandler :: 'h
  hsReadTimeout :: duration
  hsWriteTimeout :: duration
  hsIdleTimeout :: duration

definition New :: "config \<Rightarrow> 'd sql_driver \<Rightarrow> 'r redis_client \<Rightarrow> ('a, 'x, 'v) bolt_db \<Rightarrow> 'v json_codec
    \<Rightarrow> ('d, 'r, 'a, 'f) app \<Rightarrow> ('d, 'r, 'a, 'f) handler http_server" where
  "New cfg D R B J lib =
     \<lparr>hsAddr = Addr cfg, hsHandler = NewRouter (server_app cfg D R B J lib), hsReadTimeout = 5 * nanos_per_second,
      hsWriteTimeout = 10 * nanos_per_second, hsIdleTimeout = 60 * nanos_per_second\<rparr>"

text \<open>A run: the handler on one accepted request after another.\<close>

definition served :: "('d, 'r, 'a, 'f) handler http_server \<Rightarrow> request list \<Rightarrow> ('d, 'r, 'a, 'f) world \<Rightarrow> ('d, 'r, 'a, 'f) world" where
  "served srv rs w = fold (\<lambda>r w. fst (hsHandler srv r (accept w))) rs w"

lemma served_New: "served (New cfg D R B J lib) rs w = serve_all (server_app cfg D R B J lib) rs w"
  by (simp add: served_def serve_all_def serve_request_def [abs_def] New_def)

section \<open>From an empty database on\<close>

lemma no_tables_books: "ledger_ok no_tables" "valid_rows (tbTasks no_tables)" "solvent no_tables" "money_in cur no_tables = 0"
  by (simp_all add: no_tables_def ledger_ok_def solvent_def money_in_def valid_rows_def)

text \<open>Balances that are not negative and add up to nothing are nothing.\<close>

lemma no_money_no_balance:
  assumes "schema_ok T" "solvent T" "\<And>cur. money_in cur T = 0" "tbAccounts T i = Some a"
  shows "sint (aBalance a) = 0"
proof -
  have fin: "finite (dom (tbAccounts T))" using assms(1) by (simp add: schema_ok_def)
  let ?cur = "aCurrency a"
  have "0 \<le> amount_in ?cur (tbAccounts T k)" for k
    using assms(2) by (auto simp: amount_in_def solvent_def split: option.splits)
  moreover have "(\<Sum>k \<in> dom (tbAccounts T). amount_in ?cur (tbAccounts T k)) = 0"
    using assms(3) [of ?cur] by (simp add: money_in_def)
  moreover have "i \<in> dom (tbAccounts T)" using assms(4) by blast
  ultimately have "amount_in ?cur (tbAccounts T i) = 0" using fin by (simp add: sum_nonneg_eq_0_iff)
  then show ?thesis using assms(4) by (simp add: amount_in_def)
qed

text \<open>A start of the program: a valid configuration, a database without rows, a Redis that behaves and the
  BoltDB that \<^verbatim>\<open>OpenBolt\<close> made of an empty file.\<close>

definition fresh_start :: "config \<Rightarrow> 'd sql_driver \<Rightarrow> ('d \<Rightarrow> bool) \<Rightarrow> ('d \<Rightarrow> tables) \<Rightarrow> ('d \<Rightarrow> nat \<Rightarrow> tables option) \<Rightarrow> 'r redis_client
    \<Rightarrow> ('r \<Rightarrow> bool) \<Rightarrow> ('r \<Rightarrow> timeline) \<Rightarrow> ('a, 'x, 'v) bolt_db \<Rightarrow> ('x \<Rightarrow> 'v bolt_data) \<Rightarrow> ('x \<Rightarrow> bool) \<Rightarrow> ('a \<Rightarrow> 'v bolt_data)
    \<Rightarrow> 'v json_codec \<Rightarrow> 'a \<Rightarrow> ('d, 'r, 'a, 'f) world \<Rightarrow> bool" where
  "fresh_start cfg D ok committed tx_view R rinv live B buckets writable stored J file w \<longleftrightarrow>
     Validate cfg = None
     \<and> sql_engine D ok committed tx_view \<and> ok (wDb w) \<and> committed (wDb w) = no_tables
     \<and> redis_store R rinv live \<and> rinv (wRedis w)
     \<and> bolt_store B buckets writable stored J \<and> (\<forall>b. stored file b = None) \<and> snd (OpenBolt B (Inr file)) = Inr (wAudit w)"

lemma fresh_audit:
  assumes "bolt_store B buckets writable stored J" "\<forall>b. stored file b = None" "snd (OpenBolt B (Inr file)) = Inr a"
  shows "audit_ok (stored a)" "audit_entries (stored a) = Map.empty"
proof -
  have "stored a bucketAuditLog = Some (0, Map.empty)"
    using bolt_engine.open_cases [OF bolt_store.axioms(1) [OF assms(1)] assms(3)] assms(2) by simp
  then show "audit_ok (stored a)" "audit_entries (stored a) = Map.empty"
    by (auto simp: audit_ok_def audit_entries_def bolt_rows_def bolt_sequence_def)
qed

lemma fresh_startE:
  assumes "fresh_start cfg D ok committed tx_view R rinv live B buckets writable stored J file w"
  obtains "sql_engine D ok committed tx_view" "ok (wDb w)" "committed (wDb w) = no_tables"
    "on_postgres D (server_app cfg D R B J lib)" "session_store (appAuth (server_app cfg D R B J lib)) rinv live" "rinv (wRedis w)"
    "bolt_store B buckets writable stored J" "audit_ok (stored (wAudit w))" "audit_entries (stored (wAudit w)) = Map.empty"
proof -
  from assms have start: "Validate cfg = None" "sql_engine D ok committed tx_view" "ok (wDb w)"
    "committed (wDb w) = no_tables" "redis_store R rinv live" "rinv (wRedis w)" "bolt_store B buckets writable stored J"
    "\<forall>b. stored file b = None" "snd (OpenBolt B (Inr file)) = Inr (wAudit w)"
    unfolding fresh_start_def by blast+
  show thesis
    by (rule that [OF start(2-4) server_app_stores(1) server_app_sessions [OF start(1,5)] start(6,7) fresh_audit [OF start(7-9)]])
qed

lemma fresh_books:
  assumes "fresh_start cfg D ok committed tx_view R rinv live B buckets writable stored J file w"
    and "\<And>r q. r \<in> set rs \<Longrightarrow> transfer_request r = Some q \<Longrightarrow> sint (rqAmount q) \<noteq> - (2 ^ 63)"
  shows "let T = committed (wDb (served (New cfg D R B J lib) rs w)) in
    money_in cur T = 0 \<and> ledger_ok T \<and> schema_ok T \<and> valid_rows (tbTasks T)"
proof (rule fresh_startE [OF assms(1), of lib])
  assume start: "sql_engine D ok committed tx_view" "ok (wDb w)" "committed (wDb w) = no_tables"
    "on_postgres D (server_app cfg D R B J lib)" "session_store (appAuth (server_app cfg D R B J lib)) rinv live" "rinv (wRedis w)"
  have T: "ledger_ok (committed (wDb w))" "valid_rows (tbTasks (committed (wDb w)))" "money_in cur (committed (wDb w)) = 0"
    by (simp_all add: start(3) no_tables_books)
  show ?thesis
    using serve_all_books [OF start(1,2,4-6) assms(2) T(1,2)] T(3) by (simp add: Let_def served_New)
qed

text \<open>C6: The whole program, started on empty stores with a valid configuration, keeps its books over every run of
  requests in which no body asks for the amount \<open>-(2 ^ 63)\<close>, with which money is lost: the money in every currency adds up to zero, every balance is the sum of its transfers, the
  constraints of the schema hold, every stored task is valid, and the audit log holds records of the
  served requests in their order and nothing else.\<close>

theorem program_keeps_its_books:
  assumes "fresh_start cfg D ok committed tx_view R rinv live B buckets writable stored J file w"
    and "\<And>r q. r \<in> set rs \<Longrightarrow> transfer_request r = Some q \<Longrightarrow> sint (rqAmount q) \<noteq> - (2 ^ 63)"
  shows "let w' = served (New cfg D R B J lib) rs w; T = committed (wDb w') in
    money_in cur T = 0 \<and> ledger_ok T \<and> schema_ok T \<and> valid_rows (tbTasks T)
    \<and> audited J rs Map.empty (audit_entries (stored (wAudit w')))"
proof (rule fresh_startE [OF assms(1), of lib])
  assume "bolt_store B buckets writable stored J" "audit_ok (stored (wAudit w))" "audit_entries (stored (wAudit w)) = Map.empty"
  with serve_all_audit [OF this(1) server_app_stores(2) this(2), of cfg D R lib rs]
  show ?thesis using fresh_books [OF assms] by (simp add: Let_def served_New)
qed

text \<open>C40: No money ever comes in.  Accounts open with nothing and no request pays anything in, so from an empty
  database on, with amounts that are not negative, every balance stays zero: nobody can ever send a
  positive amount.\<close>

theorem no_money_comes_in:
  assumes "fresh_start cfg D ok committed tx_view R rinv live B buckets writable stored J file w"
    and "\<And>r q. r \<in> set rs \<Longrightarrow> transfer_request r = Some q \<Longrightarrow> 0 \<le> sint (rqAmount q)"
  shows "aBalance ` ran (tbAccounts (committed (wDb (served (New cfg D R B J lib) rs w)))) \<subseteq> {0}"
proof (rule fresh_startE [OF assms(1), of lib])
  let ?T = "committed (wDb (served (New cfg D R B J lib) rs w))"
  assume start: "sql_engine D ok committed tx_view" "ok (wDb w)" "committed (wDb w) = no_tables"
    "on_postgres D (server_app cfg D R B J lib)" "session_store (appAuth (server_app cfg D R B J lib)) rinv live" "rinv (wRedis w)"
  have "solvent (committed (wDb w))" by (simp add: start(3) no_tables_books)
  then have solvent: "solvent ?T"
    using serve_all_solvent [OF start(1,2,4-6) assms(2)] by (simp add: served_New)
  have amounts: "sint (rqAmount q) \<noteq> - (2 ^ 63)" if "r \<in> set rs" "transfer_request r = Some q" for r q
    using assms(2) [OF that] by simp
  have "schema_ok ?T" "money_in cur ?T = 0" for cur
    using fresh_books [OF assms(1) amounts, where cur = cur and lib = lib] by (simp_all add: Let_def)
  then have "sint (aBalance a) = 0" if "a \<in> ran (tbAccounts ?T)" for a
    using no_money_no_balance [OF _ solvent] that by (auto simp: ran_def)
  then show ?thesis by (auto simp: int64_eq_iff_sint)
qed

text \<open>On the reference stores and the default configuration: a registration, then an account and a transfer in the
  session of the new user.\<close>

definition default_config :: config where
  "default_config = Load (\<lambda>_ _ _. 0) (\<lambda>_. [])"

definition first_run :: "request list" where
  "first_run =
    [demo_http ''POST'' ''/auth/register'' None (Inr (VObj [(''email'', VStr ''c@x.io''), (''name'', VStr ''Cid''),
       (''password'', VStr ''open-sesame'')])),
     demo_http ''POST'' ''/accounts'' (Some ''abc'') (Inr (VObj [(''currency'', VStr ''USD'')])),
     demo_http ''POST'' ''/accounts/1/transfer'' (Some ''abc'') demo_transfer_body]"

definition first_world :: "(pg, rd, ref_value ref_data, int) world" where
  "first_world = \<lparr>wDb = pg_empty, wRedis = wRedis demo_world, wAudit = demo_bolt, wConn = fresh_conn, wWriters = [],
     wLog = [], wTick = 0, wDraw = 0\<rparr>"

lemma first_start:
  "fresh_start default_config demo_driver pg_inv pgTables pgTx (rd_client no_fault) (\<lambda>_. True) rd_live
     ref_bolt ref_buckets (\<lambda>_. True) ref_buckets ref_codec Map.empty first_world"
  unfolding fresh_start_def
  using load_default_validates pg_engine.sql_engine_axioms rd_store.redis_store_axioms ref_store.bolt_store_axioms
    opened_from_nothing
  by (simp add: default_config_def first_world_def ref_buckets_def) (simp add: pg_empty_def)

text \<open>Read as transfers, the first two bodies ask for nothing.\<close>

lemma first_names:
  "map fold_name [''email'', ''name'', ''password'', ''receiver_account_id'', ''amount'', ''currency'', ''description'']
   = [''EMAIL'', ''NAME'', ''PASSWORD'', ''RECEIVER_ACCOUNT_ID'', ''AMOUNT'', ''CURRENCY'', ''DESCRIPTION'']"
  by (simp add: fold_name_ascii char_of_def bit_simps del: fold_name.simps)

lemma first_bodies: "map (\<lambda>r. map_option rqAmount (transfer_request r)) (take 2 first_run) = [Some 0, Some 0]"
  using first_names
  by (simp add: first_run_def transfer_request_def decode_struct_def transfer_fields_def find_field_def
      set_string_def set_int64_def demo_http_def numeral_2_eq_2 del: fold_name.simps)

lemma first_amounts:
  assumes "r \<in> set first_run" "transfer_request r = Some q"
  shows "sint (rqAmount q) \<noteq> - (2 ^ 63)" "0 \<le> sint (rqAmount q)"
  using assms first_bodies by (auto simp: first_run_def demo_transfer_request demo_request_def)

lemma program_keeps_its_books_witness:
  "let w' = served (New default_config demo_driver (rd_client no_fault) ref_bolt ref_codec bolt_app) first_run first_world in
     money_in ''USD'' (pgTables (wDb w')) = 0 \<and> audited ref_codec first_run Map.empty (audit_entries (ref_buckets (wAudit w')))"
  using program_keeps_its_books [OF first_start first_amounts(1), where cur = "''USD''" and lib = bolt_app] by (simp add: Let_def)

lemma no_money_comes_in_witness:
  "aBalance ` ran (tbAccounts (pgTables (wDb (served
     (New default_config demo_driver (rd_client no_fault) ref_bolt ref_codec bolt_app) first_run first_world)))) \<subseteq> {0}"
  by (rule no_money_comes_in [OF first_start first_amounts(2)])

end
