(* ===== verification/Build.thy ===== *)
theory Build
  imports Domain "HOL-Library.Sublist"
begin

text \<open>
  The build and deployment targets of \<^verbatim>\<open>magefile.go\<close>.  Each target prints, makes a directory and runs
  external commands; it stops at the first that fails.  The machine that does these things is a
  parameter.  The texts are the bytes of their UTF-8 encoding; the file mode \<^verbatim>\<open>0o755\<close> is \<open>0x1ED\<close>.
\<close>

section \<open>The machine\<close>

text \<open>\<^verbatim>\<open>exec.Cmd\<close>: without an environment of its own a command has the one of the process.\<close>

record exec_cmd =
  cmName :: string
  cmArgs :: "string list"
  cmEnv :: "string list option"
  cmStdin :: bool

record 's machine =
  mcGetenv :: "string \<Rightarrow> string"
  mcEnviron :: "string list"
  mcGOOS :: string
  mcPrint :: "string \<Rightarrow> 's \<Rightarrow> 's"
  mcMkdirAll :: "string \<Rightarrow> nat \<Rightarrow> 's \<Rightarrow> 's \<times> go_error option"
  mcRun :: "exec_cmd \<Rightarrow> 's \<Rightarrow> 's \<times> go_error option"

section \<open>Names and texts\<close>

definition binName :: string where "binName = ''specto''"
definition cmdPath :: string where "cmdPath = ''./cmd/specto''"

definition mage_envOr :: "'s machine \<Rightarrow> string \<Rightarrow> string \<Rightarrow> string" where
  "mage_envOr M key fallback = (if mcGetenv M key \<noteq> [] then mcGetenv M key else fallback)"

definition deployHost :: "'s machine \<Rightarrow> string" where "deployHost M = mage_envOr M ''DEPLOY_HOST'' ''prod.example.com''"
definition deployUser :: "'s machine \<Rightarrow> string" where "deployUser M = mage_envOr M ''DEPLOY_USER'' ''specto''"
definition deployDir :: "'s machine \<Rightarrow> string" where "deployDir M = mage_envOr M ''DEPLOY_DIR'' ''/opt/specto''"
definition deployUnit :: "'s machine \<Rightarrow> string" where "deployUnit M = mage_envOr M ''DEPLOY_UNIT'' ''specto''"

text \<open>The triangle and the check mark that open a line, the ellipsis and the line end that close it.\<close>

definition heading :: "string \<Rightarrow> string" where
  "heading s = [CHR 0xE2, CHR 0x96, CHR 0xB6, CHR '' ''] @ s @ [CHR 0xE2, CHR 0x80, CHR 0xA6, CHR 0x0A]"

definition check_mark :: "string \<Rightarrow> string" where
  "check_mark s = [CHR 0xE2, CHR 0x9C, CHR 0x94, CHR '' ''] @ s @ [CHR 0x0A]"

section \<open>The targets\<close>

definition mage_run :: "'s machine \<Rightarrow> string \<Rightarrow> string list \<Rightarrow> 's \<Rightarrow> 's \<times> go_error option" where
  "mage_run M name args = mcRun M \<lparr>cmName = name, cmArgs = args, cmEnv = None, cmStdin = True\<rparr>"

definition runEnv :: "'s machine \<Rightarrow> string list \<Rightarrow> string \<Rightarrow> string list \<Rightarrow> 's \<Rightarrow> 's \<times> go_error option" where
  "runEnv M env name args = mcRun M \<lparr>cmName = name, cmArgs = args, cmEnv = Some (mcEnviron M @ env), cmStdin = False\<rparr>"

definition Dev :: "'s machine \<Rightarrow> 's \<Rightarrow> 's \<times> go_error option" where
  "Dev M s = mage_run M ''go'' [''run'', cmdPath, ''server''] (mcPrint M (heading ''Starting dev server'') s)"

definition Prod :: "'s machine \<Rightarrow> 's \<Rightarrow> 's \<times> go_error option" where
  "Prod M s =
     (let s = mcPrint M (heading ''Building production binary'') s;
          output = ''bin/'' @ binName;
          output = (if mcGOOS M = ''windows'' then output @ ''.exe'' else output) in
      case mcMkdirAll M ''bin'' 0x1ED s of
        (s, Some err) \<Rightarrow> (s, Some err)
      | (s, None) \<Rightarrow> mage_run M ''go'' [''build'', ''-ldflags'', ''-s -w'', ''-trimpath'', ''-o'', output, cmdPath] s)"

definition Test :: "'s machine \<Rightarrow> 's \<Rightarrow> 's \<times> go_error option" where
  "Test M s = mage_run M ''go'' [''test'', ''-count=1'', ''./...''] (mcPrint M (heading ''Running tests'') s)"

definition mage_Seed :: "'s machine \<Rightarrow> 's \<Rightarrow> 's \<times> go_error option" where
  "mage_Seed M s = mage_run M ''go'' [''run'', cmdPath, ''seed''] (mcPrint M (heading ''Running seed'') s)"

text \<open>\<^verbatim>\<open>strings.Join\<close>\<close>

fun Join :: "string list \<Rightarrow> string \<Rightarrow> string" where
  "Join [] sep = []"
| "Join [s] sep = s"
| "Join (s # t # ts) sep = s @ sep @ Join (t # ts) sep"

definition Deploy :: "'s machine \<Rightarrow> 's \<Rightarrow> 's \<times> go_error option" where
  "Deploy M s =
     (let linuxBin = ''bin/'' @ binName;
          s = mcPrint M (heading ''Cross-compiling for linux/amd64'') s in
      case mcMkdirAll M ''bin'' 0x1ED s of
        (s, Some err) \<Rightarrow> (s, Some err)
      | (s, None) \<Rightarrow>
          (case runEnv M [''GOOS=linux'', ''GOARCH=amd64'', ''CGO_ENABLED=0'']
                  ''go'' [''build'', ''-ldflags'', ''-s -w'', ''-trimpath'', ''-o'', linuxBin, cmdPath] s of
             (s, Some err) \<Rightarrow> (s, Some (WrapError ''build'' err))
           | (s, None) \<Rightarrow>
               (let dest = deployUser M @ ''@'' @ deployHost M;
                    s = mcPrint M (heading (''Uploading to '' @ dest @ '':'' @ deployDir M)) s in
                case mage_run M ''rsync'' [''-avz'', ''--progress'', linuxBin, ''deploy/specto.service'', dest @ '':'' @ deployDir M @ ''/''] s of
                  (s, Some err) \<Rightarrow> (s, Some (WrapError ''rsync'' err))
                | (s, None) \<Rightarrow>
                    (let s = mcPrint M (heading ''Restarting systemd unit'') s;
                         remote = Join
                           [''sudo cp '' @ deployDir M @ ''/specto.service /etc/systemd/system/'' @ deployUnit M @ ''.service'',
                            ''sudo systemctl daemon-reload'',
                            ''sudo systemctl enable '' @ deployUnit M,
                            ''sudo systemctl restart '' @ deployUnit M,
                            ''sudo systemctl status '' @ deployUnit M @ '' --no-pager''] '' && '' in
                     case mage_run M ''ssh'' [dest, remote] s of
                       (s, Some err) \<Rightarrow> (s, Some (WrapError ''remote restart'' err))
                     | (s, None) \<Rightarrow> (mcPrint M (check_mark ''Deploy complete'') s, None)))))"

section \<open>A deployment that fails stops\<close>

text \<open>A machine that keeps what it was asked to do; \<open>answer\<close> is how its commands end.\<close>

datatype mage_event = Printed string | MadeDir string nat | Ran exec_cmd

definition recording :: "(string \<Rightarrow> string) \<Rightarrow> string list \<Rightarrow> string \<Rightarrow> go_error option \<Rightarrow> (exec_cmd \<Rightarrow> go_error option) \<Rightarrow> mage_event list machine" where
  "recording env all os mkdir answer =
     \<lparr>mcGetenv = env, mcEnviron = all, mcGOOS = os, mcPrint = \<lambda>t es. es @ [Printed t],
      mcMkdirAll = \<lambda>p m es. (es @ [MadeDir p m], mkdir), mcRun = \<lambda>c es. (es @ [Ran c], answer c)\<rparr>"

text \<open>The three commands of a deployment.\<close>

definition build_cmd :: "'s machine \<Rightarrow> exec_cmd" where
  "build_cmd M = \<lparr>cmName = ''go'',
     cmArgs = [''build'', ''-ldflags'', ''-s -w'', ''-trimpath'', ''-o'', ''bin/'' @ binName, cmdPath],
     cmEnv = Some (mcEnviron M @ [''GOOS=linux'', ''GOARCH=amd64'', ''CGO_ENABLED=0'']), cmStdin = False\<rparr>"

definition upload_cmd :: "'s machine \<Rightarrow> exec_cmd" where
  "upload_cmd M = \<lparr>cmName = ''rsync'',
     cmArgs = [''-avz'', ''--progress'', ''bin/'' @ binName, ''deploy/specto.service'',
       (deployUser M @ ''@'' @ deployHost M) @ '':'' @ deployDir M @ ''/''], cmEnv = None, cmStdin = True\<rparr>"

definition restart_cmd :: "'s machine \<Rightarrow> exec_cmd" where
  "restart_cmd M = \<lparr>cmName = ''ssh'', cmArgs = [deployUser M @ ''@'' @ deployHost M, Join
       [''sudo cp '' @ deployDir M @ ''/specto.service /etc/systemd/system/'' @ deployUnit M @ ''.service'',
        ''sudo systemctl daemon-reload'', ''sudo systemctl enable '' @ deployUnit M,
        ''sudo systemctl restart '' @ deployUnit M, ''sudo systemctl status '' @ deployUnit M @ '' --no-pager''] '' && ''],
     cmEnv = None, cmStdin = True\<rparr>"

definition commands_run :: "mage_event list \<Rightarrow> exec_cmd list" where
  "commands_run es = concat (map (\<lambda>e. case e of Ran c \<Rightarrow> [c] | _ \<Rightarrow> []) es)"

text \<open>The steps of a deployment as a list: it runs the longest prefix whose commands, the last apart, succeed.\<close>

fun run_until_failure :: "(exec_cmd \<Rightarrow> go_error option) \<Rightarrow> exec_cmd list \<Rightarrow> exec_cmd list" where
  "run_until_failure answer [] = []"
| "run_until_failure answer (c # cs) = c # (if answer c = None then run_until_failure answer cs else [])"

lemma run_until_failure_prefix: "prefix (run_until_failure answer cs) cs"
  by (induction cs) auto

text \<open>A deployment builds, uploads and restarts, in this order, and stops at the first command that fails;
  it reports success exactly when the directory was made and all three commands ended without an error.\<close>

lemma deploy_stops_at_failure:
  fixes env all os mkdir answer
  defines "M \<equiv> recording env all os mkdir answer"
  assumes "Deploy M [] = (es, r)"
  shows "commands_run es = (if mkdir = None then run_until_failure answer [build_cmd M, upload_cmd M, restart_cmd M] else [])"
    and "r = None \<longleftrightarrow> mkdir = None \<and> (\<forall>c \<in> {build_cmd M, upload_cmd M, restart_cmd M}. answer c = None)"
proof -
  have M: "mcPrint M t es = es @ [Printed t]" "mcMkdirAll M p m es = (es @ [MadeDir p m], mkdir)"
    "mcRun M c es = (es @ [Ran c], answer c)" for t es p m c
    by (simp_all add: M_def recording_def)
  note steps = assms(2) [unfolded Deploy_def Let_def runEnv_def mage_run_def M,
      folded build_cmd_def upload_cmd_def restart_cmd_def]
  show "commands_run es = (if mkdir = None then run_until_failure answer [build_cmd M, upload_cmd M, restart_cmd M] else [])"
    "r = None \<longleftrightarrow> mkdir = None \<and> (\<forall>c \<in> {build_cmd M, upload_cmd M, restart_cmd M}. answer c = None)"
    using steps by (auto simp: commands_run_def split: option.splits)
qed

end
