(* ===== verification/Sessions_Kept.thy ===== *)
theory Sessions_Kept
  imports Server_Runs
begin

text \<open>
  What runs of requests do to sessions.  Whom a cookie can stand for is an invariant of the whole server: a session
  never passes to another user, and one that is over stays over, whatever is served in between.
\<close>

section \<open>Whom a cookie can stand for\<close>

text \<open>From now on \<open>v\<close> stands for \<open>u\<close> or nobody, and no later draw of the random source is \<open>v\<close> again.\<close>

definition stands_at_most :: "('d, 'r, 'a, 'f) app \<Rightarrow> ('r \<Rightarrow> bool) \<Rightarrow> ('r \<Rightarrow> timeline) \<Rightarrow> string \<Rightarrow> int64 option
    \<Rightarrow> ('d, 'r, 'a, 'f) world \<Rightarrow> bool" where
  "stands_at_most A rinv live v u w \<longleftrightarrow> session_store (appAuth A) rinv live \<and> mono (appClock A) \<and> rinv (wRedis w)
     \<and> (\<forall>t \<ge> appClock A (wTick w). session_of (appAuth A) (live (wRedis w)) t v \<in> {None, u})
     \<and> (\<forall>n \<ge> wDraw w. \<forall>b. appRandom A n = Inr b \<longrightarrow> hex_encode b \<noteq> v)"

named_theorems kept

lemma kept_step:
  assumes "stands_at_most A rinv live v u w" "wTick w \<le> wTick w'" "wDraw w \<le> wDraw w'" "rinv (wRedis w')"
    and "\<And>t. appClock A (wTick w') \<le> t \<Longrightarrow>
      session_of (appAuth A) (live (wRedis w')) t v \<in> {None, session_of (appAuth A) (live (wRedis w)) t v}"
  shows "stands_at_most A rinv live v u w'"
proof -
  have "appClock A (wTick w) \<le> appClock A (wTick w')"
    using assms(1,2) by (simp add: stands_at_most_def mono_def)
  then have "session_of (appAuth A) (live (wRedis w')) t v \<in> {None, u}" if "appClock A (wTick w') \<le> t" for t
    using that assms(1) assms(5) [OF that] unfolding stands_at_most_def by (metis empty_iff insert_iff order_trans)
  moreover have "hex_encode b \<noteq> v" if "wDraw w' \<le> n" "appRandom A n = Inr b" for n b
    using assms(1) order_trans [OF assms(3) that(1)] that(2) unfolding stands_at_most_def by blast
  ultimately show ?thesis using assms(1,4) unfolding stands_at_most_def by blast
qed

lemma kept_same:
  assumes "stands_at_most A rinv live v u w" "wRedis w' = wRedis w" "wTick w \<le> wTick w'" "wDraw w \<le> wDraw w'"
  shows "stands_at_most A rinv live v u w'"
  using assms(1) by (rule kept_step) (use assms in \<open>simp_all add: stands_at_most_def\<close>)

lemma draw_frame [simp]:
  "wDraw (log_event l w) = wDraw w" "wDraw (set_header k s w) = wDraw w" "wDraw (del_header k w) = wDraw w"
  "wDraw (set_cookie ck w) = wDraw w" "wDraw (write_header code w) = wDraw w" "wDraw (write_body b w) = wDraw w"
  "wDraw (http_Error msg code w) = wDraw w" "wDraw (respondJSON A code p w) = wDraw w"
  "wDraw (respondError A code msg w) = wDraw w" "wDraw (handleServiceError A err w) = wDraw w"
  "wDraw (auth_clear A w) = wDraw w" "wTick (auth_clear A w) = wTick w"
  "wDraw (push_writer w) = wDraw w" "wDraw (pop_writer w) = wDraw w"
  by (simp_all add: log_event_def set_header_def del_header_def set_cookie_def write_eq http_Error_def respondJSON_def
      respondError_def handleServiceError_def auth_clear_def push_writer_def pop_writer_def Let_def split: option.split)

lemma kept_plain [kept]:
  assumes "stands_at_most A rinv live v u w"
  shows "stands_at_most A rinv live v u (log_event l w)" "stands_at_most A rinv live v u (set_header k s w)"
    "stands_at_most A rinv live v u (set_cookie ck w)" "stands_at_most A rinv live v u (write_header code w)"
    "stands_at_most A rinv live v u (http_Error msg code w)" "stands_at_most A rinv live v u (respondJSON B code p w)"
    "stands_at_most A rinv live v u (respondError B code msg w)" "stands_at_most A rinv live v u (handleServiceError B err w)"
    "stands_at_most A rinv live v u (auth_clear B w)" "stands_at_most A rinv live v u (push_writer w)"
    "stands_at_most A rinv live v u (pop_writer w)" "stands_at_most A rinv live v u (w\<lparr>wDb := d\<rparr>)"
    "stands_at_most A rinv live v u (w\<lparr>wTick := Suc (wTick w)\<rparr>)" "stands_at_most A rinv live v u (w\<lparr>wDraw := Suc (wDraw w)\<rparr>)"
    "stands_at_most A rinv live v u (w\<lparr>wLog := l'\<rparr>)" "stands_at_most A rinv live v u (w\<lparr>wAudit := a\<rparr>)"
    "stands_at_most A rinv live v u (accept w)" "stands_at_most A rinv live v u (with_headers w)"
    "stands_at_most A rinv live v u (write_body c w)"
  by (rule kept_same [OF assms]; simp add: accept_def with_headers_def secure_headers_def)+

section \<open>The session manager\<close>

lemma kept_lookup:
  assumes "stands_at_most A rinv live v u w"
  shows "stands_at_most A rinv live v u
    (w\<lparr>wTick := Suc (wTick w), wRedis := fst (userIDFromCookieValue (appAuth A) (appClock A (wTick w)) c (wRedis w))\<rparr>)"
    (is "stands_at_most _ _ _ _ _ ?w")
proof -
  note st = assms [unfolded stands_at_most_def]
  obtain s x where run: "userIDFromCookieValue (appAuth A) (appClock A (wTick w)) c (wRedis w) = (s, x)" by fastforce
  have "rinv s" and on: "from_on (appClock A (wTick w)) (live s) (live (wRedis w))"
    using session_store.lookup_cases [of "appAuth A" rinv live _ "appClock A (wTick w)" c, OF _ _ run] st by blast+
  moreover have "appClock A (wTick w) \<le> t" if "appClock A (Suc (wTick w)) \<le> t" for t
    using st that monoD [of "appClock A" "wTick w" "Suc (wTick w)"] by simp
  ultimately show ?thesis using run session_of_from_on [OF on] by (intro kept_step [OF assms]) auto
qed

lemma kept_authenticate [kept]:
  assumes "auth_authenticate A r w = (w', x)" "stands_at_most A rinv live v u w"
  shows "stands_at_most A rinv live v u w'"
proof (cases "rqCookie r")
  case None
  then show ?thesis using assms by (simp add: auth_authenticate_def)
next
  case (Some c)
  note looked = kept_lookup [OF assms(2), of c]
  show ?thesis using assms(1) Some looked kept_plain(12) [OF looked]
    by (auto simp: auth_authenticate_def time_Now_def on_redis_eq on_db_eq split: sum.splits)
qed

lemma build_others:
  assumes "session_store sm rinv live" "rinv s" "buildCookieValue sm rnd now uid expires s = (s', r)"
    and "\<And>b. rnd = Inr b \<Longrightarrow> hex_encode b \<noteq> v" "now \<le> t"
  shows "rinv s' \<and> session_of sm (live s') t v = session_of sm (live s) t v"
proof (cases "\<exists>R b. smRedis sm = Some R \<and> rnd = Inr b")
  case False
  then have "s' = s" using assms(3) by (auto simp: buildCookieValue_def randomSessionID_def split: option.splits sum.splits)
  then show ?thesis using assms(2) by simp
next
  case True
  then obtain R b where R: "smRedis sm = Some R" "rnd = Inr b" by blast
  note store = session_store.redis [OF assms(1) R(1)] and ttl = session_store.ttl [OF assms(1)]
  obtain s1 q where set: "redisSet R (sessionRedisKey (hex_encode b)) (FormatInt uid) (smTTL sm) now s = (s1, q)" by fastforce
  have "s' = s1" using assms(3) R set by (cases q) (auto simp: buildCookieValue_def randomSessionID_def)
  moreover have "rinv s1"
    using redis_store.set_ok [OF store assms(2) ttl] redis_store.set_error [OF store assms(2) ttl] set by (cases q) blast+
  moreover have "live s1 t (sessionRedisKey v) = live s t (sessionRedisKey v)"
    using redis_store.set_others [OF store assms(2) ttl set _ assms(5)] assms(4) [OF R(2)] by simp
  ultimately show ?thesis using R(1) by (simp add: session_of_def)
qed

lemma kept_issue [kept]:
  assumes "auth_issue A uid w = (w', e)" "stands_at_most A rinv live v u w"
  shows "stands_at_most A rinv live v u w'"
proof -
  note st = assms(2) [unfolded stands_at_most_def]
  obtain s q where run: "buildCookieValue (appAuth A) (appRandom A (wDraw w)) (appClock A (Suc (wTick w))) uid
      (appClock A (wTick w) + smTTL (appAuth A)) (wRedis w) = (s, q)" by fastforce
  have w': "wRedis w' = s" "wTick w' = Suc (Suc (wTick w))" "wDraw w' = Suc (wDraw w)"
    using assms(1) run
    by (auto simp: auth_issue_def issue_def time_Now_def on_redis_eq Let_def set_cookie_def split: sum.splits)
  have fresh: "hex_encode b \<noteq> v" if "appRandom A (wDraw w) = Inr b" for b using st that by blast
  have sm: "session_store (appAuth A) rinv live" "rinv (wRedis w)" using st by blast+
  note others = build_others [OF sm run fresh]
  have "rinv s" using others [OF _ order_refl] by blast
  moreover have "appClock A (Suc (wTick w)) \<le> t" if "appClock A (Suc (Suc (wTick w))) \<le> t" for t
    using st that monoD [of "appClock A" "Suc (wTick w)" "Suc (Suc (wTick w))"] by simp
  then have "session_of (appAuth A) (live s) t v = session_of (appAuth A) (live (wRedis w)) t v"
    if "appClock A (Suc (Suc (wTick w))) \<le> t" for t
    using others that by blast
  ultimately show ?thesis using w' by (intro kept_step [OF assms(2)]) simp_all
qed

lemma kept_revoke [kept]:
  assumes "stands_at_most A rinv live v u w"
  shows "stands_at_most A rinv live v u (auth_revoke A r w)"
proof -
  note st = assms [unfolded stands_at_most_def]
  let ?s = "revoke (appAuth A) (appClock A (wTick w)) (rqCookie r) (wRedis w)"
  have sm: "session_store (appAuth A) rinv live" "rinv (wRedis w)" using st by blast+
  note revoked = session_store.revoke_cases [OF sm refl, of "appClock A (wTick w)" "rqCookie r"]
  have "appClock A (wTick w) \<le> t" if "appClock A (Suc (wTick w)) \<le> t" for t
    using st that monoD [of "appClock A" "wTick w" "Suc (wTick w)"] by simp
  then show ?thesis using revoked by (intro kept_step [OF assms]) (auto simp: auth_revoke_def time_Now_def)
qed

section \<open>Handlers\<close>

lemma kept_on_db [kept]: "on_db f w = (w', x) \<Longrightarrow> stands_at_most A rinv live v u w \<Longrightarrow> stands_at_most A rinv live v u w'"
  by (auto simp: on_db_eq intro: kept)

lemma kept_taskForUser [kept]:
  "taskForUser A i uid w = (w', x) \<Longrightarrow> stands_at_most A rinv live v u w \<Longrightarrow> stands_at_most A rinv live v u w'"
  by (auto simp: taskForUser_def split: prod.splits sum.splits if_splits intro: kept)

lemma kept_tasks [kept]:
  assumes "stands_at_most A rinv live v u w"
  shows "stands_at_most A rinv live v u (handleTaskList A r w)" "stands_at_most A rinv live v u (handleTaskGet A r w)"
    "stands_at_most A rinv live v u (handleTaskStats A r w)" "stands_at_most A rinv live v u (handleTaskCreate A r w)"
  using assms by (auto simp: handleTaskList_def handleTaskGet_def handleTaskStats_def handleTaskCreate_def Let_def
      intro: kept split: option.split prod.split sum.split)

lemma kept_task_writes [kept]:
  assumes "stands_at_most A rinv live v u w"
  shows "stands_at_most A rinv live v u (handleTaskUpdate A r w)" "stands_at_most A rinv live v u (handleTaskDelete A r w)"
  using assms by (auto simp: handleTaskUpdate_def handleTaskDelete_def Let_def
      intro: kept split: option.split prod.split sum.split)

lemma kept_banking [kept]:
  assumes "stands_at_most A rinv live v u w"
  shows "stands_at_most A rinv live v u (handleAccountList A r w)" "stands_at_most A rinv live v u (handleAccountCreate A r w)"
    "stands_at_most A rinv live v u (handleTransferCreate A r w)"
  using assms by (auto simp: handleAccountList_def handleAccountCreate_def handleTransferCreate_def
      intro: kept split: option.split prod.split sum.split)

lemma kept_auth [kept]:
  assumes "stands_at_most A rinv live v u w"
  shows "stands_at_most A rinv live v u (handleHealth A r w)" "stands_at_most A rinv live v u (handleAuthMe A r w)"
    "stands_at_most A rinv live v u (handleAuthLogout A r w)"
  using assms by (auto simp: handleHealth_def handleAuthMe_def handleAuthLogout_def intro: kept split: option.split)

lemma kept_register [kept]:
  assumes "stands_at_most A rinv live v u w"
  shows "stands_at_most A rinv live v u (handleAuthRegister A r w)"
  using assms by (auto simp: handleAuthRegister_def Let_def intro!: kept_plain dest!: kept_on_db kept_issue split: option.split prod.split sum.split)

lemma kept_login [kept]:
  assumes "stands_at_most A rinv live v u w"
  shows "stands_at_most A rinv live v u (handleAuthLogin A r w)"
  using assms by (auto simp: handleAuthLogin_def intro!: kept_plain dest!: kept_on_db kept_issue split: option.split prod.split sum.split)

lemma kept_requireAuth [kept]:
  assumes "\<And>r w. stands_at_most A rinv live v u w \<Longrightarrow> stands_at_most A rinv live v u (handler A r w)"
    and "stands_at_most A rinv live v u w"
  shows "stands_at_most A rinv live v u (requireAuth handler A r w)"
proof -
  obtain w1 x where run: "auth_authenticate A r w = (w1, x)" by fastforce
  have "stands_at_most A rinv live v u w1" by (rule kept_authenticate [OF run assms(2)])
  then show ?thesis using run assms(1) by (auto simp: requireAuth_def intro: kept_plain split: sum.split)
qed

lemma kept_endpoint [kept]: "stands_at_most A rinv live v u w \<Longrightarrow> stands_at_most A rinv live v u (endpoint_serve ep A r w)"
  by (cases ep) (simp_all add: kept)

lemma kept_mux [kept]: "stands_at_most A rinv live v u w \<Longrightarrow> stands_at_most A rinv live v u (mux_serve A r w)"
  by (auto simp: mux_serve_routed split: option.split intro: kept)

section \<open>The stack\<close>

lemma kept_counter:
  assumes "stands_at_most A rinv live v u w" "smRedis (appAuth A) = Some R"
    and "incrementRateCounter R (rateLimitKey addr now) (appClock A (Suc (wTick w))) (appClock A (Suc (Suc (wTick w)))) (wRedis w)
      = (s, count, ws)"
  shows "stands_at_most A rinv live v u (w\<lparr>wTick := Suc (Suc (Suc (wTick w))), wRedis := s, wLog := wLog w @ ws\<rparr>)"
proof -
  note st = assms(1) [unfolded stands_at_most_def]
  let ?k = "rateLimitKey addr now" and ?c = "\<lambda>n. appClock A (wTick w + n)"
  have store: "redis_store R rinv live" and inv: "rinv (wRedis w)" and mono: "mono (appClock A)"
    using st session_store.redis [OF _ assms(2)] by blast+
  have other: "sessionRedisKey v \<noteq> ?k" by (simp add: sessionRedisKey_def rateLimitKey_def)
  obtain s1 q where incr: "redisIncr R ?k (?c 1) (wRedis w) = (s1, q)" by fastforce
  obtain s2 p where expire: "redisExpire R ?k (120 * nanos_per_second) (?c 2) s1 = (s2, p)" by fastforce
  have pos: "0 < 120 * nanos_per_second" by simp
  have inv1: "rinv s1"
    using redis_store.incr_ok [OF store inv] redis_store.incr_error [OF store inv] incr by (cases q) blast+
  have later: "?c 1 \<le> t" "?c 2 \<le> t" if "?c 3 \<le> t" for t
    using that monoD [OF mono, of "wTick w + 1" "wTick w + 3"] monoD [OF mono, of "wTick w + 2" "wTick w + 3"] by simp_all
  have "live s1 t (sessionRedisKey v) = live (wRedis w) t (sessionRedisKey v)"
    "live s2 t (sessionRedisKey v) = live s1 t (sessionRedisKey v)" if "?c 3 \<le> t" for t
    using redis_store.incr_others [OF store inv incr other later(1) [OF that]]
      redis_store.expire_others [OF store inv1 pos expire other later(2) [OF that]] by simp_all
  moreover have "s = s1 \<or> s = s2"
    using assms(3) incr expire by (auto simp: incrementRateCounter_def split: sum.splits if_splits)
  ultimately have "live s t (sessionRedisKey v) = live (wRedis w) t (sessionRedisKey v)" if "?c 3 \<le> t" for t
    using that by auto
  moreover have "rinv s" using redis_store.incrementRateCounter_inv [OF store inv] assms(3) by (metis fst_conv)
  ultimately show ?thesis using assms(2) by (intro kept_step [OF assms(1)]) (simp_all add: session_of_def numeral_3_eq_3)
qed

text \<open>Handlers that keep it, and handlers that turn down a request whose cookie stands for nobody.\<close>

definition keeping :: "('d, 'r, 'a, 'f) app \<Rightarrow> ('r \<Rightarrow> bool) \<Rightarrow> ('r \<Rightarrow> timeline) \<Rightarrow> string \<Rightarrow> int64 option
    \<Rightarrow> ('d, 'r, 'a, 'f) handler \<Rightarrow> bool" where
  "keeping A rinv live v u h \<longleftrightarrow>
     (\<forall>r w. stands_at_most A rinv live v u w \<longrightarrow> stands_at_most A rinv live v u (fst (h r w)))"

definition turns_down :: "('d, 'r, 'a, 'f) app \<Rightarrow> ('r \<Rightarrow> bool) \<Rightarrow> ('r \<Rightarrow> timeline) \<Rightarrow> string \<Rightarrow> request
    \<Rightarrow> ('d, 'r, 'a, 'f) handler \<Rightarrow> bool" where
  "turns_down A rinv live v r h \<longleftrightarrow> (\<forall>w. stands_at_most A rinv live v None w \<and> cnSent (wConn w) = None \<longrightarrow>
     (\<exists>w'. h r w = (w', Returned) \<and> wDb w' = wDb w \<and> final_status (wConn w') \<in> {401, 429}))"

lemma turns_downI:
  assumes "\<And>w. stands_at_most A rinv live v None w \<Longrightarrow> cnSent (wConn w) = None \<Longrightarrow>
    \<exists>w'. h r w = (w', Returned) \<and> wDb w' = wDb w \<and> final_status (wConn w') \<in> {401, 429}"
  shows "turns_down A rinv live v r h"
  using assms unfolding turns_down_def by blast

lemma turned_down:
  assumes "turns_down A rinv live v r h" "stands_at_most A rinv live v None w" "cnSent (wConn w) = None"
  obtains w' where "h r w = (w', Returned)" "wDb w' = wDb w" "final_status (wConn w') \<in> {401, 429}"
  using assms unfolding turns_down_def by blast

lemma keeping_result: "keeping A rinv live v u h \<Longrightarrow> h r w = (w', out) \<Longrightarrow> stands_at_most A rinv live v u w
    \<Longrightarrow> stands_at_most A rinv live v u w'"
  unfolding keeping_def by (metis fst_conv)

lemma keeping_layers:
  assumes "keeping A rinv live v u h"
  shows "keeping A rinv live v u (Recovery h)" "keeping A rinv live v u (SecureHeaders h)" "keeping A rinv live v u (Logging A h)"
    "keeping A rinv live v u (AuditTrail A h)"
proof -
  note h = keeping_result [OF assms]
  show "keeping A rinv live v u (Recovery h)"
    by (auto simp: keeping_def Recovery_def intro!: kept_plain dest!: h split: prod.split outcome.split)
  show "keeping A rinv live v u (SecureHeaders h)"
    using assms by (simp add: keeping_def SecureHeaders_eq kept_plain)
  show "keeping A rinv live v u (Logging A h)" unfolding keeping_def
  proof (intro allI impI)
    fix r w
    assume st: "stands_at_most A rinv live v u w"
    obtain w1 o1 where run: "h r (push_writer (w\<lparr>wTick := Suc (wTick w)\<rparr>)) = (w1, o1)" by fastforce
    have "stands_at_most A rinv live v u w1" by (rule h [OF run]) (intro kept_plain st)
    then show "stands_at_most A rinv live v u (fst (Logging A h r w))" using run
      by (cases o1) (simp_all add: Logging_def time_Now_def kept_plain)
  qed
  show "keeping A rinv live v u (AuditTrail A h)" unfolding keeping_def
  proof (intro allI impI)
    fix r w
    assume st: "stands_at_most A rinv live v u w"
    obtain w1 o1 where run: "h r (push_writer w) = (w1, o1)" by fastforce
    have "stands_at_most A rinv live v u w1" by (rule h [OF run]) (intro kept_plain st)
    then show "stands_at_most A rinv live v u (fst (AuditTrail A h r w))" using run st assms
      by (cases o1) (auto simp: AuditTrail_def time_Now_def keeping_def Let_def intro!: kept_plain
          split: option.split prod.split sum.split)
  qed
qed

lemma limiter_kept:
  assumes "keeping A rinv live v u h"
  shows "keeping A rinv live v u (RedisRateLimit A (smRedis (appAuth A)) limit h)"
  unfolding keeping_def
proof (intro allI impI)
  fix r w
  assume st: "stands_at_most A rinv live v u w"
  show "stands_at_most A rinv live v u (fst (RedisRateLimit A (smRedis (appAuth A)) limit h r w))"
  proof (cases "\<exists>R. smRedis (appAuth A) = Some R \<and> \<not> sint limit \<le> 0")
    case False
    then show ?thesis using assms st by (auto simp: RedisRateLimit_def keeping_def split: option.split)
  next
    case True
    then obtain R where R: "smRedis (appAuth A) = Some R" "\<not> sint limit \<le> 0" by blast
    obtain s count ws where inc: "incrementRateCounter R (rateLimitKey (rqRemoteAddr r) (appClock A (wTick w)))
        (appClock A (Suc (wTick w))) (appClock A (Suc (Suc (wTick w)))) (wRedis w) = (s, count, ws)"
      by (rule prod_cases3)
    note st1 = kept_counter [OF st R(1) inc]
    show ?thesis using R inc st1 kept_plain(13) [OF st1] assms
      by (cases count) (auto simp: RedisRateLimit_def time_Now_def Let_def keeping_def writeRateLimitResponse_def
          intro!: kept_plain)
  qed
qed

lemma router_kept: "keeping A rinv live v u (NewRouter A)"
  unfolding NewRouter_stack middleware_stack_def
  by (intro keeping_layers limiter_kept) (simp add: keeping_def mux_handler_def kept_mux)

lemma served_kept:
  "stands_at_most A rinv live v u w \<Longrightarrow> stands_at_most A rinv live v u (serve_all A rs w)"
proof (induction rs arbitrary: w)
  case Nil
  then show ?case by (simp add: serve_all_def)
next
  case (Cons r rs)
  have "stands_at_most A rinv live v u (serve_request A r w)"
    unfolding serve_request_def
    by (rule keeping_result [OF router_kept surjective_pairing]) (rule kept_plain(17) [OF Cons.prems])
  then show ?case using Cons.IH by (simp add: serve_all_def)
qed

section \<open>Turned down\<close>

lemma requireAuth_turns_down:
  assumes "rqCookie r = Some v" "stands_at_most A rinv live v None w" "cnSent (wConn w) = None"
  shows "wDb (requireAuth handler A r w) = wDb w \<and> final_status (wConn (requireAuth handler A r w)) = 401"
proof -
  note st = assms(2) [unfolded stands_at_most_def]
  let ?now = "appClock A (wTick w)"
  obtain s x where run: "userIDFromCookieValue (appAuth A) ?now v (wRedis w) = (s, x)" by fastforce
  have sm: "session_store (appAuth A) rinv live" "rinv (wRedis w)" using st by blast+
  have "session_of (appAuth A) (live (wRedis w)) ?now v = None" using st by blast
  then obtain e where x: "x = Inl e" using session_store.lookup_cases [OF sm run] by (cases x) auto
  let ?w = "w\<lparr>wTick := Suc (wTick w), wRedis := s\<rparr>"
  have "requireAuth handler A r w = respondError A 401 authenticationRequiredMessage (auth_clear A ?w)"
    using assms(1) run x by (simp add: requireAuth_def auth_authenticate_def time_Now_def on_redis_eq)
  moreover have "cnSent (wConn (auth_clear A ?w)) = None" using assms(3) by (simp add: auth_clear_def set_cookie_def)
  ultimately show ?thesis using respondError_status(1) [of "auth_clear A ?w" A 401] by simp
qed

lemma mux_turns_down:
  assumes "rqCookie r = Some v" "routed r = Some (ep, bs)" "ep \<notin> {EpHealth, EpRegister, EpLogin, EpLogout}"
  shows "turns_down A rinv live v r (mux_handler A)"
proof (rule turns_downI)
  fix w
  assume st: "stands_at_most A rinv live v None w" "cnSent (wConn w) = None"
  obtain handler where "mux_serve A r w = requireAuth handler A (with_path bs r) w"
    using assms(2,3) by (cases ep) (auto simp: mux_serve_routed)
  moreover have "rqCookie (with_path bs r) = Some v" using assms(1) by (simp add: with_path_def)
  ultimately show "\<exists>w'. mux_handler A r w = (w', Returned) \<and> wDb w' = wDb w \<and> final_status (wConn w') \<in> {401, 429}"
    using requireAuth_turns_down [of "with_path bs r" v A rinv live w] st by (simp add: mux_handler_def)
qed

lemma layers_turn_down:
  assumes "turns_down A rinv live v r h"
  shows "turns_down A rinv live v r (Recovery h)" "turns_down A rinv live v r (SecureHeaders h)"
    "turns_down A rinv live v r (Logging A h)" "turns_down A rinv live v r (AuditTrail A h)"
proof -
  show "turns_down A rinv live v r (Recovery h)"
    by (rule turns_downI, erule (1) turned_down [OF assms]) (simp add: Recovery_def)
  show "turns_down A rinv live v r (SecureHeaders h)"
  proof (rule turns_downI)
    fix w
    assume st: "stands_at_most A rinv live v None w" "cnSent (wConn w) = None"
    then have "cnSent (wConn (with_headers w)) = None" by simp
    then show "\<exists>w'. SecureHeaders h r w = (w', Returned) \<and> wDb w' = wDb w \<and> final_status (wConn w') \<in> {401, 429}"
      by (rule turned_down [OF assms kept_plain(18) [OF st(1)]]) (simp add: SecureHeaders_eq)
  qed
  show "turns_down A rinv live v r (Logging A h)"
  proof (rule turns_downI)
    fix w
    assume st: "stands_at_most A rinv live v None w" "cnSent (wConn w) = None"
    then have "cnSent (wConn (push_writer (w\<lparr>wTick := Suc (wTick w)\<rparr>))) = None" by simp
    then show "\<exists>w'. Logging A h r w = (w', Returned) \<and> wDb w' = wDb w \<and> final_status (wConn w') \<in> {401, 429}"
      by (rule turned_down [OF assms kept_plain(10) [OF kept_plain(13) [OF st(1)]]]) (simp add: Logging_def time_Now_def)
  qed
  show "turns_down A rinv live v r (AuditTrail A h)"
  proof (rule turns_downI)
    fix w
    assume st: "stands_at_most A rinv live v None w" "cnSent (wConn w) = None"
    then have sent: "cnSent (wConn (push_writer w)) = None" by simp
    show "\<exists>w'. AuditTrail A h r w = (w', Returned) \<and> wDb w' = wDb w \<and> final_status (wConn w') \<in> {401, 429}"
    proof (cases "appAudit A")
      case None
      then have "AuditTrail A h r w = h r w" by (simp add: AuditTrail_def)
      then show ?thesis by (simp only:) (rule turned_down [OF assms st], blast)
    next
      case (Some store)
      obtain w1 where w1: "h r (push_writer w) = (w1, Returned)" "wDb w1 = wDb w" "final_status (wConn w1) \<in> {401, 429}"
        by (rule turned_down [OF assms kept_plain(10) [OF st(1)] sent]) simp
      let ?rec = "\<lparr>arTimestamp = appClock A (wTick w1), arMethod = rqMethod r, arPath = rqPath r,
        arRemote = clientIP (rqRemoteAddr r), arStatus = of_nat (rwStatus (hd (wWriters w1)))\<rparr>"
      obtain a x where stored: "store ?rec (wAudit w1) = (a, x)" by fastforce
      show ?thesis using Some w1 stored
        by (cases x) (simp_all add: AuditTrail_def time_Now_def Let_def)
    qed
  qed
qed

lemma limiter_turns_down:
  assumes "turns_down A rinv live v r h"
  shows "turns_down A rinv live v r (RedisRateLimit A (smRedis (appAuth A)) limit h)"
proof (rule turns_downI)
  fix w
  assume st: "stands_at_most A rinv live v None w" "cnSent (wConn w) = None"
  show "\<exists>w'. RedisRateLimit A (smRedis (appAuth A)) limit h r w = (w', Returned) \<and> wDb w' = wDb w
    \<and> final_status (wConn w') \<in> {401, 429}"
  proof (cases "\<exists>R. smRedis (appAuth A) = Some R \<and> \<not> sint limit \<le> 0")
    case False
    then have "RedisRateLimit A (smRedis (appAuth A)) limit h r w = h r w" by (auto simp: RedisRateLimit_def split: option.split)
    then show ?thesis using turned_down [OF assms st] by metis
  next
    case True
    then obtain R where R: "smRedis (appAuth A) = Some R" "\<not> sint limit \<le> 0" by blast
    obtain s count ws where inc: "incrementRateCounter R (rateLimitKey (rqRemoteAddr r) (appClock A (wTick w)))
        (appClock A (Suc (wTick w))) (appClock A (Suc (Suc (wTick w)))) (wRedis w) = (s, count, ws)"
      by (rule prod_cases3)
    let ?w = "w\<lparr>wTick := Suc (Suc (Suc (wTick w))), wRedis := s, wLog := wLog w @ ws\<rparr>"
    show ?thesis
    proof (cases "\<exists>n. count = Inr n \<and> isRateLimited n limit")
      case True
      let ?v = "?w\<lparr>wTick := Suc (wTick ?w)\<rparr>"
      have "RedisRateLimit A (smRedis (appAuth A)) limit h r w = (writeRateLimitResponse (appClock A (wTick ?w)) ?v, Returned)"
        using R inc True by (auto simp: RedisRateLimit_def time_Now_def Let_def)
      moreover have "final_status (wConn (writeRateLimitResponse now ?v)) = 429" for now
        unfolding writeRateLimitResponse_def by (rule http_Error_status) (use st(2) in \<open>simp add: set_header_def\<close>)
      ultimately show ?thesis by (simp add: writeRateLimitResponse_def)
    next
      case False
      then have "RedisRateLimit A (smRedis (appAuth A)) limit h r w = h r ?w"
        using R inc by (cases count) (auto simp: RedisRateLimit_def time_Now_def Let_def)
      moreover have "cnSent (wConn ?w) = None" using st(2) by simp
      ultimately show ?thesis using turned_down [OF assms kept_counter [OF st(1) R(1) inc]] by simp metis
    qed
  qed
qed

lemma router_turns_down:
  assumes "rqCookie r = Some v" "routed r = Some (ep, bs)" "ep \<notin> {EpHealth, EpRegister, EpLogin, EpLogout}"
  shows "turns_down A rinv live v r (NewRouter A)"
  unfolding NewRouter_stack middleware_stack_def
  by (intro layers_turn_down limiter_turns_down mux_turns_down [OF assms])

section \<open>Sessions over runs of requests\<close>

text \<open>A session never passes to another user: through every run of requests a cookie value that stands for one user, or
  for nobody, stands for that user or for nobody.\<close>

theorem sessions_keep_their_user:
  assumes "session_store (appAuth A) rinv live" "rinv (wRedis w)" "mono (appClock A)"
    and "\<forall>t \<ge> appClock A (wTick w). session_of (appAuth A) (live (wRedis w)) t v \<in> {None, u}"
    and "\<forall>n \<ge> wDraw w. \<forall>b. appRandom A n = Inr b \<longrightarrow> hex_encode b \<noteq> v"
    and "w' = serve_all A rs w" "appClock A (wTick w') \<le> t"
  shows "session_of (appAuth A) (live (wRedis w')) t v \<in> {None, u}"
proof -
  have "stands_at_most A rinv live v u w" using assms(1-5) by (simp add: stands_at_most_def)
  then have "stands_at_most A rinv live v u w'" unfolding assms(6) by (rule served_kept)
  then show ?thesis using assms(7) by (simp add: stands_at_most_def)
qed

text \<open>C15: Who logged out stays logged out.  Once a logout has deleted its session in Redis, the cookie stands for nobody,
  whatever requests are served afterwards, and every request that comes with it to a protected endpoint is answered 401, or 429 by the rate
  limiter, and leaves the database as it is; for this the random source must not deliver the same session id again.\<close>

theorem logged_out_for_good:
  assumes "session_store (appAuth A) rinv live" "rinv (wRedis w)" "mono (appClock A)"
    and "smRedis (appAuth A) = Some R" "rqCookie r0 = Some v" "v \<noteq> []"
    and "snd (redisDel R (sessionRedisKey v) (appClock A (wTick w)) (wRedis w)) = Inr u"
    and "\<forall>n \<ge> wDraw w. \<forall>b. appRandom A n = Inr b \<longrightarrow> hex_encode b \<noteq> v"
    and "w' = serve_all A rs (handleAuthLogout A r0 w)"
    and "rqCookie r = Some v" "routed r = Some (ep, bs)" "ep \<notin> {EpHealth, EpRegister, EpLogin, EpLogout}"
  shows "(\<forall>t \<ge> appClock A (wTick w'). session_of (appAuth A) (live (wRedis w')) t v = None)
    \<and> final_status (wConn (serve_request A r w')) \<in> {401, 429} \<and> wDb (serve_request A r w') = wDb w'"
proof -
  let ?w = "handleAuthLogout A r0 w" and ?now = "appClock A (wTick w)"
  let ?s = "revoke (appAuth A) ?now (Some v) (wRedis w)"
  have w1: "wRedis ?w = ?s" "wTick ?w = Suc (wTick w)" "wDraw ?w = wDraw w"
    using assms(5) by (simp_all add: handleAuthLogout_def auth_revoke_def time_Now_def)
  have del: "redisDel R (sessionRedisKey v) ?now (wRedis w) = (fst (redisDel R (sessionRedisKey v) ?now (wRedis w)), Inr u)"
    using assms(7) by (metis prod.collapse)
  have "session_of (appAuth A) (live ?s) t v = None" if "appClock A (Suc (wTick w)) \<le> t" for t
    using session_store.revoke_ok [OF assms(1,2,4,6) del] monoD [OF assms(3), of "wTick w" "Suc (wTick w)"] that by simp
  then have "stands_at_most A rinv live v None ?w"
    using assms(1,3,8) session_store.revoke_inv [OF assms(1,2)] by (simp add: stands_at_most_def w1)
  then have st: "stands_at_most A rinv live v None w'" unfolding assms(9) by (rule served_kept)
  have "cnSent (wConn (accept w')) = None" by simp
  then obtain w'' where "NewRouter A r (accept w') = (w'', Returned)" "wDb w'' = wDb (accept w')" "final_status (wConn w'') \<in> {401, 429}"
    by (rule turned_down [OF router_turns_down [OF assms(10-12)] kept_plain(17) [OF st]])
  then show ?thesis using st by (simp add: serve_request_def stands_at_most_def)
qed

lemma logged_out_for_good_witness:
  "let w = serve_all demo_app demo_run (handleAuthLogout demo_app
         (demo_http ''POST'' ''/auth/logout'' (Some ''abc'') (Inl (Malformed ''EOF''))) demo_world)
   in final_status (wConn (serve_request demo_app
         (demo_http ''GET'' ''/tasks'' (Some ''abc'') (Inl (Malformed ''EOF''))) w)) \<in> {401, 429}"
proof -
  let ?bye = "demo_http ''POST'' ''/auth/logout'' (Some ''abc'') (Inl (Malformed ''EOF''))"
  let ?r = "demo_http ''GET'' ''/tasks'' (Some ''abc'') (Inl (Malformed ''EOF''))"
  have "canonical_path ''/tasks''" by code_simp
  moreover have "mux_match ''GET'' (path_segments ''/tasks'') = Some (EpTaskList, [])" by code_simp
  ultimately have routed: "routed ?r = Some (EpTaskList, [])" by (simp add: routed_def)
  have clock: "mono (appClock demo_app)" by (simp add: mono_def)
  have redis: "smRedis (appAuth demo_app) = Some (rd_client no_fault)" by (simp add: redis_manager_def)
  have del: "snd (redisDel (rd_client no_fault) (sessionRedisKey ''abc'') (appClock demo_app (wTick demo_world)) (wRedis demo_world)) = Inr ()"
    by (simp add: rd_step_def)
  have fresh: "\<forall>n \<ge> wDraw demo_world. \<forall>b. appRandom demo_app n = Inr b \<longrightarrow> hex_encode b \<noteq> ''abc''"
  proof (intro allI impI)
    fix n b
    assume "appRandom demo_app n = Inr b"
    then have "length b = 24" by (auto simp: demo_app_def)
    then show "hex_encode b \<noteq> ''abc''" using length_hex_encode [of b] by (intro notI) (simp del: length_hex_encode)
  qed
  have cookies: "rqCookie ?bye = Some ''abc''" "''abc'' \<noteq> []" "rqCookie ?r = Some ''abc''"
    "EpTaskList \<notin> {EpHealth, EpRegister, EpLogin, EpLogout}" by simp_all
  show ?thesis unfolding Let_def
    by (rule logged_out_for_good [OF demo_sessions TrueI clock redis cookies(1,2) del fresh refl cookies(3) routed cookies(4),
          THEN conjunct2, THEN conjunct1])
qed

text \<open>C26: A logout does not look at the answer of Redis.  What the client is told is the same whatever Redis does: 200 and the cookie
  that clears its own.  When the command that deletes the session fails without having run, every session goes on as it was, the one that was
  logged out among them.\<close>

theorem logout_error_ignored:
  assumes "session_store (appAuth A) rinv live" "smRedis (appAuth A) = Some R" "rqCookie r = Some v" "v \<noteq> []"
    and "cnSent (wConn w) = None" "now = appClock A (wTick w)"
    and "redisDel R (sessionRedisKey v) now (wRedis w) = (s, Inl e)" "from_on now (live s) (live (wRedis w))"
    and "w' = handleAuthLogout A r w"
  shows "final_status (wConn w') = 200 \<and> final_cookies (wConn w') = final_cookies (wConn w) @ [clear_cookie (appAuth A)]
    \<and> (\<forall>w2. wConn w2 = wConn w \<and> wWriters w2 = wWriters w \<longrightarrow> wConn (handleAuthLogout A r w2) = wConn w')
    \<and> (\<forall>t \<ge> now. \<forall>v'. session_of (appAuth A) (live (wRedis w')) t v' = session_of (appAuth A) (live (wRedis w)) t v')"
proof -
  let ?w = "auth_clear A (auth_revoke A r w)"
  have w': "w' = respondJSON A 200 (PMap ''status'' ''logged_out'') ?w" using assms(9) by (simp add: handleAuthLogout_def)
  have sent: "cnSent (wConn ?w) = None" "cnCookies (wConn ?w) = cnCookies (wConn w) @ [clear_cookie (appAuth A)]"
    using assms(5) by (simp_all add: auth_clear_def set_cookie_def auth_revoke_def time_Now_def)
  have "wRedis w' = s" using assms(2-4,6,7) by (simp add: w' auth_revoke_def time_Now_def revoke_def auth_clear_def set_cookie_def)
  then have "\<forall>t \<ge> now. \<forall>v'. session_of (appAuth A) (live (wRedis w')) t v' = session_of (appAuth A) (live (wRedis w)) t v'"
    by (simp add: session_of_from_on [OF assms(8)])
  moreover have "wConn (handleAuthLogout A r w2) = wConn w'" if "wConn w2 = wConn w" "wWriters w2 = wWriters w" for w2
    using that by (simp add: w' handleAuthLogout_def respondJSON_def write_eq auth_clear_def set_cookie_def set_header_def
        auth_revoke_def time_Now_def Let_def)
  moreover have "final_cookies (wConn w) = cnCookies (wConn w)" using assms(5) by (simp add: final_cookies_def)
  ultimately show ?thesis using respondJSON_status [OF sent(1), of A 200] sent(2) w' by auto
qed

lemma logout_error_ignored_witness:
  "let A = demo_app\<lparr>appAuth := redis_manager ''k'' (3600 * nanos_per_second) (\<lambda>_. Some ''i/o timeout'')\<rparr>;
       w' = handleAuthLogout A (demo_http ''POST'' ''/auth/logout'' (Some ''abc'') (Inl (Malformed ''EOF''))) demo_world
   in final_status (wConn w') = 200 \<and> session_of (appAuth A) (rd_live (wRedis w')) 5 ''abc'' = Some 1"
proof -
  let ?A = "demo_app\<lparr>appAuth := redis_manager ''k'' (3600 * nanos_per_second) (\<lambda>_. Some ''i/o timeout'')\<rparr>"
  let ?r = "demo_http ''POST'' ''/auth/logout'' (Some ''abc'') (Inl (Malformed ''EOF''))"
  let ?R = "rd_client (\<lambda>_. Some ''i/o timeout'')" and ?s = "(wRedis demo_world)\<lparr>rdCalls := 1\<rparr>"
  have sessions: "session_store (appAuth ?A) (\<lambda>_. True) rd_live" by (simp add: redis_sessions.session_store_axioms)
  have del: "redisDel ?R (sessionRedisKey ''abc'') (appClock ?A (wTick demo_world)) (wRedis demo_world) = (?s, Inl (LibError ''i/o timeout''))"
    by (simp add: rd_step_def rd_put_def rd_empty_def)
  have still: "from_on (appClock ?A (wTick demo_world)) (rd_live ?s) (rd_live (wRedis demo_world))"
    by (simp add: from_on_def rd_live_def)
  have "session_of (appAuth ?A) (rd_live (wRedis demo_world)) 5 ''abc'' = Some 1"
    by (simp add: session_of_def redis_manager_def rd_live_def rd_put_def)
  moreover have "smRedis (appAuth ?A) = Some ?R" "rqCookie ?r = Some ''abc''" "''abc'' \<noteq> []" "cnSent (wConn demo_world) = None"
    by (simp_all add: redis_manager_def fresh_conn_def)
  note logout = logout_error_ignored [OF sessions this refl del still refl]
  have "session_of (appAuth ?A) (rd_live (wRedis (handleAuthLogout ?A ?r demo_world))) 5 ''abc''
      = session_of (appAuth ?A) (rd_live (wRedis demo_world)) 5 ''abc''"
    by (rule logout [THEN conjunct2, THEN conjunct2, THEN conjunct2, rule_format]) simp
  then show ?thesis unfolding Let_def using logout [THEN conjunct1] calculation by simp
qed

end
