(* ===== verification/Spec2Isabelle.thy ===== *)
theory Spec2Isabelle
  imports Log_Fanout Routing Requests_Shared Server_Lifecycle Transfers_Waiting Rate_Limit_Concurrent Commands Whole_Program Build Sessions_Kept
begin

text \<open>
  A verification development for the backend of Specto: a banking and task service in Go over PostgreSQL
  (accounts, transfers, users, tasks), Redis (sessions, request counters, cached balances) and BoltDB
  (the audit log).  File names below are relative to \<^verbatim>\<open>src/backend/\<close>.

  \<^bold>\<open>The program.\<close>  \<^verbatim>\<open>specto server\<close> (\<^verbatim>\<open>cmd/specto/server.go\<close>) loads and validates its configuration, opens
  PostgreSQL, migrates it, opens Redis and BoltDB, builds repositories, services and the router, and serves
  until a signal comes.  A request passes the middleware stack (audit trail, rate limiter, recovery,
  security headers, logging), the routing table, the session check, a handler, a service, a repository and
  the driver.  \<^verbatim>\<open>specto seed\<close> does the same up to the stores and then adds fixtures.

  \<^bold>\<open>How it is modelled.\<close>  Every layer is a group of functions with explicit state passing, composed as the code composes them:
  a handler maps the application, the request and the world to the world; a service is a function over the
  record of a repository interface; a repository method runs statements of the datatype \<open>sql_stmt\<close> on a driver.
  Errors are values of \<open>go_error\<close> on the left of a sum, so every early return is a branch.  A Go
  \<^verbatim>\<open>int64\<close> is a 64-bit word that wraps around; a Go string is its bytes; an instant is an \<open>int\<close> of
  nanoseconds.  What the repository does not contain is an argument of the definitions that use it: the
  PostgreSQL driver, the Redis client, the bolt engine, bcrypt, the texts of the json package, the clock, the
  random source and float64 arithmetic.

  \<^bold>\<open>The standard library in use.\<close>
  \<^item> \<open>Prelude\<close>: names of the machine types, instants, shared facts on words and maps.
  \<^item> \<open>Go_Strconv\<close>, \<open>Go_Strings\<close>, \<open>Go_Encoding\<close>, \<open>Go_Crypto\<close>, \<open>Go_Duration\<close>: \<^verbatim>\<open>strconv\<close>, \<^verbatim>\<open>strings\<close>, base64, hex and
    big-endian keys (\<^verbatim>\<open>itob\<close> of \<^verbatim>\<open>boltdb.go\<close>), SHA-256 and HMAC on bytes, \<^verbatim>\<open>time.ParseDuration\<close>; with their round trips and bounds.

  \<^bold>\<open>Data and services.\<close>
  \<^item> \<open>Domain\<close>: \<^verbatim>\<open>internal/domain\<close>, the entities, the repository interfaces as records, the typed errors and their texts.
  \<^item> \<open>Repositories\<close>: the interfaces' contracts as the locales \<open>user_reads\<close>, \<open>user_store\<close>, \<open>task_store\<close>.
  \<^item> \<open>User_Service\<close>, \<open>Task_Service\<close>, \<open>Banking_Service\<close>, \<open>Stats\<close>: \<^verbatim>\<open>internal/service\<close>.  Per operation a lemma
    \<open>..._cases\<close> says what it does on every branch, over any store that meets the contract.  \<open>Stats\<close> has the SSE2
    routine of \<^verbatim>\<open>count_amd64.s\<close> instruction by instruction and proves it equal to the portable loop.

  \<^bold>\<open>PostgreSQL.\<close>
  \<^item> \<open>Sql\<close>: \<^verbatim>\<open>internal/database/tx.go\<close>; \<open>sql_effect\<close> is what each statement does to the tables of the
    migrations, constraints included; the locale \<open>sql_engine\<close> is what the code relies on in a server, one
    transaction at a time, with faults at any call and commits whose reply is lost.
  \<^item> \<open>Pg_Repos\<close>: \<^verbatim>\<open>postgres.go\<close>, \<^verbatim>\<open>banking_postgres.go\<close>, and that they meet the contracts.  \<open>Pg_Reference\<close>: an executable server that
    meets \<open>sql_engine\<close> under every pattern of faults; the witnesses run on it.
  \<^item> \<open>Sharing\<close>: the locale \<open>shared_engine\<close>, a server on which others run between any two of our statements: what they may do
    (rely) and what we do (guarantee) are relations over moments: the tables, the owners of all tasks there ever were, and a log
    that our own writes, and nothing else, extend by the tables before and after them.  The repositories and
    services are proved in it; a server of our own (\<open>sql_engine\<close>) is the sublocale where the others do nothing.
  \<^item> \<open>Pg_Services\<close>: transfers (all or nothing, solvency, the ledger), registration and login, tasks.
  \<^item> \<open>Transfers_Interleaved\<close>, \<open>Transfers_Concurrent\<close>, \<open>Transfers_Waiting\<close>: transfers whose statements interleave, as a
    step relation with row locks under \<^verbatim>\<open>READ COMMITTED\<close>.  Money and ledger survive every interleaving; the
    check of the funds does not.  The steps of a request alone are \<open>BankingService_Transfer\<close>.  A transfer waits for at most one other at a
    time, which is over after three more steps of its own; opposite transfers, and no other two, can wait for each other.
  \<^item> \<open>Migrations\<close>, \<open>Seeding\<close>: \<^verbatim>\<open>migrate.go\<close>, the up scripts, \<^verbatim>\<open>seed.go\<close> of the database package and \<^verbatim>\<open>seedData\<close> of the command.

  \<^bold>\<open>Redis and BoltDB.\<close>
  \<^item> \<open>Redis\<close>: the commands in use, the locale \<open>redis_store\<close> over the keys that are live at an instant, an executable
    server.  \<open>Balance_Cache\<close>: \<^verbatim>\<open>balance_cache.go\<close>.  \<open>Session\<close>: the session manager of \<^verbatim>\<open>internal/web/auth.go\<close> with
    signed tokens and with Redis.
  \<^item> \<open>Bolt\<close>: \<^verbatim>\<open>boltdb.go\<close>, \<^verbatim>\<open>audit_bolt.go\<close>.  \<open>Bolt_Laws\<close> (locales \<open>bolt_engine\<close>, \<open>bolt_entity\<close>), \<open>Bolt_Repos\<close> (the
    repositories meet the contracts), \<open>Bolt_Reference\<close> (an executable engine), \<open>Bolt_Stores\<close> (the properties).

  \<^bold>\<open>The HTTP layer, \<^verbatim>\<open>internal/web\<close>.\<close>
  \<^item> \<open>Http\<close>, \<open>Handlers\<close>, \<open>Middleware\<close>: requests, the response writer with its wrappers, JSON bodies, every handler, the routing
    table, every middleware and \<^verbatim>\<open>NewRouter\<close>.  \<open>Routing\<close>: no two routes conflict, every endpoint has exactly one
    (it is an \<open>enum\<close>), and the most specific one is taken.
  \<^item> \<open>Responses\<close>, \<open>Request_Effects\<close>, \<open>Access_Control\<close>: frame rules; \<open>request_change\<close>, the abstract specification of what a
    request may do to the tables in whose name, and that the handlers implement it; \<open>performed\<close> and \<open>answers\<close>, which compare
    what a writing request did with the status that is sent; who can change which row.
  \<^item> \<open>Requests_Shared\<close>: requests that interleave statement by statement; each is one of the others to the rest, the
    log shows that each writes at most once and what its user asked for, and which checks the others can overtake.
  \<^item> \<open>Rate_Limit\<close>, \<open>Rate_Limit_Concurrent\<close>: the limiter over sequences of requests, and in steps over requests at the same time.
  \<^item> \<open>Serving\<close>, \<open>Server_Runs\<close>, \<open>Audit_Log\<close>: the stack around any handler, runs of requests, and what the audit log holds
    after them.  \<open>Sessions_Kept\<close>: whom a cookie can stand for is an invariant of these runs; who logged out stays logged out.

  \<^bold>\<open>The process.\<close>
  \<^item> \<open>Config\<close>: \<^verbatim>\<open>internal/config\<close>.  \<open>Log_Fanout\<close>: \<^verbatim>\<open>internal/logging\<close>.  \<open>Server_Lifecycle\<close>: \<^verbatim>\<open>Server.Run\<close> as two goroutines, a
    channel and a signal; after a signal it returns within four steps of its own.
  \<^item> \<open>Resources\<close>, \<open>Commands\<close>: the two commands with what they open and close.
  \<^item> \<open>Whole_Program\<close>: the application that a configuration and opened stores make, and what holds of it
    from an empty database on.
  \<^item> \<open>Build\<close>: the targets of \<^verbatim>\<open>magefile.go\<close> as the commands they run; a deployment stops at the first that fails.

  \<^bold>\<open>Bounds.\<close>  No definition runs on fuel: every loop is structural or has its measure.  Sequences of ids end at \<open>2 ^ 63\<close>; the
  Bolt repositories are proved for stores whose sequences have room (\<open>sequences_left\<close> in \<open>Bolt_Laws\<close>), which no real
  store exhausts.  The amount \<open>- (2 ^ 63)\<close>, whose negation wraps around, passes the guards of \<open>Transfer\<close> and destroys \<open>2 ^ 64\<close> units
  (\<open>transfer_negative_takes\<close>); the theorems about the books exclude it by name.

  \<^bold>\<open>Not modelled.\<close>  The hand-over to the cobra library in \<^verbatim>\<open>root.go\<close>; pool sizes and time-outs, which are settings of libraries; the
  parsing and printing of JSON texts, modelled from the parsed value on; the texts of log records; the
  unused declarations of \<^verbatim>\<open>models.go\<close> (cards, transactions).  Runs of requests (\<open>Server_Runs\<close>) are
  sequences.  Concurrent requests are modelled statement by statement on the tables (\<open>Requests_Shared\<close>; transfers, with
  their locks, in \<open>Transfers_Concurrent\<close>) and command by command in the rate limiter; the sessions of concurrent requests
  are read and written one request at a time.
\<close>

end
